(* ===== verification/Chum_Prelude.thy ===== *)
theory Chum_Prelude
  imports Main "HOL-Library.Multiset" "HOL-Library.Char_ord" "HOL-Library.List_Lexorder"
begin

text \<open>
  Shared vocabulary of the development: the parts of Go and of its standard library that the
  modelled components use, with the generic lemmas about them.

  \<^item> Go strings are byte strings, so they are \<^typ>\<open>string\<close> (a list of 8-bit characters).
    \<open>strings.TrimSpace\<close> and \<open>strings.ToLower\<close> are modelled on their ASCII behaviour: the six ASCII
    white-space bytes and the letters A to Z. Non-ASCII white space and letters are left alone.
  \<^item> \<open>sort.Slice\<close> is an insertion sort by the caller's \<open>less\<close> function; the locale
    \<open>slice_order\<close> states what it guarantees when \<open>less\<close> is a strict weak order, and when the
    outcome does not depend on the sorting algorithm.
  \<^item> An error return is a value of a sum type: \<open>Inl\<close> the error, \<open>Inr\<close> the result.
\<close>

named_theorems go_string \<open>evaluation rules of the string library\<close>
named_theorems db_simps \<open>what the database operations leave unchanged\<close>

section \<open>Results\<close>

type_synonym ('e, 'a) result = "'e + 'a"

definition is_ok :: "('e, 'a) result \<Rightarrow> bool" where
  "is_ok r = (case r of Inl _ \<Rightarrow> False | Inr _ \<Rightarrow> True)"

lemma is_ok_simps [simp]: "is_ok (Inl e) = False" "is_ok (Inr x) = True"
  by (simp_all add: is_ok_def)

lemma is_ok_iff: "is_ok r \<longleftrightarrow> (\<exists>x. r = Inr x)"
  by (cases r) auto

section \<open>Strings\<close>

definition is_space :: "char \<Rightarrow> bool" where
  "is_space c = (c \<in> {CHR 0x09, CHR 0x0A, CHR 0x0B, CHR 0x0C, CHR 0x0D, CHR '' ''})"

definition trim_space :: "string \<Rightarrow> string" where
  "trim_space s = rev (dropWhile is_space (rev (dropWhile is_space s)))"

definition lower_char :: "char \<Rightarrow> char" where
  "lower_char c =
     (let n = (of_char c :: nat) in if 65 \<le> n \<and> n \<le> 90 then char_of (n + 32) else c)"

definition to_lower :: "string \<Rightarrow> string" where
  "to_lower s = map lower_char s"

definition has_prefix :: "string \<Rightarrow> string \<Rightarrow> bool" where
  "has_prefix s p = (take (length p) s = p)"

definition has_suffix :: "string \<Rightarrow> string \<Rightarrow> bool" where
  "has_suffix s p = has_prefix (rev s) (rev p)"

definition trim_prefix :: "string \<Rightarrow> string \<Rightarrow> string" where
  "trim_prefix s p = (if has_prefix s p then drop (length p) s else s)"

definition trim_suffix :: "string \<Rightarrow> string \<Rightarrow> string" where
  "trim_suffix s p = (if has_suffix s p then take (length s - length p) s else s)"

fun contains_str :: "string \<Rightarrow> string \<Rightarrow> bool" where
  "contains_str [] p = (p = [])"
| "contains_str (c # cs) p = (has_prefix (c # cs) p \<or> contains_str cs p)"

fun index_byte :: "string \<Rightarrow> char \<Rightarrow> nat option" where
  "index_byte [] b = None"
| "index_byte (c # cs) b = (if c = b then Some 0 else map_option Suc (index_byte cs b))"

fun split_on :: "char \<Rightarrow> string \<Rightarrow> string list" where
  "split_on b [] = [[]]"
| "split_on b (c # cs) =
     (if c = b then [] # split_on b cs
      else (case split_on b cs of [] \<Rightarrow> [[c]] | l # ls \<Rightarrow> (c # l) # ls))"

fun join_with :: "string \<Rightarrow> string list \<Rightarrow> string" where
  "join_with sep [] = []"
| "join_with sep [x] = x"
| "join_with sep (x # y # ys) = x @ sep @ join_with sep (y # ys)"

function replace_all :: "string \<Rightarrow> string \<Rightarrow> string \<Rightarrow> string" where
  "replace_all [] old new = []"
| "replace_all (c # cs) old new =
     (if old \<noteq> [] \<and> has_prefix (c # cs) old
      then new @ replace_all (drop (length old) (c # cs)) old new
      else c # replace_all cs old new)"
  by pat_completeness auto
termination
  by (relation "measure (\<lambda>(s, _, _). length s)") (auto simp: neq_Nil_conv)

definition digit_char :: "nat \<Rightarrow> char" where
  "digit_char n = char_of (48 + n)"

fun show_nat :: "nat \<Rightarrow> string" where
  "show_nat n = (if n < 10 then [digit_char n] else show_nat (n div 10) @ [digit_char (n mod 10)])"

declare show_nat.simps [simp del]

definition show_int :: "int \<Rightarrow> string" where
  "show_int i = (if i < 0 then CHR ''-'' # show_nat (nat (- i)) else show_nat (nat i))"

definition is_digit :: "char \<Rightarrow> bool" where
  "is_digit c = (48 \<le> (of_char c :: nat) \<and> (of_char c :: nat) \<le> 57)"

subsection \<open>Trimming and lower case\<close>

lemma lower_char_idem [simp]: "lower_char (lower_char c) = lower_char c"
proof -
  have "(of_char c :: nat) < 256" by (cases c) (simp add: horner_sum_bound)
  then show ?thesis by (auto simp: lower_char_def Let_def)
qed

lemma to_lower_idem [simp]: "to_lower (to_lower s) = to_lower s"
  by (simp add: to_lower_def)

lemma to_lower_Nil [simp]: "to_lower [] = []"
  by (simp add: to_lower_def)

lemma to_lower_eq_Nil [simp]: "to_lower s = [] \<longleftrightarrow> s = []"
  by (simp add: to_lower_def)

lemma of_char_lower:
  "(of_char (lower_char c) :: nat) =
     (if 65 \<le> (of_char c :: nat) \<and> (of_char c :: nat) \<le> 90 then of_char c + 32 else of_char c)"
  by (auto simp: lower_char_def Let_def)

lemma is_space_nat: "is_space c \<longleftrightarrow> (of_char c :: nat) \<in> {9, 10, 11, 12, 13, 32}"
proof -
  have eq: "c = d \<longleftrightarrow> (of_char c :: nat) = of_char d" for d
    by (metis char_of_char)
  show ?thesis by (simp add: is_space_def eq)
qed

lemma is_space_lower [simp]: "is_space (lower_char c) = is_space c"
  by (auto simp: is_space_nat of_char_lower)

lemma dropWhile_space_lower:
  "dropWhile is_space (map lower_char s) = map lower_char (dropWhile is_space s)"
  by (simp add: dropWhile_map comp_def)

lemma trim_space_lower: "trim_space (to_lower s) = to_lower (trim_space s)"
  by (simp add: trim_space_def to_lower_def dropWhile_space_lower rev_map)

lemma dropWhile_hd_stop: "(\<And>x xs. s = x # xs \<Longrightarrow> \<not> P x) \<Longrightarrow> dropWhile P s = s"
  by (cases s) auto

lemma dropWhile_same_length: "length s \<le> length (dropWhile P s) \<Longrightarrow> dropWhile P s = s"
  using length_dropWhile_le [of P "tl s"] by (cases s) (auto split: if_splits)

lemma trim_space_eq_iff:
  "trim_space s = s \<longleftrightarrow> s = [] \<or> (\<not> is_space (hd s) \<and> \<not> is_space (last s))"
proof (cases s rule: rev_cases)
  case Nil
  then show ?thesis by (simp add: trim_space_def)
next
  case (snoc t z)
  then have ne: "s \<noteq> []" by simp
  show ?thesis
  proof
    assume eq: "trim_space s = s"
    then have "length s \<le> length (dropWhile is_space s)"
      using length_dropWhile_le [of is_space "rev (dropWhile is_space s)"]
      by (metis length_rev trim_space_def)
    then have d: "dropWhile is_space s = s" by (rule dropWhile_same_length)
    then have h: "\<not> is_space (hd s)" using ne hd_dropWhile [of is_space s] by simp
    from eq d have "rev (dropWhile is_space (rev s)) = s" by (simp add: trim_space_def)
    then have "length (rev s) \<le> length (dropWhile is_space (rev s))" by (metis length_rev order_refl)
    then have "dropWhile is_space (rev s) = rev s" by (rule dropWhile_same_length)
    then have "\<not> is_space z" using snoc hd_dropWhile [of is_space "rev s"] by simp
    with h snoc show "s = [] \<or> (\<not> is_space (hd s) \<and> \<not> is_space (last s))" by simp
  next
    assume "s = [] \<or> (\<not> is_space (hd s) \<and> \<not> is_space (last s))"
    with snoc have h: "\<not> is_space (hd s)" and l: "\<not> is_space z" by auto
    from h ne have "dropWhile is_space s = s" by (cases s) auto
    then show "trim_space s = s" using l snoc by (simp add: trim_space_def)
  qed
qed

lemma trim_space_stops:
  "trim_space s = [] \<or> (\<not> is_space (hd (trim_space s)) \<and> \<not> is_space (last (trim_space s)))"
proof (cases "trim_space s = []")
  case False
  let ?d = "dropWhile is_space s"
  let ?e = "dropWhile is_space (rev ?d)"
  from False have ne: "?e \<noteq> []" by (simp add: trim_space_def)
  then have l: "\<not> is_space (hd ?e)" by (rule hd_dropWhile)
  obtain pre where pre: "rev ?d = pre @ ?e"
    by (metis takeWhile_dropWhile_id)
  then have d: "?d = rev ?e @ rev pre" by (metis rev_append rev_rev_ident)
  with ne have "hd (rev ?e) = hd ?d" by (metis hd_append2 rev_is_Nil_conv)
  moreover have "\<not> is_space (hd ?d)"
    using d ne hd_dropWhile [of is_space s] by (metis append_is_Nil_conv rev_is_Nil_conv)
  ultimately show ?thesis
    using ne l by (simp add: trim_space_def last_rev)
qed simp

lemma trim_space_idem [simp]: "trim_space (trim_space s) = trim_space s"
  using trim_space_stops [of s] by (simp add: trim_space_eq_iff)

lemma trim_space_Nil [simp]: "trim_space [] = []"
  by (simp add: trim_space_def)

subsection \<open>Prefixes, suffixes and searching\<close>

lemma has_prefix_iff: "has_prefix s p \<longleftrightarrow> (\<exists>t. s = p @ t)"
  by (auto simp: has_prefix_def) (metis append_take_drop_id)

lemma has_suffix_iff: "has_suffix s p \<longleftrightarrow> (\<exists>t. s = t @ p)"
proof
  assume "has_suffix s p"
  then obtain t where "rev s = rev p @ t" by (auto simp: has_suffix_def has_prefix_iff)
  then have "s = rev t @ p" by (metis rev_append rev_rev_ident)
  then show "\<exists>t. s = t @ p" ..
qed (auto simp: has_suffix_def has_prefix_iff)

lemma has_prefix_append [simp]: "has_prefix (p @ t) p"
  by (simp add: has_prefix_def)

lemma has_suffix_append [simp]: "has_suffix (t @ p) p"
  by (auto simp: has_suffix_iff)

lemma trim_suffix_append [simp]: "trim_suffix (t @ p) p = t"
  by (simp add: trim_suffix_def)

lemma trim_prefix_append [simp]: "trim_prefix (p @ t) p = t"
  by (simp add: trim_prefix_def)

lemma contains_str_iff: "contains_str s p \<longleftrightarrow> (\<exists>a b. s = a @ p @ b)"
proof (induction s)
  case (Cons c cs)
  show ?case
  proof
    assume "contains_str (c # cs) p"
    then consider "has_prefix (c # cs) p" | "contains_str cs p" by auto
    then show "\<exists>a b. c # cs = a @ p @ b"
    proof cases
      case 1
      then show ?thesis unfolding has_prefix_iff by (metis append_Nil)
    next
      case 2
      then show ?thesis unfolding Cons.IH by (metis append_Cons)
    qed
  next
    assume "\<exists>a b. c # cs = a @ p @ b"
    then obtain a b where ab: "c # cs = a @ p @ b" by blast
    show "contains_str (c # cs) p"
    proof (cases a)
      case Nil
      with ab have "has_prefix (c # cs) p" by (simp add: has_prefix_iff)
      then show ?thesis by simp
    next
      case (Cons x xs)
      with ab have "cs = xs @ p @ b" by simp
      then show ?thesis using Cons.IH by auto
    qed
  qed
qed simp

lemma index_byte_None [simp]: "index_byte s b = None \<longleftrightarrow> b \<notin> set s"
  by (induction s) auto

lemma index_byte_Some:
  "index_byte s b = Some i \<Longrightarrow> i < length s \<and> s = take i s @ b # drop (Suc i) s \<and> b \<notin> set (take i s)"
proof (induction s arbitrary: i)
  case (Cons c cs)
  show ?case
  proof (cases "c = b")
    case True
    with Cons.prems show ?thesis by simp
  next
    case False
    with Cons.prems obtain j where j: "index_byte cs b = Some j" and i: "i = Suc j" by auto
    from Cons.IH [OF j] i False show ?thesis by auto
  qed
qed simp

subsection \<open>Lines and numbers\<close>

lemma split_on_nonempty [simp]: "split_on b s \<noteq> []"
  by (induction s) (auto split: list.split)

lemma split_on_append: "split_on b (xs @ b # ys) = split_on b xs @ split_on b ys"
  by (induction xs) (auto split: list.split)

lemma split_on_id: "b \<notin> set s \<Longrightarrow> split_on b s = [s]"
  by (induction s) auto

lemma join_with_Cons: "ys \<noteq> [] \<Longrightarrow> join_with sep (x # ys) = x @ sep @ join_with sep ys"
  by (cases ys) simp_all

lemma join_split [simp]: "join_with [b] (split_on b s) = s"
proof (induction s)
  case (Cons c cs)
  obtain l ls where s: "split_on b cs = l # ls" by (meson neq_Nil_conv split_on_nonempty)
  show ?case
  proof (cases "c = b")
    case True
    then show ?thesis using Cons by (simp add: join_with_Cons)
  next
    case False
    then show ?thesis using Cons s by (cases ls) auto
  qed
qed simp

lemma split_join:
  "\<forall>l \<in> set ls. b \<notin> set l \<Longrightarrow> ls \<noteq> [] \<Longrightarrow> split_on b (join_with [b] ls) = ls"
proof (induction ls)
  case (Cons l ls)
  show ?case
  proof (cases ls)
    case Nil
    then show ?thesis using Cons.prems by (simp add: split_on_id)
  next
    case (Cons l' ls')
    then show ?thesis using Cons.prems Cons.IH split_on_append [of b l "join_with [b] ls"]
      by (simp add: split_on_id)
  qed
qed simp

lemma replace_all_absent:
  assumes "p \<notin> set s"
  shows "replace_all s (p # old) new = s"
  using assms by (induction s) (auto simp: has_prefix_def)

lemma digit_char_digit: "n < 10 \<Longrightarrow> is_digit (digit_char n)"
  by (simp add: is_digit_def digit_char_def)

lemma show_nat_digits: "list_all is_digit (show_nat n)"
  by (induction n rule: show_nat.induct) (subst show_nat.simps, simp add: digit_char_digit)

lemma show_nat_nonempty [simp]: "show_nat n \<noteq> []"
  by (subst show_nat.simps) simp

lemma show_nat_length: "10 ^ k \<le> n \<Longrightarrow> k < length (show_nat n)"
proof (induction k arbitrary: n)
  case (Suc k)
  then have "10 ^ k \<le> n div 10" by simp
  moreover have "\<not> n < 10"
  proof -
    have "(10 :: nat) * 1 \<le> 10 * 10 ^ k" by (intro mult_le_mono) simp_all
    then show ?thesis using Suc.prems unfolding power_Suc by linarith
  qed
  ultimately show ?case using Suc.IH [of "n div 10"] by (subst show_nat.simps) simp
qed simp

lemma digit_not_space: "is_digit c \<Longrightarrow> \<not> is_space c"
  by (auto simp: is_digit_def is_space_nat)

lemma digit_not_dash: "is_digit c \<Longrightarrow> c \<noteq> CHR ''-''"
  by (auto simp: is_digit_def)

section \<open>Sorting\<close>

text \<open>
  \<open>sort.Slice(xs, less)\<close>. Go's algorithm is not stable, so only what the locale below proves may
  be relied upon: the result is a permutation in which no element is less than an earlier one.
\<close>

fun insert_by :: "('a \<Rightarrow> 'a \<Rightarrow> bool) \<Rightarrow> 'a \<Rightarrow> 'a list \<Rightarrow> 'a list" where
  "insert_by lt x [] = [x]"
| "insert_by lt x (y # ys) = (if lt y x then y # insert_by lt x ys else x # y # ys)"

definition sort_slice :: "('a \<Rightarrow> 'a \<Rightarrow> bool) \<Rightarrow> 'a list \<Rightarrow> 'a list" where
  "sort_slice lt xs = foldr (insert_by lt) xs []"

lemma sort_slice_simps [simp]:
  "sort_slice lt [] = []"
  "sort_slice lt (x # xs) = insert_by lt x (sort_slice lt xs)"
  by (simp_all add: sort_slice_def)

lemma mset_insert_by [simp]: "mset (insert_by lt x ys) = add_mset x (mset ys)"
  by (induction ys) auto

lemma mset_sort_slice [simp]: "mset (sort_slice lt xs) = mset xs"
  by (induction xs) auto

lemma set_sort_slice [simp]: "set (sort_slice lt xs) = set xs"
  by (metis mset_sort_slice set_mset_mset)

lemma length_sort_slice [simp]: "length (sort_slice lt xs) = length xs"
  by (metis mset_sort_slice size_mset)

lemma distinct_sort_slice [simp]: "distinct (sort_slice lt xs) = distinct xs"
  by (metis mset_sort_slice mset_eq_imp_distinct_iff)

lemma distinct_map_sort_slice [simp]:
  "distinct (map f (sort_slice lt xs)) = distinct (map f xs)"
  by (metis mset_map mset_sort_slice mset_eq_imp_distinct_iff)

locale slice_order =
  fixes lt :: "'a \<Rightarrow> 'a \<Rightarrow> bool"
  assumes lt_irrefl: "\<not> lt x x"
    and lt_trans: "lt x y \<Longrightarrow> lt y z \<Longrightarrow> lt x z"
    and lt_split: "lt x z \<Longrightarrow> lt x y \<or> lt y z"
begin

lemma lt_asym: "lt x y \<Longrightarrow> \<not> lt y x"
  using lt_irrefl lt_trans by blast

lemma not_lt_trans: "\<not> lt y x \<Longrightarrow> \<not> lt z y \<Longrightarrow> \<not> lt z x"
  using lt_split by blast

lemma sorted_insert_by:
  "sorted_wrt (\<lambda>a b. \<not> lt b a) ys \<Longrightarrow> sorted_wrt (\<lambda>a b. \<not> lt b a) (insert_by lt x ys)"
proof (induction ys)
  case (Cons y ys)
  have mem: "set (insert_by lt x ys) = insert x (set ys)"
    by (metis mset_insert_by set_mset_add_mset_insert set_mset_mset)
  from Cons show ?case
    using not_lt_trans [of y x] by (auto simp: mem dest: lt_asym)
qed simp

lemma sorted_sort_slice: "sorted_wrt (\<lambda>a b. \<not> lt b a) (sort_slice lt xs)"
  by (induction xs) (simp_all add: sorted_insert_by)

lemma sorted_unique:
  assumes "sorted_wrt (\<lambda>a b. \<not> lt b a) xs" and "sorted_wrt (\<lambda>a b. \<not> lt b a) ys"
    and "mset xs = mset ys"
    and "\<And>x y. x \<in> set xs \<Longrightarrow> y \<in> set xs \<Longrightarrow> \<not> lt x y \<Longrightarrow> \<not> lt y x \<Longrightarrow> x = y"
  shows "xs = ys"
  using assms
proof (induction xs arbitrary: ys)
  case (Cons x xs)
  then obtain y ys' where ys: "ys = y # ys'" by (cases ys) auto
  have sets: "insert x (set xs) = insert y (set ys')"
    using Cons.prems(3) ys by (metis list.set(2) set_mset_mset)
  have "y \<in> insert x (set xs)" and "x \<in> insert y (set ys')" using sets by auto
  then have "\<not> lt y x" and "\<not> lt x y" using Cons.prems(1,2) ys by (auto simp: lt_irrefl)
  then have "x = y" using Cons.prems(4) [of x y] sets by auto
  with Cons.prems ys show ?case by (auto intro!: Cons.IH)
qed simp

lemma sort_slice_unique:
  assumes "sorted_wrt (\<lambda>a b. \<not> lt b a) ys" and "mset ys = mset xs"
    and "\<And>x y. x \<in> set xs \<Longrightarrow> y \<in> set xs \<Longrightarrow> \<not> lt x y \<Longrightarrow> \<not> lt y x \<Longrightarrow> x = y"
  shows "ys = sort_slice lt xs"
proof -
  have "set ys = set xs" using assms(2) by (metis set_mset_mset)
  then show ?thesis
    using assms sorted_sort_slice by (intro sorted_unique) auto
qed

end

section \<open>Tables\<close>

text \<open>
  A Go map from strings whose values are slices, used as an adjacency table, and the update of the
  rows of a database table that satisfy a condition.
\<close>

definition append_at :: "'k \<Rightarrow> 'v \<Rightarrow> ('k \<rightharpoonup> 'v list) \<Rightarrow> ('k \<rightharpoonup> 'v list)" where
  "append_at k v m = m(k \<mapsto> (case m k of None \<Rightarrow> [] | Some vs \<Rightarrow> vs) @ [v])"

definition ensure_key :: "'k \<Rightarrow> ('k \<rightharpoonup> 'v list) \<Rightarrow> ('k \<rightharpoonup> 'v list)" where
  "ensure_key k m = (case m k of None \<Rightarrow> m(k \<mapsto> []) | Some _ \<Rightarrow> m)"

definition slice_at :: "('k \<rightharpoonup> 'v list) \<Rightarrow> 'k \<Rightarrow> 'v list" where
  "slice_at m k = (case m k of None \<Rightarrow> [] | Some vs \<Rightarrow> vs)"

lemma slice_at_append_at [simp]:
  "slice_at (append_at k v m) k' = (if k' = k then slice_at m k @ [v] else slice_at m k')"
  by (auto simp: slice_at_def append_at_def)

lemma slice_at_ensure_key [simp]: "slice_at (ensure_key k m) k' = slice_at m k'"
  by (auto simp: slice_at_def ensure_key_def split: option.splits)

lemma dom_append_at [simp]: "dom (append_at k v m) = insert k (dom m)"
  by (simp add: append_at_def)

lemma dom_ensure_key [simp]: "dom (ensure_key k m) = insert k (dom m)"
  by (auto simp: ensure_key_def split: option.splits)

definition update_where :: "('a \<Rightarrow> bool) \<Rightarrow> ('a \<Rightarrow> 'a) \<Rightarrow> 'a list \<Rightarrow> 'a list" where
  "update_where P f xs = map (\<lambda>x. if P x then f x else x) xs"

lemma length_update_where [simp]: "length (update_where P f xs) = length xs"
  by (simp add: update_where_def)

lemma map_update_where: "(\<And>x. P x \<Longrightarrow> g (f x) = g x) \<Longrightarrow> map g (update_where P f xs) = map g xs"
  by (simp add: update_where_def)

lemma set_update_where: "set (update_where P f xs) = f ` {x \<in> set xs. P x} \<union> {x \<in> set xs. \<not> P x}"
  by (auto simp: update_where_def)

lemma find_map_key:
  assumes "\<And>x. key (f x) = key x"
  shows "find (\<lambda>x. key x = k) (map f xs) = map_option f (find (\<lambda>x. key x = k) xs)"
  by (induction xs) (auto simp: assms)

lemma find_distinct_key:
  assumes "distinct (map key xs)" and "x \<in> set xs"
  shows "find (\<lambda>y. key y = key x) xs = Some x"
  using assms
proof (induction xs)
  case (Cons y ys)
  then show ?case by (cases "y = x") (auto simp: image_iff)
qed simp

lemma find_key_None: "find (\<lambda>y. key y = k) xs = None \<longleftrightarrow> k \<notin> key ` set xs"
  by (induction xs) auto

lemma find_key_SomeD: "find (\<lambda>y. key y = k) xs = Some x \<Longrightarrow> x \<in> set xs \<and> key x = k"
  by (induction xs) (auto split: if_splits)

lemma find_append:
  "find P (xs @ ys) = (case find P xs of None \<Rightarrow> find P ys | Some x \<Rightarrow> Some x)"
  by (induction xs) auto

section \<open>State machines\<close>

text \<open>
  A component with state: an initial state and steps that keep an invariant. Every component with a
  step relation interprets the locale, and its reachable states satisfy the invariant.
\<close>

locale machine =
  fixes init :: 's
    and step :: "'s \<Rightarrow> 's \<Rightarrow> bool"
    and inv :: "'s \<Rightarrow> bool"
  assumes inv_init: "inv init"
    and inv_step: "inv s \<Longrightarrow> step s s' \<Longrightarrow> inv s'"
begin

lemma inv_steps: "step\<^sup>*\<^sup>* s s' \<Longrightarrow> inv s \<Longrightarrow> inv s'"
  by (induction rule: rtranclp_induct) (auto intro: inv_step)

lemma inv_reachable: "step\<^sup>*\<^sup>* init s \<Longrightarrow> inv s"
  using inv_steps inv_init by blast

end

end
