(* ===== verification/Dep_Graph.thy ===== *)
theory Dep_Graph
  imports Chum_Prelude
begin

text \<open>
  The in-memory dependency graph of \<open>internal/graph\<close>: the task structure (\<open>task.go\<close>), the
  normalisation of statuses and types (\<open>dag.go\<close>), the graph built from a task list and the
  selection of unblocked tasks (\<open>graph.go\<close>).

  A \<open>*DepGraph\<close> is an option: \<open>None\<close> is the nil graph (a graph whose node map is nil behaves the
  same in every function). The copies that \<open>cloneTask\<close> and \<open>cloneStringSlice\<close> make only prevent
  aliasing, which a pure model does not have, so a clone is the value itself. A nil slice and an
  empty slice are both the empty list.
\<close>

section \<open>Tasks\<close>

record task =
  task_ID :: string
  task_Title :: string
  task_Description :: string
  task_Status :: string
  task_Priority :: int
  task_Type :: string
  task_Assignee :: string
  task_Labels :: "string list"
  task_EstimateMinutes :: int
  task_ParentID :: string
  task_Acceptance :: string
  task_Design :: string
  task_Notes :: string
  task_DependsOn :: "string list"
  task_Project :: string
  task_ErrorLog :: string
  task_Complexity :: int
  task_CreatedAt :: int
  task_UpdatedAt :: int

definition normalizeTaskStatus :: "string \<Rightarrow> string" where
  "normalizeTaskStatus status =
     (let s = trim_space (to_lower status) in if s = [] then ''open'' else s)"

definition normalizeTaskType :: "string \<Rightarrow> string" where
  "normalizeTaskType taskType =
     (let s = trim_space (to_lower taskType) in if s = [] then ''task'' else s)"

definition isClosedTask :: "string \<Rightarrow> bool" where
  "isClosedTask status =
     (let s = normalizeTaskStatus status
      in s = ''closed'' \<or> s = ''completed'' \<or> s = ''escalated'' \<or> s = ''plan_failed''
         \<or> s = ''canceled'' \<or> s = ''done'')"

definition isDispatchableTask :: "task \<Rightarrow> bool" where
  "isDispatchableTask t = (normalizeTaskStatus (task_Status t) = ''ready'')"

definition isContainerTask :: "task \<Rightarrow> bool" where
  "isContainerTask t =
     (let ty = to_lower (trim_space (task_Type t)) in ty = ''epic'' \<or> ty = ''whale'')"

definition hasStageLabel :: "task \<Rightarrow> bool" where
  "hasStageLabel t = list_ex (\<lambda>label. has_prefix label ''stage:'') (task_Labels t)"

section \<open>The graph\<close>

record depgraph =
  dg_nodes :: "string \<rightharpoonup> task"
  dg_forward :: "string \<rightharpoonup> string list"
  dg_reverse :: "string \<rightharpoonup> string list"

definition empty_depgraph :: depgraph where
  "empty_depgraph = \<lparr>dg_nodes = Map.empty, dg_forward = Map.empty, dg_reverse = Map.empty\<rparr>"

text \<open>The inner loop over the dependencies of one task, with the \<open>seen\<close> set as a list.\<close>

fun add_deps :: "string \<Rightarrow> string list \<Rightarrow> string list \<Rightarrow> depgraph \<Rightarrow> depgraph" where
  "add_deps tid seen [] g = g"
| "add_deps tid seen (d # ds) g =
     (let depID = trim_space d
      in if depID = [] then add_deps tid seen ds g
         else if depID \<in> set seen then add_deps tid seen ds g
         else add_deps tid (depID # seen) ds
                (g\<lparr>dg_forward := append_at tid depID (dg_forward g),
                   dg_reverse := append_at depID tid (dg_reverse g)\<rparr>))"

definition add_task_edges :: "task \<Rightarrow> depgraph \<Rightarrow> depgraph" where
  "add_task_edges t g =
     add_deps (task_ID t) [] (task_DependsOn t)
       (g\<lparr>dg_forward := ensure_key (task_ID t) (dg_forward g),
          dg_reverse := ensure_key (task_ID t) (dg_reverse g)\<rparr>)"

definition add_node :: "task \<Rightarrow> depgraph \<Rightarrow> depgraph" where
  "add_node t g = g\<lparr>dg_nodes := (dg_nodes g)(task_ID t \<mapsto> t)\<rparr>"

definition BuildDepGraph :: "task list \<Rightarrow> depgraph" where
  "BuildDepGraph tasks = fold add_task_edges tasks (fold add_node tasks empty_depgraph)"

definition DependsOnIDs :: "depgraph option \<Rightarrow> string \<Rightarrow> string list" where
  "DependsOnIDs g i = (case g of None \<Rightarrow> [] | Some g \<Rightarrow> slice_at (dg_forward g) i)"

definition BlocksIDs :: "depgraph option \<Rightarrow> string \<Rightarrow> string list" where
  "BlocksIDs g i = (case g of None \<Rightarrow> [] | Some g \<Rightarrow> slice_at (dg_reverse g) i)"

definition Nodes :: "depgraph option \<Rightarrow> (string \<rightharpoonup> task)" where
  "Nodes g = (case g of None \<Rightarrow> Map.empty | Some g \<Rightarrow> dg_nodes g)"

section \<open>Selecting unblocked tasks\<close>

definition allDepsClosed :: "task \<Rightarrow> depgraph option \<Rightarrow> bool" where
  "allDepsClosed t graph =
     (case graph of
        None \<Rightarrow> task_DependsOn t = []
      | Some g \<Rightarrow>
          (let depIDs = (if dg_nodes g (task_ID t) \<noteq> None then DependsOnIDs graph (task_ID t)
                         else task_DependsOn t)
           in list_all (\<lambda>depID. case dg_nodes g depID of
                          None \<Rightarrow> False | Some dep \<Rightarrow> isClosedTask (task_Status dep)) depIDs))"

definition task_less :: "task \<Rightarrow> task \<Rightarrow> bool" where
  "task_less a b =
     (if hasStageLabel a \<noteq> hasStageLabel b then hasStageLabel a
      else if task_Priority a \<noteq> task_Priority b then task_Priority a < task_Priority b
      else if task_EstimateMinutes a \<noteq> task_EstimateMinutes b
        then task_EstimateMinutes a < task_EstimateMinutes b
      else task_ID a < task_ID b)"

definition FilterUnblockedOpen :: "task list \<Rightarrow> depgraph option \<Rightarrow> task list" where
  "FilterUnblockedOpen tasks graph =
     sort_slice task_less
       (filter (\<lambda>t. \<not> (\<not> isDispatchableTask t \<or> isContainerTask t) \<and> allDepsClosed t graph) tasks)"

section \<open>Normalisation\<close>

lemma normalizeTaskStatus_consts [simp]:
  "normalizeTaskStatus ''open'' = ''open''" "normalizeTaskStatus ''ready'' = ''ready''"
  "normalizeTaskStatus ''closed'' = ''closed''" "normalizeTaskStatus ''completed'' = ''completed''"
  by code_simp+

lemma normalizeTaskStatus_idem [simp]:
  "normalizeTaskStatus (normalizeTaskStatus s) = normalizeTaskStatus s"
proof (cases "trim_space (to_lower s) = []")
  case True
  then have "normalizeTaskStatus s = ''open''" by (simp add: normalizeTaskStatus_def)
  then show ?thesis by simp
next
  case False
  then have n: "normalizeTaskStatus s = trim_space (to_lower s)"
    by (simp add: normalizeTaskStatus_def)
  have "to_lower (trim_space (to_lower s)) = trim_space (to_lower s)"
    by (simp flip: trim_space_lower)
  with False show ?thesis by (simp add: n normalizeTaskStatus_def)
qed

lemma normalizeTaskStatus_nonempty [simp]: "normalizeTaskStatus s \<noteq> []"
  by (simp add: normalizeTaskStatus_def Let_def)

lemma isClosedTask_normalize [simp]: "isClosedTask (normalizeTaskStatus s) = isClosedTask s"
  by (simp add: isClosedTask_def)

lemma closed_not_ready: "isClosedTask s \<Longrightarrow> normalizeTaskStatus s \<noteq> ''ready''"
  by (auto simp: isClosedTask_def)

lemma lower_trimmed: "trim_space (to_lower s) = s \<Longrightarrow> to_lower s = s \<and> trim_space s = s"
  by (metis to_lower_idem trim_space_idem trim_space_lower)

lemma normalizeTaskStatus_fixed:
  "normalizeTaskStatus s = s \<Longrightarrow> to_lower s = s \<and> trim_space s = s \<and> s \<noteq> []"
proof -
  assume n: "normalizeTaskStatus s = s"
  show ?thesis
  proof (cases "trim_space (to_lower s) = []")
    case True
    with n have s: "s = ''open''" by (simp add: normalizeTaskStatus_def)
    show ?thesis unfolding s by code_simp
  next
    case False
    with n have "trim_space (to_lower s) = s" by (simp add: normalizeTaskStatus_def)
    with False lower_trimmed [OF this] show ?thesis by auto
  qed
qed

section \<open>What the graph holds\<close>

text \<open>
  The reference definition of the edges of one task: the declared dependencies, trimmed, without
  blanks and without repetitions.
\<close>

fun norm_deps :: "string list \<Rightarrow> string list \<Rightarrow> string list" where
  "norm_deps seen [] = []"
| "norm_deps seen (d # ds) =
     (if trim_space d = [] \<or> trim_space d \<in> set seen then norm_deps seen ds
      else trim_space d # norm_deps (trim_space d # seen) ds)"

lemma set_norm_deps: "set (norm_deps seen ds) = {trim_space d | d. d \<in> set ds} - {[]} - set seen"
  by (induction seen ds rule: norm_deps.induct) auto

lemma distinct_norm_deps: "distinct (norm_deps seen ds)"
  by (induction seen ds rule: norm_deps.induct) (auto simp: set_norm_deps)

lemma add_deps_nodes [simp]: "dg_nodes (add_deps tid seen ds g) = dg_nodes g"
  by (induction tid seen ds g rule: add_deps.induct) (auto simp: Let_def)

lemma add_deps_forward:
  "slice_at (dg_forward (add_deps tid seen ds g)) k =
     slice_at (dg_forward g) k @ (if k = tid then norm_deps seen ds else [])"
  by (induction tid seen ds g rule: add_deps.induct) (auto simp: Let_def)

lemma add_deps_reverse:
  "slice_at (dg_reverse (add_deps tid seen ds g)) k =
     slice_at (dg_reverse g) k @ (if k \<in> set (norm_deps seen ds) then [tid] else [])"
  by (induction tid seen ds g rule: add_deps.induct) (auto simp: Let_def set_norm_deps)

lemma add_task_edges_simps [simp]:
  "dg_nodes (add_task_edges t g) = dg_nodes g"
  "slice_at (dg_forward (add_task_edges t g)) k =
     slice_at (dg_forward g) k @ (if k = task_ID t then norm_deps [] (task_DependsOn t) else [])"
  "slice_at (dg_reverse (add_task_edges t g)) k =
     slice_at (dg_reverse g) k @ (if k \<in> set (norm_deps [] (task_DependsOn t)) then [task_ID t] else [])"
  by (simp_all add: add_task_edges_def add_deps_forward add_deps_reverse)

lemma fold_add_node [simp]:
  "dg_forward (fold add_node ts g) = dg_forward g"
  "dg_reverse (fold add_node ts g) = dg_reverse g"
  by (induction ts arbitrary: g) (simp_all add: add_node_def)

lemma fold_add_node_nodes:
  "dg_nodes (fold add_node ts g) = dg_nodes g ++ map_of (rev (map (\<lambda>t. (task_ID t, t)) ts))"
  by (induction ts arbitrary: g) (auto simp: add_node_def map_add_def fun_eq_iff split: option.splits)

lemma fold_add_task_edges:
  "dg_nodes (fold add_task_edges ts g) = dg_nodes g"
  "slice_at (dg_forward (fold add_task_edges ts g)) k =
     slice_at (dg_forward g) k @ concat [norm_deps [] (task_DependsOn t). t \<leftarrow> ts, task_ID t = k]"
  "slice_at (dg_reverse (fold add_task_edges ts g)) k =
     slice_at (dg_reverse g) k @ [task_ID t. t \<leftarrow> ts, k \<in> set (norm_deps [] (task_DependsOn t))]"
  by (induction ts arbitrary: g) simp_all

lemma build_forward:
  "DependsOnIDs (Some (BuildDepGraph ts)) k =
     concat [norm_deps [] (task_DependsOn t). t \<leftarrow> ts, task_ID t = k]"
  by (simp add: DependsOnIDs_def BuildDepGraph_def fold_add_task_edges(2))
     (simp add: slice_at_def empty_depgraph_def)

lemma build_reverse:
  "BlocksIDs (Some (BuildDepGraph ts)) k =
     [task_ID t. t \<leftarrow> ts, k \<in> set (norm_deps [] (task_DependsOn t))]"
  by (simp add: BlocksIDs_def BuildDepGraph_def fold_add_task_edges(3))
     (simp add: slice_at_def empty_depgraph_def)

lemma build_nodes:
  "dg_nodes (BuildDepGraph ts) = map_of (rev (map (\<lambda>t. (task_ID t, t)) ts))"
  by (simp add: BuildDepGraph_def fold_add_task_edges fold_add_node_nodes empty_depgraph_def)

lemma build_nodes_distinct:
  assumes "distinct (map task_ID ts)"
  shows "dg_nodes (BuildDepGraph ts) i = Some t \<longleftrightarrow> t \<in> set ts \<and> task_ID t = i"
proof -
  have "distinct (map fst (rev (map (\<lambda>t. (task_ID t, t)) ts)))"
    using assms by (simp add: comp_def flip: rev_map)
  then have "dg_nodes (BuildDepGraph ts) i = Some t \<longleftrightarrow>
      (i, t) \<in> set (rev (map (\<lambda>t. (task_ID t, t)) ts))"
    unfolding build_nodes by (rule map_of_eq_Some_iff)
  then show ?thesis by auto
qed

lemma build_forward_distinct:
  assumes "distinct (map task_ID ts)" and "t \<in> set ts"
  shows "DependsOnIDs (Some (BuildDepGraph ts)) (task_ID t) = norm_deps [] (task_DependsOn t)"
proof -
  have "filter (\<lambda>u. task_ID u = task_ID t) ts = [t]"
    using assms
    by (induction ts) (auto simp: filter_empty_conv image_iff)
  moreover have "concat [norm_deps [] (task_DependsOn u). u \<leftarrow> ts, task_ID u = task_ID t] =
      concat (map (\<lambda>u. norm_deps [] (task_DependsOn u)) (filter (\<lambda>u. task_ID u = task_ID t) ts))"
    by (induction ts) auto
  ultimately show ?thesis by (simp add: build_forward)
qed

section \<open>The selection contract\<close>

interpretation task_order: slice_order task_less
  by unfold_locales (auto simp: task_less_def split: if_splits)

lemma task_less_total:
  "\<not> task_less a b \<Longrightarrow> \<not> task_less b a \<Longrightarrow> task_ID a = task_ID b"
  by (auto simp: task_less_def split: if_splits)

text \<open>
  What a caller may rely on of a function that selects the tasks to dispatch, whatever decides
  that the dependencies of a task are resolved.
\<close>

locale task_selection =
  fixes deps_ok :: "task \<Rightarrow> bool"
    and select :: "task list \<Rightarrow> task list"
  assumes select_mset:
      "mset (select ts) = mset (filter (\<lambda>t. isDispatchableTask t \<and> \<not> isContainerTask t \<and> deps_ok t) ts)"
    and select_sorted: "sorted_wrt (\<lambda>a b. \<not> task_less b a) (select ts)"
begin

lemma select_iff:
  "t \<in> set (select ts) \<longleftrightarrow> t \<in> set ts \<and> isDispatchableTask t \<and> \<not> isContainerTask t \<and> deps_ok t"
proof -
  have "set (select ts) = set (filter (\<lambda>t. isDispatchableTask t \<and> \<not> isContainerTask t \<and> deps_ok t) ts)"
    using select_mset by (metis set_mset_mset)
  then show ?thesis by auto
qed

lemma select_length: "length (select ts) \<le> length ts"
  by (metis length_filter_le select_mset size_mset)

lemma select_distinct: "distinct (map task_ID ts) \<Longrightarrow> distinct (map task_ID (select ts))"
proof -
  assume "distinct (map task_ID ts)"
  then have "distinct (map task_ID (filter (\<lambda>t. isDispatchableTask t \<and> \<not> isContainerTask t \<and> deps_ok t) ts))"
    by (rule distinct_map_filter)
  then show ?thesis by (metis mset_eq_imp_distinct_iff mset_map select_mset)
qed

lemma select_first:
  "select ts = t # rest \<Longrightarrow> u \<in> set ts \<Longrightarrow> isDispatchableTask u \<Longrightarrow> \<not> isContainerTask u \<Longrightarrow> deps_ok u
    \<Longrightarrow> \<not> task_less u t"
  using select_sorted [of ts] select_iff [of u ts] task_order.lt_irrefl by fastforce

text \<open>With unique identifiers the laws determine the selected list, whatever the sort does.\<close>

lemma select_unique:
  assumes "distinct (map task_ID ts)"
    and "mset ys = mset (filter (\<lambda>t. isDispatchableTask t \<and> \<not> isContainerTask t \<and> deps_ok t) ts)"
    and "sorted_wrt (\<lambda>a b. \<not> task_less b a) ys"
  shows "ys = select ts"
proof (rule task_order.sorted_unique [OF assms(3) select_sorted])
  show "mset ys = mset (select ts)" using assms(2) select_mset by simp
  have sub: "set ys \<subseteq> set ts" using assms(2) by (metis filter_is_subset set_mset_mset)
  fix x y assume "x \<in> set ys" and "y \<in> set ys" and "\<not> task_less x y" and "\<not> task_less y x"
  then show "x = y"
    using sub assms(1) task_less_total [of x y] by (auto simp: distinct_map inj_on_def)
qed

end

lemma FilterUnblockedOpen_mset:
  "mset (FilterUnblockedOpen ts g) =
     mset (filter (\<lambda>t. isDispatchableTask t \<and> \<not> isContainerTask t \<and> allDepsClosed t g) ts)"
  by (simp add: FilterUnblockedOpen_def)

interpretation unblocked: task_selection "\<lambda>t. allDepsClosed t g" "\<lambda>ts. FilterUnblockedOpen ts g" for g
  by (unfold_locales, rule FilterUnblockedOpen_mset, unfold FilterUnblockedOpen_def,
      rule task_order.sorted_sort_slice)

lemma allDepsClosed_build:
  assumes "distinct (map task_ID ts)" and "t \<in> set ts"
  shows "allDepsClosed t (Some (BuildDepGraph ts)) \<longleftrightarrow>
    (\<forall>d \<in> set (task_DependsOn t). trim_space d = [] \<or>
       (\<exists>u \<in> set ts. task_ID u = trim_space d \<and> isClosedTask (task_Status u)))"
proof -
  let ?g = "BuildDepGraph ts"
  have "dg_nodes ?g (task_ID t) = Some t" using assms by (simp add: build_nodes_distinct)
  moreover have "(case dg_nodes ?g i of None \<Rightarrow> False | Some dep \<Rightarrow> isClosedTask (task_Status dep))
      \<longleftrightarrow> (\<exists>u \<in> set ts. task_ID u = i \<and> isClosedTask (task_Status u))" for i
    using build_nodes_distinct [OF assms(1), of i] by (cases "dg_nodes ?g i") (auto, metis)
  ultimately show ?thesis
    using assms
    by (auto simp: allDepsClosed_def build_forward_distinct list_all_iff set_norm_deps)
qed

section \<open>Properties\<close>

text \<open>
  The two adjacency tables of the graph are transposes of each other for every task list, also
  one with repeated identifiers: a task is listed as depending on another exactly when it is
  listed among the tasks that the other one blocks.
\<close>

theorem depgraph_transpose:
  "d \<in> set (DependsOnIDs (Some (BuildDepGraph ts)) i) \<longleftrightarrow>
     i \<in> set (BlocksIDs (Some (BuildDepGraph ts)) d)"
  by (auto simp: build_forward build_reverse)

text \<open>
  C8. On a task list with unique identifiers, \<open>FilterUnblockedOpen\<close> over the graph of that same list
  returns a task exactly when it is ready, is not an epic or a whale, and every dependency it
  declares (after trimming, blanks ignored) names a task of the list with a terminal status.
\<close>

theorem filter_unblocked_correct:
  assumes "distinct (map task_ID ts)"
  shows "t \<in> set (FilterUnblockedOpen ts (Some (BuildDepGraph ts))) \<longleftrightarrow>
    t \<in> set ts \<and> isDispatchableTask t \<and> \<not> isContainerTask t \<and>
    (\<forall>d \<in> set (task_DependsOn t). trim_space d = [] \<or>
       (\<exists>u \<in> set ts. task_ID u = trim_space d \<and> isClosedTask (task_Status u)))"
  using allDepsClosed_build [OF assms, of t] by (auto simp: unblocked.select_iff)

definition sample_task :: "string \<Rightarrow> string \<Rightarrow> int \<Rightarrow> string list \<Rightarrow> task" where
  "sample_task i st prio deps =
     \<lparr>task_ID = i, task_Title = i, task_Description = [], task_Status = st, task_Priority = prio,
      task_Type = ''task'', task_Assignee = [], task_Labels = [], task_EstimateMinutes = 30,
      task_ParentID = [], task_Acceptance = [], task_Design = [], task_Notes = [],
      task_DependsOn = deps, task_Project = ''p'', task_ErrorLog = [], task_Complexity = 0,
      task_CreatedAt = 0, task_UpdatedAt = 0\<rparr>"

definition sample_tasks :: "task list" where
  "sample_tasks = [sample_task ''b'' ''ready'' 1 ['' a '', []], sample_task ''c'' ''Ready'' 0 [''b''],
                   sample_task ''a'' '' Done '' 2 [], sample_task ''d'' ''ready'' 0 []]"

lemma sample_tasks_distinct: "distinct (map task_ID sample_tasks)"
  by (simp add: sample_tasks_def sample_task_def)

theorem filter_unblocked_correct_witness:
  "distinct (map task_ID sample_tasks) \<and>
   sample_task ''b'' ''ready'' 1 ['' a '', []]
     \<in> set (FilterUnblockedOpen sample_tasks (Some (BuildDepGraph sample_tasks)))"
proof -
  have s: "trim_space '' a '' = ''a''" "isClosedTask '' Done ''" "to_lower (trim_space ''task'') = ''task''"
    by code_simp+
  have "sample_task ''b'' ''ready'' 1 ['' a '', []]
     \<in> set (FilterUnblockedOpen sample_tasks (Some (BuildDepGraph sample_tasks)))"
    unfolding filter_unblocked_correct [OF sample_tasks_distinct]
    by (simp add: sample_tasks_def sample_task_def isDispatchableTask_def isContainerTask_def s)
  then show ?thesis using sample_tasks_distinct by simp
qed

text \<open>
  The order of the selected tasks is deterministic although \<open>sort.Slice\<close> is not stable: with
  unique identifiers, every arrangement of the unblocked tasks in which no task precedes one that
  \<open>less\<close> puts before it is the returned list.
\<close>

theorem filter_unblocked_deterministic:
  assumes "distinct (map task_ID ts)"
    and "mset ys = mset (FilterUnblockedOpen ts g)"
    and "sorted_wrt (\<lambda>a b. \<not> task_less b a) ys"
  shows "ys = FilterUnblockedOpen ts g"
  using assms unblocked.select_mset by (intro unblocked.select_unique) simp_all

theorem filter_unblocked_deterministic_witness:
  "[sample_task ''d'' ''ready'' 0 [], sample_task ''b'' ''ready'' 1 []] =
     FilterUnblockedOpen [sample_task ''b'' ''ready'' 1 [], sample_task ''d'' ''ready'' 0 []] None"
proof (rule filter_unblocked_deterministic)
  have c: "to_lower (trim_space ''task'') = ''task''" by code_simp
  show "distinct (map task_ID [sample_task ''b'' ''ready'' 1 [], sample_task ''d'' ''ready'' 0 []])"
    by (simp add: sample_task_def)
  show "mset [sample_task ''d'' ''ready'' 0 [], sample_task ''b'' ''ready'' 1 []] =
      mset (FilterUnblockedOpen [sample_task ''b'' ''ready'' 1 [], sample_task ''d'' ''ready'' 0 []] None)"
    by (simp add: FilterUnblockedOpen_mset isDispatchableTask_def isContainerTask_def allDepsClosed_def
        sample_task_def c)
  show "sorted_wrt (\<lambda>a b. \<not> task_less b a) [sample_task ''d'' ''ready'' 0 [], sample_task ''b'' ''ready'' 1 []]"
    by (simp add: task_less_def hasStageLabel_def sample_task_def)
qed

end
