(* ===== verification/Task_Dag.thy ===== *)
theory Task_Dag
  imports Complex_Main "HOL-Library.Word" Dep_Graph
begin

text \<open>
  The persistent task graph of \<open>internal/graph/dag.go\<close>: two SQLite tables, \<open>tasks\<close> and
  \<open>task_edges\<close>, and the operations of the type \<open>DAG\<close> on them.

  \<^item> The database is a record of two row lists in insertion order. A row of \<open>tasks\<close> is a \<open>task\<close>
    whose \<open>DependsOn\<close> (derived from \<open>task_edges\<close>) is empty and whose \<open>Complexity\<close> (not a column)
    is 0. The labels column holds the label list itself: the JSON text it is stored as is the
    business of \<open>encoding/json\<close>, and only the decoding of a caller-supplied JSON text is visible,
    as the parameter \<open>json\<close> of \<open>UpdateTask\<close>.
  \<^item> A \<open>*DAG\<close> is an option: \<open>None\<close> is a nil DAG or one without a database.
  \<^item> SQL statements succeed unless a constraint of the schema refuses them: disk failures and
    cancelled contexts are not modelled. Where SQL leaves the order of rows open, the model returns
    them in table order; no property depends on it.
  \<^item> The clock and the random draws are arguments. The \<open>fields\<close> map of \<open>UpdateTask\<close> is a list in the
    order in which the map iteration meets the entries; the properties hold for every order.
  \<^item> The recursive query of the cycle check is a \<^theory_text>\<open>partial_function\<close>: \<open>UNION ALL\<close> does not
    end on cyclic data, and \<open>None\<close> is a query that does not return.
\<close>

section \<open>The database\<close>

record dag_db =
  db_tasks :: "task list"
  db_edges :: "(string \<times> string) list"

definition empty_dag :: dag_db where
  "empty_dag = \<lparr>db_tasks = [], db_edges = []\<rparr>"

datatype dag_error =
    DagNotInitialized
  | ProjectRequired
  | IDRequired
  | TaskIDRequired
  | FromRequired
  | ToRequired
  | SelfLoop
  | CrossProjectEdge
  | WouldCreateCycle
  | TaskNotFound string
  | NoRecognizedFields
  | FieldNotUpdatable string
  | NotAnInteger
  | LabelNotString nat
  | LabelsNotJSON
  | LabelsWrongType
  | ReadyBlocked string string string
  | RandomFailed
  | IDAttemptsExceeded

type_synonym 'a dag_result = "(dag_error, 'a) result"

definition row_ids :: "dag_db \<Rightarrow> string set" where
  "row_ids db = task_ID ` set (db_tasks db)"

definition lookup_row :: "dag_db \<Rightarrow> string \<Rightarrow> task option" where
  "lookup_row db i = find (\<lambda>t. task_ID t = i) (db_tasks db)"

section \<open>Values of an update\<close>

text \<open>
  A value of type \<open>any\<close>. \<open>VInt\<close> stands for the signed integer types (sign-extended to 64 bits),
  \<open>VUint\<close> for the unsigned ones (zero-extended), \<open>VFloat\<close> for a finite float with its exact value
  and the text that the verb \<open>%v\<close> prints for it.
\<close>

datatype go_value =
    VNil
  | VBool bool
  | VInt "64 word"
  | VUint "64 word"
  | VFloat rat string
  | VString string
  | VStrings "string list"
  | VAnys "go_value list"

fun coerceString :: "go_value \<Rightarrow> string" where
  "coerceString VNil = ''<nil>''"
| "coerceString (VBool b) = (if b then ''true'' else ''false'')"
| "coerceString (VInt w) = show_int (sint w)"
| "coerceString (VUint w) = show_nat (unat w)"
| "coerceString (VFloat q txt) = txt"
| "coerceString (VString s) = s"
| "coerceString (VStrings ss) = ''['' @ join_with '' '' ss @ '']''"
| "coerceString (VAnys vs) = ''['' @ join_with '' '' (map coerceString vs) @ '']''"

fun coerceInt :: "go_value \<Rightarrow> int dag_result" where
  "coerceInt (VInt w) = Inr (sint w)"
| "coerceInt (VUint w) = Inr (sint w)"
| "coerceInt (VFloat q txt) = Inr (if 0 \<le> q then \<lfloor>q\<rfloor> else \<lceil>q\<rceil>)"
| "coerceInt v = Inl NotAnInteger"

fun string_labels :: "nat \<Rightarrow> go_value list \<Rightarrow> string list dag_result" where
  "string_labels i [] = Inr []"
| "string_labels i (VString s # vs) =
     (case string_labels (Suc i) vs of Inl e \<Rightarrow> Inl e | Inr ls \<Rightarrow> Inr (s # ls))"
| "string_labels i (v # vs) = Inl (LabelNotString i)"

fun marshalLabelsValue :: "(string \<Rightarrow> string list option) \<Rightarrow> go_value \<Rightarrow> string list dag_result" where
  "marshalLabelsValue json VNil = Inr []"
| "marshalLabelsValue json (VStrings ls) = Inr ls"
| "marshalLabelsValue json (VAnys vs) = string_labels 0 vs"
| "marshalLabelsValue json (VString s) =
     (case json s of None \<Rightarrow> Inl LabelsNotJSON | Some ls \<Rightarrow> Inr ls)"
| "marshalLabelsValue json v = Inl LabelsWrongType"

section \<open>Creating and reading tasks\<close>

definition hex_digit :: "nat \<Rightarrow> char" where
  "hex_digit n = (if n < 10 then char_of (48 + n) else char_of (87 + n))"

definition hex6 :: "nat \<Rightarrow> string" where
  "hex6 n = map (\<lambda>k. hex_digit (n div 16 ^ k mod 16)) [5, 4, 3, 2, 1, 0]"

text \<open>\<open>draw\<close> is what the random reader yields, \<open>None\<close> when it fails.\<close>

definition generateTaskID :: "string \<Rightarrow> nat option \<Rightarrow> string dag_result" where
  "generateTaskID project draw =
     (let p = trim_space project
      in if p = [] then Inl ProjectRequired
         else case draw of
                None \<Rightarrow> Inl RandomFailed
              | Some n \<Rightarrow> Inr (p @ ''-'' @ hex6 (n mod 0x1000000)))"

definition maxTaskIDAttempts :: nat where
  "maxTaskIDAttempts = 10"

text \<open>The attempts of \<open>CreateTask\<close>: only a clash of the primary key starts another one.\<close>

fun create_attempts ::
  "nat \<Rightarrow> nat \<Rightarrow> (nat \<Rightarrow> nat option) \<Rightarrow> string \<Rightarrow> task \<Rightarrow> dag_db \<Rightarrow> (string \<times> dag_db) dag_result" where
  "create_attempts 0 attempt draws project row db = Inl IDAttemptsExceeded"
| "create_attempts (Suc left) attempt draws project row db =
     (case generateTaskID project (draws attempt) of
        Inl e \<Rightarrow> Inl e
      | Inr i \<Rightarrow>
          if lookup_row db i = None
          then Inr (i, db\<lparr>db_tasks := db_tasks db @ [row\<lparr>task_ID := i\<rparr>]\<rparr>)
          else create_attempts left (Suc attempt) draws project row db)"

definition CreateTask ::
  "dag_db option \<Rightarrow> task \<Rightarrow> int \<Rightarrow> (nat \<Rightarrow> nat option) \<Rightarrow> (string \<times> dag_db) dag_result" where
  "CreateTask d t now draws =
     (case d of None \<Rightarrow> Inl DagNotInitialized
      | Some db \<Rightarrow>
          (let project = trim_space (task_Project t)
           in if project = [] then Inl ProjectRequired
              else create_attempts maxTaskIDAttempts 0 draws project
                     (t\<lparr>task_Status := normalizeTaskStatus (task_Status t),
                        task_Type := normalizeTaskType (task_Type t),
                        task_Project := project, task_DependsOn := [], task_Complexity := 0,
                        task_CreatedAt := now, task_UpdatedAt := now\<rparr>) db))"

definition taskDependencies :: "dag_db \<Rightarrow> string list \<Rightarrow> string \<Rightarrow> string list" where
  "taskDependencies db ids i =
     map snd (filter (\<lambda>e. fst e = i \<and> fst e \<in> set ids) (db_edges db))"

definition GetTask :: "dag_db option \<Rightarrow> string \<Rightarrow> task dag_result" where
  "GetTask d rawid =
     (case d of None \<Rightarrow> Inl DagNotInitialized
      | Some db \<Rightarrow>
          (let i = trim_space rawid
           in if i = [] then Inl IDRequired
              else case lookup_row db i of
                     None \<Rightarrow> Inl (TaskNotFound i)
                   | Some t \<Rightarrow> Inr (t\<lparr>task_DependsOn := taskDependencies db [task_ID t] (task_ID t)\<rparr>)))"

definition normalizeStatusFilters :: "string list \<Rightarrow> string list" where
  "normalizeStatusFilters raw = sort (remdups (map normalizeTaskStatus raw))"

definition attach_deps :: "dag_db \<Rightarrow> task list \<Rightarrow> task list" where
  "attach_deps db rows =
     map (\<lambda>t. t\<lparr>task_DependsOn := taskDependencies db (map task_ID rows) (task_ID t)\<rparr>) rows"

definition ListTasks :: "dag_db option \<Rightarrow> string \<Rightarrow> string list \<Rightarrow> task list dag_result" where
  "ListTasks d rawproject statuses =
     (case d of None \<Rightarrow> Inl DagNotInitialized
      | Some db \<Rightarrow>
          (let project = trim_space rawproject; filters = normalizeStatusFilters statuses
           in if project = [] then Inl ProjectRequired
              else Inr (attach_deps db
                     (filter (\<lambda>t. task_Project t = project \<and>
                                  (filters = [] \<or> to_lower (task_Status t) \<in> set filters))
                        (db_tasks db)))))"

section \<open>Updating a task\<close>

datatype col_value = CString string | CInteger int | CLabels "string list"

definition text_columns :: "string list" where
  "text_columns = [''title'', ''description'', ''assignee'', ''parent_id'', ''acceptance'', ''design'',
                   ''notes'', ''project'', ''error_log'']"

definition type_column :: string where
  "type_column = [CHR 0x22] @ ''type'' @ [CHR 0x22]"

definition updatableColumns :: "string list" where
  "updatableColumns = text_columns @ [''status'', ''priority'', ''type'', ''labels'', ''estimate_minutes'']"

definition field_assignment ::
  "(string \<Rightarrow> string list option) \<Rightarrow> string \<Rightarrow> go_value \<Rightarrow> (string \<times> col_value) dag_result" where
  "field_assignment json key v =
     (if key = ''status'' then Inr (''status'', CString (normalizeTaskStatus (coerceString v)))
      else if key = ''type'' then Inr (type_column, CString (normalizeTaskType (coerceString v)))
      else if key = ''priority'' \<or> key = ''estimate_minutes''
        then (case coerceInt v of Inl e \<Rightarrow> Inl e | Inr n \<Rightarrow> Inr (key, CInteger n))
      else if key = ''labels''
        then (case marshalLabelsValue json v of Inl e \<Rightarrow> Inl e | Inr ls \<Rightarrow> Inr (key, CLabels ls))
      else Inr (key, CString (coerceString v)))"

text \<open>The loop over the field map: the assignments and the unrecognised keys, in iteration order.\<close>

fun collect_fields ::
  "(string \<Rightarrow> string list option) \<Rightarrow> (string \<times> go_value) list \<Rightarrow>
     ((string \<times> col_value) list \<times> string list) dag_result" where
  "collect_fields json [] = Inr ([], [])"
| "collect_fields json ((rawKey, v) # rest) =
     (let key = trim_space (to_lower rawKey)
      in if key \<notin> set updatableColumns
         then (case collect_fields json rest of
                 Inl e \<Rightarrow> Inl e | Inr (as, us) \<Rightarrow> Inr (as, rawKey # us))
         else (case field_assignment json key v of
                 Inl e \<Rightarrow> Inl e
               | Inr a \<Rightarrow> (case collect_fields json rest of
                             Inl e \<Rightarrow> Inl e | Inr (as, us) \<Rightarrow> Inr (a # as, us))))"

definition assignment_less :: "string \<times> col_value \<Rightarrow> string \<times> col_value \<Rightarrow> bool" where
  "assignment_less a b = (fst a < fst b)"

fun transitioningToReady :: "(string \<times> col_value) list \<Rightarrow> bool" where
  "transitioningToReady [] = False"
| "transitioningToReady ((col, v) # rest) =
     (if col \<noteq> ''status'' then transitioningToReady rest
      else (case v of CString s \<Rightarrow> normalizeTaskStatus s = ''ready'' | _ \<Rightarrow> False))"

text \<open>The terminal statuses as the SQL statements list them.\<close>

definition terminal_sql :: "string list" where
  "terminal_sql = [''closed'', ''completed'', ''escalated'', ''plan_failed'', ''canceled'', ''done'']"

text \<open>
  The blocking rows of \<open>readyTransitionCheckSQL\<close>: the target of each edge that leaves the task, with
  the lower-case status of the joined row (empty when there is none).
\<close>

definition blocking_deps :: "dag_db \<Rightarrow> string \<Rightarrow> (string \<times> string) list" where
  "blocking_deps db i =
     concat (map (\<lambda>dep. case lookup_row db dep of
                          None \<Rightarrow> [(dep, [])]
                        | Some t \<Rightarrow> if to_lower (task_Status t) \<in> set terminal_sql then []
                                    else [(dep, to_lower (task_Status t))])
              (map snd (filter (\<lambda>e. fst e = i) (db_edges db))))"

definition ensureReadyTransitionUnblocked :: "dag_db \<Rightarrow> string \<Rightarrow> unit dag_result" where
  "ensureReadyTransitionUnblocked db i =
     (case sort_slice (\<lambda>a b. fst a < fst b) (blocking_deps db i) of
        [] \<Rightarrow> Inr ()
      | (dep, st) # _ \<Rightarrow> Inl (ReadyBlocked i dep (if st = [] then ''missing'' else st)))"

fun apply_assignment :: "string \<times> col_value \<Rightarrow> task \<Rightarrow> task" where
  "apply_assignment (col, CInteger n) t =
     (if col = ''priority'' then t\<lparr>task_Priority := n\<rparr>
      else if col = ''estimate_minutes'' then t\<lparr>task_EstimateMinutes := n\<rparr> else t)"
| "apply_assignment (col, CLabels ls) t = (if col = ''labels'' then t\<lparr>task_Labels := ls\<rparr> else t)"
| "apply_assignment (col, CString s) t =
     (if col = ''title'' then t\<lparr>task_Title := s\<rparr>
      else if col = ''description'' then t\<lparr>task_Description := s\<rparr>
      else if col = ''status'' then t\<lparr>task_Status := s\<rparr>
      else if col = type_column then t\<lparr>task_Type := s\<rparr>
      else if col = ''assignee'' then t\<lparr>task_Assignee := s\<rparr>
      else if col = ''parent_id'' then t\<lparr>task_ParentID := s\<rparr>
      else if col = ''acceptance'' then t\<lparr>task_Acceptance := s\<rparr>
      else if col = ''design'' then t\<lparr>task_Design := s\<rparr>
      else if col = ''notes'' then t\<lparr>task_Notes := s\<rparr>
      else if col = ''project'' then t\<lparr>task_Project := s\<rparr>
      else if col = ''error_log'' then t\<lparr>task_ErrorLog := s\<rparr> else t)"

definition update_row :: "dag_db \<Rightarrow> string \<Rightarrow> (task \<Rightarrow> task) \<Rightarrow> dag_db dag_result" where
  "update_row db i f =
     (if lookup_row db i = None then Inl (TaskNotFound i)
      else Inr (db\<lparr>db_tasks := update_where (\<lambda>t. task_ID t = i) f (db_tasks db)\<rparr>))"

definition UpdateTask ::
  "(string \<Rightarrow> string list option) \<Rightarrow> dag_db option \<Rightarrow> string \<Rightarrow> (string \<times> go_value) list \<Rightarrow> int
     \<Rightarrow> dag_db dag_result" where
  "UpdateTask json d rawid flds now =
     (case d of None \<Rightarrow> Inl DagNotInitialized
      | Some db \<Rightarrow>
          (let i = trim_space rawid
           in if i = [] then Inl IDRequired
              else if flds = [] then Inr db
              else case collect_fields json flds of
                Inl e \<Rightarrow> Inl e
              | Inr (as, us) \<Rightarrow>
                  if as = [] then (case GetTask d i of Inl e \<Rightarrow> Inl e | Inr _ \<Rightarrow> Inl NoRecognizedFields)
                  else if us \<noteq> [] then Inl (FieldNotUpdatable (hd us))
                  else (let as' = sort_slice assignment_less as
                        in case (if transitioningToReady as' then ensureReadyTransitionUnblocked db i
                                 else Inr ()) of
                             Inl e \<Rightarrow> Inl e
                           | Inr _ \<Rightarrow> update_row db i (\<lambda>t. (fold apply_assignment as' t)\<lparr>task_UpdatedAt := now\<rparr>))))"

definition set_status ::
  "(string \<Rightarrow> string list option) \<Rightarrow> dag_db option \<Rightarrow> string \<Rightarrow> string \<Rightarrow> int \<Rightarrow> dag_db dag_result" where
  "set_status json d i st now = UpdateTask json d i [(''status'', VString st)] now"

definition CloseTask ::
  "(string \<Rightarrow> string list option) \<Rightarrow> dag_db option \<Rightarrow> string \<Rightarrow> int \<Rightarrow> dag_db dag_result" where
  "CloseTask json d i now = set_status json d i ''closed'' now"

section \<open>Edges\<close>

definition succs :: "(string \<times> string) list \<Rightarrow> string \<Rightarrow> string list" where
  "succs E x = map snd (filter (\<lambda>e. fst e = x) E)"

text \<open>
  The evaluation of the recursive query: a queue of rows, each of which is compared with the
  wanted task (\<open>LIMIT 1\<close> stops at the first hit) and extended by the targets of its edges.
\<close>

partial_function (option) cycle_cte ::
  "(string \<times> string) list \<Rightarrow> string \<Rightarrow> string list \<Rightarrow> bool option" where
  "cycle_cte E wanted queue =
     (case queue of
        [] \<Rightarrow> Some False
      | x # rest \<Rightarrow> if x = wanted then Some True else cycle_cte E wanted (rest @ succs E x))"

definition ensureNoCycle :: "dag_db \<Rightarrow> string \<Rightarrow> string \<Rightarrow> unit dag_result option" where
  "ensureNoCycle db from to =
     map_option (\<lambda>found. if found then Inl WouldCreateCycle else Inr ())
       (cycle_cte (db_edges db) from (succs (db_edges db) to))"

definition taskProject :: "dag_db \<Rightarrow> string \<Rightarrow> string dag_result" where
  "taskProject db i = (case lookup_row db i of None \<Rightarrow> Inl (TaskNotFound i) | Some t \<Rightarrow> Inr (task_Project t))"

definition insert_edge :: "string \<Rightarrow> string \<Rightarrow> dag_db \<Rightarrow> dag_db" where
  "insert_edge from to db =
     (if (from, to) \<in> set (db_edges db) then db else db\<lparr>db_edges := db_edges db @ [(from, to)]\<rparr>)"

definition AddEdge :: "dag_db option \<Rightarrow> string \<Rightarrow> string \<Rightarrow> dag_db dag_result option" where
  "AddEdge d rawfrom rawto =
     (case d of None \<Rightarrow> Some (Inl DagNotInitialized)
      | Some db \<Rightarrow>
          (let from = trim_space rawfrom; to = trim_space rawto
           in if from = [] then Some (Inl FromRequired)
              else if to = [] then Some (Inl ToRequired)
              else if from = to then Some (Inl SelfLoop)
              else case taskProject db from of
                Inl e \<Rightarrow> Some (Inl e)
              | Inr fromProject \<Rightarrow>
                  (case taskProject db to of
                     Inl e \<Rightarrow> Some (Inl e)
                   | Inr toProject \<Rightarrow>
                       if fromProject \<noteq> toProject then Some (Inl CrossProjectEdge)
                       else case ensureNoCycle db from to of
                              None \<Rightarrow> None
                            | Some (Inl e) \<Rightarrow> Some (Inl e)
                            | Some (Inr _) \<Rightarrow> Some (Inr (insert_edge from to db)))))"

definition RemoveEdge :: "dag_db option \<Rightarrow> string \<Rightarrow> string \<Rightarrow> dag_db dag_result" where
  "RemoveEdge d rawfrom rawto =
     (case d of None \<Rightarrow> Inl DagNotInitialized
      | Some db \<Rightarrow>
          (let from = trim_space rawfrom; to = trim_space rawto
           in if from = [] then Inl FromRequired
              else if to = [] then Inl ToRequired
              else Inr (db\<lparr>db_edges := filter (\<lambda>e. e \<noteq> (from, to)) (db_edges db)\<rparr>)))"

section \<open>Readiness\<close>

definition sql_ready_less :: "task \<Rightarrow> task \<Rightarrow> bool" where
  "sql_ready_less a b =
     (if task_Priority a \<noteq> task_Priority b then task_Priority a < task_Priority b
      else task_EstimateMinutes a < task_EstimateMinutes b)"

definition GetReadyNodes :: "dag_db option \<Rightarrow> string \<Rightarrow> task list dag_result" where
  "GetReadyNodes d rawproject =
     (case d of None \<Rightarrow> Inl DagNotInitialized
      | Some db \<Rightarrow>
          (let project = trim_space rawproject
           in if project = [] then Inl ProjectRequired
              else Inr (attach_deps db
                     (sort_slice sql_ready_less
                       (filter (\<lambda>t. task_Project t = project \<and> to_lower (task_Status t) = ''ready''
                                    \<and> to_lower (task_Type t) \<notin> {''epic'', ''whale''}
                                    \<and> \<not> (\<exists>e \<in> set (db_edges db). fst e = task_ID t \<and>
                                          (\<exists>dep \<in> set (db_tasks db). task_ID dep = snd e \<and>
                                             to_lower (task_Status dep) \<notin> set terminal_sql)))
                          (db_tasks db))))))"

definition isTerminalStatus :: "string \<Rightarrow> bool" where
  "isTerminalStatus status = (normalizeTaskStatus status \<in> set terminal_sql)"

definition GetDependents :: "dag_db option \<Rightarrow> string \<Rightarrow> string list dag_result" where
  "GetDependents d rawid =
     (case d of None \<Rightarrow> Inl DagNotInitialized
      | Some db \<Rightarrow>
          (let i = trim_space rawid
           in if i = [] then Inl TaskIDRequired
              else Inr (sort (map fst (filter (\<lambda>e. snd e = i) (db_edges db))))))"

text \<open>One round of the loop of \<open>AutoUnblockDependents\<close>; every failure skips the dependent.\<close>

definition deps_terminal :: "dag_db \<Rightarrow> task \<Rightarrow> bool" where
  "deps_terminal db t =
     list_all (\<lambda>req. case GetTask (Some db) req of
                       Inl _ \<Rightarrow> False | Inr r \<Rightarrow> isTerminalStatus (task_Status r)) (task_DependsOn t)"

definition unblock_one ::
  "(string \<Rightarrow> string list option) \<Rightarrow> int \<Rightarrow> string \<Rightarrow> string list \<times> dag_db \<Rightarrow> string list \<times> dag_db" where
  "unblock_one json now depID acc =
     (case acc of (promoted, db) \<Rightarrow>
        (case GetTask (Some db) depID of
           Inl _ \<Rightarrow> acc
         | Inr t \<Rightarrow>
             if normalizeTaskStatus (task_Status t) \<noteq> ''open'' then acc
             else if \<not> deps_terminal db t then acc
             else (case set_status json (Some db) depID ''ready'' now of
                     Inl _ \<Rightarrow> acc
                   | Inr db' \<Rightarrow> (promoted @ [depID], db'))))"

definition AutoUnblockDependents ::
  "(string \<Rightarrow> string list option) \<Rightarrow> dag_db option \<Rightarrow> string \<Rightarrow> int \<Rightarrow> (string list \<times> dag_db) dag_result" where
  "AutoUnblockDependents json d completedTaskID now =
     (case GetDependents d completedTaskID of
        Inl e \<Rightarrow> Inl e
      | Inr deps \<Rightarrow> Inr (fold (unblock_one json now) deps ([], the d)))"

section \<open>The cycle check\<close>

lemma set_succs: "set (succs E x) = {y. (x, y) \<in> set E}"
  by (force simp: succs_def)

lemma rtrancl_step_iff: "(x, z) \<in> r\<^sup>* \<longleftrightarrow> x = z \<or> (\<exists>y. (x, y) \<in> r \<and> (y, z) \<in> r\<^sup>*)"
  by (metis converse_rtranclE converse_rtrancl_into_rtrancl rtrancl.rtrancl_refl)

text \<open>
  On acyclic edges the queue shrinks in the multiset order over the converse of the edge relation,
  so the query returns, and it returns whether the wanted task is reachable.
\<close>

lemma cycle_cte_acyclic:
  assumes "acyclic (set E)"
  shows "cycle_cte E wanted q = Some (\<exists>x \<in> set q. (x, wanted) \<in> (set E)\<^sup>*)"
proof -
  have "wf (inv_image (mult ((set E)\<inverse>)) mset)"
    using finite_acyclic_wf_converse [OF _ assms] by (intro wf_inv_image wf_mult) simp
  then show ?thesis
  proof (induction q rule: wf_induct_rule)
    case (less q)
    show ?case
    proof (cases q)
      case Nil
      then show ?thesis by (simp add: cycle_cte.simps)
    next
      case (Cons x rest)
      have "(mset rest + mset (succs E x), mset rest + {#x#}) \<in> mult ((set E)\<inverse>)"
        by (rule one_step_implies_mult) (auto simp: set_succs)
      then have "cycle_cte E wanted (rest @ succs E x) =
          Some (\<exists>y \<in> set (rest @ succs E x). (y, wanted) \<in> (set E)\<^sup>*)"
        using Cons by (intro less) (simp add: in_inv_image)
      moreover have "(x, wanted) \<in> (set E)\<^sup>* \<longleftrightarrow>
          x = wanted \<or> (\<exists>y \<in> set (succs E x). (y, wanted) \<in> (set E)\<^sup>*)"
        using rtrancl_step_iff [of x wanted "set E"] by (auto simp: set_succs)
      ultimately show ?thesis using Cons by (auto simp: cycle_cte.simps [of E wanted "x # rest"])
    qed
  qed
qed

lemma ensureNoCycle_acyclic:
  assumes "acyclic (set (db_edges db))"
  shows "ensureNoCycle db from to =
    Some (if (to, from) \<in> (set (db_edges db))\<^sup>+ then Inl WouldCreateCycle else Inr ())"
proof -
  let ?E = "set (db_edges db)"
  have "(\<exists>x \<in> set (succs (db_edges db) to). (x, from) \<in> ?E\<^sup>*) \<longleftrightarrow> (to, from) \<in> ?E\<^sup>+"
    by (auto simp: set_succs dest: tranclD intro: rtrancl_into_trancl2)
  then show ?thesis by (simp add: ensureNoCycle_def cycle_cte_acyclic [OF assms])
qed

section \<open>The invariant\<close>

definition row_ok :: "task \<Rightarrow> bool" where
  "row_ok t \<longleftrightarrow> task_ID t \<noteq> [] \<and> trim_space (task_ID t) = task_ID t \<and>
     normalizeTaskStatus (task_Status t) = task_Status t \<and>
     normalizeTaskType (task_Type t) = task_Type t \<and> task_DependsOn t = [] \<and> task_Complexity t = 0"

definition dag_inv :: "dag_db \<Rightarrow> bool" where
  "dag_inv db \<longleftrightarrow> distinct (map task_ID (db_tasks db)) \<and> list_all row_ok (db_tasks db) \<and>
     distinct (db_edges db) \<and> set (db_edges db) \<subseteq> row_ids db \<times> row_ids db \<and>
     acyclic (set (db_edges db))"

text \<open>Every edge joins tasks of one project: true when an edge is added, but not for ever.\<close>

definition edges_within_project :: "dag_db \<Rightarrow> bool" where
  "edges_within_project db \<longleftrightarrow>
     (\<forall>(f, t) \<in> set (db_edges db). \<forall>a \<in> set (db_tasks db). \<forall>b \<in> set (db_tasks db).
        task_ID a = f \<longrightarrow> task_ID b = t \<longrightarrow> task_Project a = task_Project b)"

lemma lookup_row_None [simp]: "lookup_row db i = None \<longleftrightarrow> i \<notin> row_ids db"
  by (simp add: lookup_row_def row_ids_def find_key_None)

lemma lookup_row_SomeD: "lookup_row db i = Some t \<Longrightarrow> t \<in> set (db_tasks db) \<and> task_ID t = i"
  unfolding lookup_row_def by (rule find_key_SomeD)

lemma lookup_row_Some:
  "dag_inv db \<Longrightarrow> lookup_row db i = Some t \<longleftrightarrow> t \<in> set (db_tasks db) \<and> task_ID t = i"
proof
  assume "dag_inv db" and t: "t \<in> set (db_tasks db) \<and> task_ID t = i"
  then have "distinct (map task_ID (db_tasks db))" by (simp add: dag_inv_def)
  then show "lookup_row db i = Some t"
    using find_distinct_key [of task_ID "db_tasks db" t] t by (simp add: lookup_row_def)
qed (rule lookup_row_SomeD)

lemma row_okD:
  "dag_inv db \<Longrightarrow> t \<in> set (db_tasks db) \<Longrightarrow> row_ok t"
  by (simp add: dag_inv_def list_all_iff)

lemma row_id:
  assumes "dag_inv db" and "lookup_row db i = Some t"
  shows "trim_space i = i" "i \<noteq> []"
  using row_okD [OF assms(1), of t] lookup_row_SomeD [OF assms(2)] by (auto simp: row_ok_def)

lemma dag_inv_empty: "dag_inv empty_dag"
  by (simp add: dag_inv_def empty_dag_def acyclic_def)

subsection \<open>Creating\<close>

lemma normalizeTaskType_idem [simp]: "normalizeTaskType (normalizeTaskType s) = normalizeTaskType s"
proof (cases "trim_space (to_lower s) = []")
  case True
  then have "normalizeTaskType s = ''task''" by (simp add: normalizeTaskType_def)
  moreover have "normalizeTaskType ''task'' = ''task''" by code_simp
  ultimately show ?thesis by simp
next
  case False
  then have n: "normalizeTaskType s = trim_space (to_lower s)"
    by (simp add: normalizeTaskType_def)
  have "to_lower (trim_space (to_lower s)) = trim_space (to_lower s)"
    by (simp flip: trim_space_lower)
  with False show ?thesis by (simp add: n normalizeTaskType_def)
qed

lemma hex_digit_not_space: "n < 16 \<Longrightarrow> \<not> is_space (hex_digit n)"
  by (auto simp: hex_digit_def is_space_nat)

lemma generateTaskID_ok:
  assumes "generateTaskID p draw = Inr i"
  shows "i \<noteq> [] \<and> trim_space i = i"
proof -
  from assms obtain n where ne: "trim_space p \<noteq> []" and i: "i = trim_space p @ ''-'' @ hex6 n"
    by (auto simp: generateTaskID_def Let_def split: if_splits option.splits)
  have "\<not> is_space (hd i)" using ne i trim_space_stops [of p] by simp
  moreover have "last i = hex_digit (n mod 16)" using i by (simp add: hex6_def)
  then have "\<not> is_space (last i)" by (simp add: hex_digit_not_space)
  ultimately show ?thesis using ne i by (simp add: trim_space_eq_iff)
qed

lemma create_attempts_ok:
  assumes "create_attempts n k draws p row db = Inr (i, db')"
  shows "i \<notin> row_ids db \<and> i \<noteq> [] \<and> trim_space i = i \<and>
    db' = db\<lparr>db_tasks := db_tasks db @ [row\<lparr>task_ID := i\<rparr>]\<rparr>"
  using assms
  by (induction n k draws p row db rule: create_attempts.induct)
     (auto split: sum.splits if_splits dest: generateTaskID_ok)

lemma CreateTask_ok:
  assumes "CreateTask (Some db) t now draws = Inr (i, db')"
  shows "i \<notin> row_ids db \<and> i \<noteq> [] \<and> trim_space i = i \<and> trim_space (task_Project t) \<noteq> [] \<and>
    db' = db\<lparr>db_tasks := db_tasks db @
      [t\<lparr>task_ID := i, task_Status := normalizeTaskStatus (task_Status t),
         task_Type := normalizeTaskType (task_Type t), task_Project := trim_space (task_Project t),
         task_DependsOn := [], task_Complexity := 0, task_CreatedAt := now, task_UpdatedAt := now\<rparr>]\<rparr>"
  using assms by (auto simp: CreateTask_def Let_def split: if_splits dest: create_attempts_ok)

lemma dag_inv_CreateTask:
  assumes "dag_inv db" and "CreateTask (Some db) t now draws = Inr (i, db')"
  shows "dag_inv db'"
  using assms(1) CreateTask_ok [OF assms(2)]
  by (auto simp: dag_inv_def row_ids_def row_ok_def image_iff)

subsection \<open>Updating\<close>

lemma field_assignment_col:
  "field_assignment json k v = Inr (c, x) \<Longrightarrow>
     (c = ''status'' \<longrightarrow> (\<exists>s. x = CString s \<and> normalizeTaskStatus s = s)) \<and>
     (c = type_column \<longrightarrow> k = ''type'' \<longrightarrow> (\<exists>s. x = CString s \<and> normalizeTaskType s = s))"
  by (auto simp: field_assignment_def type_column_def split: if_splits sum.splits)

definition assignment_ok :: "string \<times> col_value \<Rightarrow> bool" where
  "assignment_ok a = (case a of (c, x) \<Rightarrow>
     (c = ''status'' \<longrightarrow> (\<exists>s. x = CString s \<and> normalizeTaskStatus s = s)) \<and>
     (c = type_column \<longrightarrow> (\<exists>s. x = CString s \<and> normalizeTaskType s = s)))"

lemma type_column_not_key: "type_column \<notin> set updatableColumns"
  by (simp add: type_column_def updatableColumns_def text_columns_def)

lemma field_assignment_ok:
  "field_assignment json k v = Inr a \<Longrightarrow> k \<in> set updatableColumns \<Longrightarrow> assignment_ok a"
  using type_column_not_key
  by (auto simp: field_assignment_def assignment_ok_def type_column_def split: if_splits sum.splits)

lemma collect_fields_ok:
  "collect_fields json flds = Inr (as, us) \<Longrightarrow> list_all assignment_ok as"
  by (induction json flds arbitrary: as us rule: collect_fields.induct)
     (auto simp: Let_def split: if_splits sum.splits prod.splits dest: field_assignment_ok)

lemma apply_assignment_frame [simp]:
  "task_ID (apply_assignment a t) = task_ID t"
  "task_DependsOn (apply_assignment a t) = task_DependsOn t"
  "task_Complexity (apply_assignment a t) = task_Complexity t"
  "task_CreatedAt (apply_assignment a t) = task_CreatedAt t"
  by (induction a t rule: apply_assignment.induct; simp)+

lemma row_ok_apply: "assignment_ok a \<Longrightarrow> row_ok t \<Longrightarrow> row_ok (apply_assignment a t)"
  by (induction a t rule: apply_assignment.induct)
     (auto simp: row_ok_def assignment_ok_def type_column_def)

lemma fold_apply_frame [simp]:
  "task_ID (fold apply_assignment as t) = task_ID t"
  by (induction as arbitrary: t) simp_all

lemma row_ok_fold: "list_all assignment_ok as \<Longrightarrow> row_ok t \<Longrightarrow> row_ok (fold apply_assignment as t)"
  by (induction as arbitrary: t) (simp_all add: row_ok_apply)

definition field_key :: "string \<times> go_value \<Rightarrow> string" where
  "field_key f = trim_space (to_lower (fst f))"

lemma field_assignment_fst:
  "field_assignment json k v = Inr a \<Longrightarrow> fst a = (if k = ''type'' then type_column else k)"
  by (auto simp: field_assignment_def split: if_splits sum.splits)

lemma collect_fields_Cons:
  assumes "collect_fields json (f # rest) = Inr (as, us)"
  shows "(\<exists>vs. field_key f \<notin> set updatableColumns \<and> collect_fields json rest = Inr (as, vs)) \<or>
    (\<exists>a bs. field_key f \<in> set updatableColumns \<and> field_assignment json (field_key f) (snd f) = Inr a \<and>
       collect_fields json rest = Inr (bs, us) \<and> as = a # bs)"
  using assms by (cases f) (auto simp: Let_def field_key_def split: if_splits sum.splits prod.splits)

lemma collect_fields_cols:
  assumes "collect_fields json flds = Inr (as, us)" and "a \<in> set as"
  shows "\<exists>f \<in> set flds. field_key f \<in> set updatableColumns \<and>
    fst a = (if field_key f = ''type'' then type_column else field_key f)"
  using assms
proof (induction flds arbitrary: as us)
  case (Cons f flds)
  from collect_fields_Cons [OF Cons.prems(1)] show ?case
  proof (elim disjE exE conjE)
    fix b bs assume b: "field_assignment json (field_key f) (snd f) = Inr b" and f: "field_key f \<in> set updatableColumns"
      and r: "collect_fields json flds = Inr (bs, us)" and as: "as = b # bs"
    show ?thesis
    proof (cases "a \<in> set bs")
      case True
      then show ?thesis using Cons.IH [OF r] by (meson list.set_intros(2))
    next
      case False
      then have "a = b" using Cons.prems(2) as by simp
      then show ?thesis using f field_assignment_fst [OF b] by (meson list.set_intros(1))
    qed
  qed (use Cons in auto)
qed simp

lemma collect_fields_distinct:
  assumes "collect_fields json flds = Inr (as, us)" and "distinct (map field_key flds)"
  shows "distinct (map fst as)"
  using assms
proof (induction flds arbitrary: as us)
  case (Cons f flds)
  from collect_fields_Cons [OF Cons.prems(1)] show ?case
  proof (elim disjE exE conjE)
    fix b bs assume b: "field_assignment json (field_key f) (snd f) = Inr b" and f: "field_key f \<in> set updatableColumns"
      and r: "collect_fields json flds = Inr (bs, us)" and as: "as = b # bs"
    have "fst b \<noteq> fst a" if a: "a \<in> set bs" for a
    proof
      assume eq: "fst b = fst a"
      obtain h where h: "h \<in> set flds" "field_key h \<in> set updatableColumns"
        and "fst a = (if field_key h = ''type'' then type_column else field_key h)"
        using collect_fields_cols [OF r a] by blast
      then have "field_key h = field_key f"
        using eq field_assignment_fst [OF b] type_column_not_key f by metis
      then have "field_key f \<in> field_key ` set flds" using h(1) by (metis imageI)
      then show False using Cons.prems(2) by simp
    qed
    then show ?thesis using Cons.IH [OF r] Cons.prems(2) as by auto
  qed (use Cons in auto)
qed simp

lemma UpdateTask_ok:
  assumes "UpdateTask json (Some db) rawid flds now = Inr db'"
  shows "db' = db \<or> (\<exists>as. list_all assignment_ok as \<and> trim_space rawid \<in> row_ids db \<and>
    (distinct (map field_key flds) \<longrightarrow> distinct (map fst as)) \<and>
    (transitioningToReady as \<longrightarrow> ensureReadyTransitionUnblocked db (trim_space rawid) = Inr ()) \<and>
    db' = db\<lparr>db_tasks := update_where (\<lambda>t. task_ID t = trim_space rawid)
      (\<lambda>t. (fold apply_assignment as t)\<lparr>task_UpdatedAt := now\<rparr>) (db_tasks db)\<rparr>)"
proof -
  have ok: "collect_fields json flds = Inr (as, us) \<Longrightarrow> list_all assignment_ok (sort_slice assignment_less as) \<and>
      (distinct (map field_key flds) \<longrightarrow> distinct (map fst (sort_slice assignment_less as)))"
    for as us
    using collect_fields_ok collect_fields_distinct by (fastforce simp: list_all_iff)
  from assms show ?thesis
    by (auto simp: UpdateTask_def Let_def update_row_def split: if_splits sum.splits prod.splits dest!: ok)
qed

lemma row_ids_update:
  "(\<And>t. task_ID (f t) = task_ID t) \<Longrightarrow>
     row_ids (db\<lparr>db_tasks := update_where P f (db_tasks db)\<rparr>) = row_ids db"
  using map_update_where [of P task_ID f "db_tasks db"] by (simp add: row_ids_def flip: set_map)

lemma dag_inv_update:
  assumes "dag_inv db" and "\<And>t. task_ID (f t) = task_ID t" and "\<And>t. row_ok t \<Longrightarrow> row_ok (f t)"
  shows "dag_inv (db\<lparr>db_tasks := update_where P f (db_tasks db)\<rparr>)"
  using assms
  by (auto simp: dag_inv_def row_ids_update map_update_where list_all_iff set_update_where)

lemma dag_inv_UpdateTask:
  assumes "dag_inv db" and "UpdateTask json (Some db) i flds now = Inr db'"
  shows "dag_inv db'"
  using UpdateTask_ok [OF assms(2)] assms(1)
  by (auto intro!: dag_inv_update) (auto simp: row_ok_def dest: row_ok_fold)

declare lookup_row_None [simp del]

subsection \<open>Setting a status\<close>

lemma isTerminalStatus_iff: "isTerminalStatus s = isClosedTask s"
  by (auto simp: isTerminalStatus_def isClosedTask_def terminal_sql_def Let_def)

lemma row_ok_terminal:
  "row_ok t \<Longrightarrow> to_lower (task_Status t) \<in> set terminal_sql \<longleftrightarrow> isClosedTask (task_Status t)"
  using normalizeTaskStatus_fixed [of "task_Status t"]
  by (auto simp: row_ok_def isTerminalStatus_def simp flip: isTerminalStatus_iff)

lemma blocking_deps_Nil:
  assumes "dag_inv db"
  shows "blocking_deps db i = [] \<longleftrightarrow>
    (\<forall>d. (i, d) \<in> set (db_edges db) \<longrightarrow> (\<exists>t. lookup_row db d = Some t \<and> isClosedTask (task_Status t)))"
proof -
  have "(case lookup_row db d of None \<Rightarrow> [(d, [])]
      | Some t \<Rightarrow> if to_lower (task_Status t) \<in> set terminal_sql then [] else [(d, to_lower (task_Status t))]) = []
    \<longleftrightarrow> (\<exists>t. lookup_row db d = Some t \<and> isClosedTask (task_Status t))" for d
    using row_ok_terminal row_okD [OF assms] lookup_row_SomeD [of db d]
    by (cases "lookup_row db d") auto
  then show ?thesis by (auto simp: blocking_deps_def)
qed

lemma ensureReady_ok: "ensureReadyTransitionUnblocked db i = Inr () \<longleftrightarrow> blocking_deps db i = []"
proof -
  have "sort_slice lt xs = [] \<longleftrightarrow> xs = []" for lt and xs :: "(string \<times> string) list"
    by (metis length_0_conv length_sort_slice)
  then show ?thesis
    by (auto simp: ensureReadyTransitionUnblocked_def split: list.splits prod.splits)
qed

lemma status_key: "trim_space (to_lower ''status'') = ''status''"
  by code_simp

lemma collect_status:
  "collect_fields json [(''status'', VString st)] = Inr ([(''status'', CString (normalizeTaskStatus st))], [])"
  by (simp add: status_key Let_def updatableColumns_def field_assignment_def)

lemma set_status_eq:
  assumes "trim_space i = i" and "i \<noteq> []"
  shows "set_status json (Some db) i st now =
    (case (if normalizeTaskStatus st = ''ready'' then ensureReadyTransitionUnblocked db i else Inr ()) of
       Inl e \<Rightarrow> Inl e
     | Inr _ \<Rightarrow> update_row db i (\<lambda>t. t\<lparr>task_Status := normalizeTaskStatus st, task_UpdatedAt := now\<rparr>))"
  using assms
  by (simp add: set_status_def UpdateTask_def collect_status del: collect_fields.simps split: sum.split)

lemma set_ready_ok:
  assumes "dag_inv db" and "lookup_row db i = Some t" and "blocking_deps db i = []"
  shows "set_status json (Some db) i ''ready'' now =
    Inr (db\<lparr>db_tasks := update_where (\<lambda>t. task_ID t = i)
              (\<lambda>t. t\<lparr>task_Status := ''ready'', task_UpdatedAt := now\<rparr>) (db_tasks db)\<rparr>)"
proof -
  have "task_ID t = i" and "row_ok t" using assms lookup_row_SomeD row_okD by blast+
  then have i: "trim_space i = i" "i \<noteq> []" by (auto simp: row_ok_def)
  have "ensureReadyTransitionUnblocked db i = Inr ()" using assms(3) by (simp add: ensureReady_ok)
  then show ?thesis using assms(2) i by (simp add: set_status_eq update_row_def)
qed

lemma lookup_update:
  assumes "\<And>t. task_ID (f t) = task_ID t"
  shows "lookup_row (db\<lparr>db_tasks := update_where (\<lambda>t. task_ID t = i) f (db_tasks db)\<rparr>) j =
    (if j = i then map_option f (lookup_row db i) else lookup_row db j)"
proof -
  have "lookup_row (db\<lparr>db_tasks := update_where (\<lambda>t. task_ID t = i) f (db_tasks db)\<rparr>) j =
      map_option (\<lambda>t. if task_ID t = i then f t else t) (lookup_row db j)"
    using find_map_key [of task_ID "\<lambda>t. if task_ID t = i then f t else t" j "db_tasks db"] assms
    by (simp add: lookup_row_def update_where_def)
  then show ?thesis using lookup_row_SomeD [of db j] by (cases "lookup_row db j") auto
qed

subsection \<open>Edges\<close>

lemma AddEdge_ok:
  assumes "dag_inv db" and "AddEdge (Some db) rawfrom rawto = Some (Inr db')"
  shows "db' = insert_edge (trim_space rawfrom) (trim_space rawto) db \<and>
    trim_space rawfrom \<noteq> trim_space rawto \<and>
    (\<exists>a b. lookup_row db (trim_space rawfrom) = Some a \<and> lookup_row db (trim_space rawto) = Some b \<and>
       task_Project a = task_Project b) \<and>
    (trim_space rawto, trim_space rawfrom) \<notin> (set (db_edges db))\<^sup>+"
  using assms ensureNoCycle_acyclic [of db "trim_space rawfrom" "trim_space rawto"]
  by (auto simp: AddEdge_def Let_def dag_inv_def taskProject_def split: if_splits sum.splits option.splits)

lemma dag_inv_AddEdge:
  assumes "dag_inv db" and "AddEdge (Some db) rawfrom rawto = Some (Inr db')"
  shows "dag_inv db'"
proof -
  let ?f = "trim_space rawfrom" and ?t = "trim_space rawto" and ?E = "set (db_edges db)"
  from AddEdge_ok [OF assms] have db': "db' = insert_edge ?f ?t db" and ne: "?f \<noteq> ?t"
    and rows: "lookup_row db ?f \<noteq> None" "lookup_row db ?t \<noteq> None" and acyc: "(?t, ?f) \<notin> ?E\<^sup>+"
    by auto
  have "(?t, ?f) \<notin> ?E\<^sup>*" using ne acyc by (auto simp: rtrancl_eq_or_trancl)
  then have "acyclic (insert (?f, ?t) ?E)" using assms(1) by (simp add: acyclic_insert dag_inv_def)
  then show ?thesis
    using assms(1) rows by (auto simp: db' insert_edge_def dag_inv_def row_ids_def lookup_row_None)
qed

lemma RemoveEdge_ok:
  "RemoveEdge (Some db) f t = Inr db' \<Longrightarrow>
     db' = db\<lparr>db_edges := filter (\<lambda>e. e \<noteq> (trim_space f, trim_space t)) (db_edges db)\<rparr>"
  by (auto simp: RemoveEdge_def Let_def split: if_splits)

lemma dag_inv_RemoveEdge:
  "dag_inv db \<Longrightarrow> RemoveEdge (Some db) f t = Inr db' \<Longrightarrow> dag_inv db'"
  by (auto dest!: RemoveEdge_ok simp: dag_inv_def row_ids_def intro: acyclic_subset)

subsection \<open>Unblocking\<close>

lemma GetTask_row:
  assumes "dag_inv db" and "lookup_row db i = Some t"
  shows "GetTask (Some db) i = Inr (t\<lparr>task_DependsOn := succs (db_edges db) i\<rparr>)"
proof -
  have "task_ID t = i" and "row_ok t" using assms lookup_row_SomeD row_okD by blast+
  then show ?thesis
    using assms(2) by (simp add: GetTask_def row_ok_def taskDependencies_def succs_def Let_def cong: conj_cong)
qed

lemma GetTask_missing:
  "lookup_row db i = None \<Longrightarrow> trim_space i = i \<Longrightarrow> i \<noteq> [] \<Longrightarrow> GetTask (Some db) i = Inl (TaskNotFound i)"
  by (simp add: GetTask_def)

lemma edge_row:
  "dag_inv db \<Longrightarrow> (f, t) \<in> set (db_edges db) \<Longrightarrow>
     (\<exists>a. lookup_row db f = Some a) \<and> (\<exists>b. lookup_row db t = Some b)"
  by (metis (no_types, lifting) dag_inv_def lookup_row_None mem_Sigma_iff not_None_eq subsetD)

lemma deps_terminal_iff:
  assumes "dag_inv db"
  shows "deps_terminal db (t\<lparr>task_DependsOn := succs (db_edges db) i\<rparr>) \<longleftrightarrow> blocking_deps db i = []"
proof -
  have "(case GetTask (Some db) d of Inl _ \<Rightarrow> False | Inr r \<Rightarrow> isTerminalStatus (task_Status r))
      \<longleftrightarrow> (\<exists>u. lookup_row db d = Some u \<and> isClosedTask (task_Status u))"
    if "(i, d) \<in> set (db_edges db)" for d
    using edge_row [OF assms that] GetTask_row [OF assms] by (auto simp: isTerminalStatus_iff)
  then show ?thesis
    unfolding blocking_deps_Nil [OF assms] by (auto simp: deps_terminal_def list_all_iff set_succs)
qed

text \<open>The condition under which a dependent is promoted.\<close>

definition promotable :: "dag_db \<Rightarrow> string \<Rightarrow> bool" where
  "promotable db i \<longleftrightarrow>
     (\<exists>t. lookup_row db i = Some t \<and> task_Status t = ''open'') \<and> blocking_deps db i = []"

definition promote :: "int \<Rightarrow> string \<Rightarrow> dag_db \<Rightarrow> dag_db" where
  "promote now i db = db\<lparr>db_tasks := update_where (\<lambda>t. task_ID t = i)
     (\<lambda>t. t\<lparr>task_Status := ''ready'', task_UpdatedAt := now\<rparr>) (db_tasks db)\<rparr>"

lemma unblock_one_eq:
  assumes "dag_inv db" and "lookup_row db i \<noteq> None"
  shows "unblock_one json now i (ps, db) =
    (if promotable db i then (ps @ [i], promote now i db) else (ps, db))"
proof -
  obtain t where t: "lookup_row db i = Some t" using assms(2) by auto
  have "row_ok t" using t assms(1) lookup_row_SomeD row_okD by blast
  then have n: "normalizeTaskStatus (task_Status t) = task_Status t" by (simp add: row_ok_def)
  show ?thesis
    using t n set_ready_ok [OF assms(1) t] deps_terminal_iff [OF assms(1), where t = t and i = i]
    by (auto simp: unblock_one_def GetTask_row [OF assms(1) t] promotable_def promote_def)
qed

lemma dag_inv_promote: "dag_inv db \<Longrightarrow> dag_inv (promote now i db)"
  unfolding promote_def by (rule dag_inv_update) (auto simp: row_ok_def)

lemma promote_edges [simp]: "db_edges (promote now i db) = db_edges db"
  by (simp add: promote_def)

lemma lookup_promote:
  "lookup_row (promote now i db) j =
     (if j = i then map_option (\<lambda>t. t\<lparr>task_Status := ''ready'', task_UpdatedAt := now\<rparr>) (lookup_row db i)
      else lookup_row db j)"
  by (simp add: promote_def lookup_update)

lemma open_ready_not_closed: "\<not> isClosedTask ''open''" "\<not> isClosedTask ''ready''"
  by code_simp+

lemma promotable_promote:
  assumes "dag_inv db" and "promotable db i"
  shows "promotable (promote now i db) j \<longleftrightarrow> promotable db j \<and> j \<noteq> i"
proof -
  obtain t where t: "lookup_row db i = Some t" and o: "task_Status t = ''open''"
    using assms(2) by (auto simp: promotable_def)
  have "(\<exists>u. lookup_row (promote now i db) d = Some u \<and> isClosedTask (task_Status u)) \<longleftrightarrow>
      (\<exists>u. lookup_row db d = Some u \<and> isClosedTask (task_Status u))" for d
    using t o by (auto simp: lookup_promote open_ready_not_closed)
  then have "blocking_deps (promote now i db) j = [] \<longleftrightarrow> blocking_deps db j = []"
    using assms(1) by (simp add: blocking_deps_Nil dag_inv_promote)
  then show ?thesis using t o by (auto simp: promotable_def lookup_promote)
qed

lemma fold_unblock:
  assumes "dag_inv db" and "distinct deps" and "\<forall>i \<in> set deps. lookup_row db i \<noteq> None"
  shows "fold (unblock_one json now) deps (ps, db) =
    (ps @ filter (promotable db) deps, fold (promote now) (filter (promotable db) deps) db)"
  using assms
proof (induction deps arbitrary: ps db)
  case (Cons i deps)
  show ?case
  proof (cases "promotable db i")
    case True
    have f: "filter (promotable (promote now i db)) deps = filter (promotable db) deps"
      using Cons.prems True by (auto simp: promotable_promote intro!: filter_cong)
    have "\<forall>j \<in> set deps. lookup_row (promote now i db) j \<noteq> None"
      using Cons.prems by (auto simp: lookup_promote)
    then show ?thesis
      using Cons True f by (simp add: unblock_one_eq dag_inv_promote)
  next
    case False
    then show ?thesis using Cons by (simp add: unblock_one_eq)
  qed
qed simp

lemma lookup_fold_promote:
  "lookup_row (fold (promote now) is db) j =
     (if j \<in> set is then map_option (\<lambda>t. t\<lparr>task_Status := ''ready'', task_UpdatedAt := now\<rparr>) (lookup_row db j)
      else lookup_row db j)"
  by (induction "is" arbitrary: db) (auto simp: lookup_promote option.map_comp comp_def)

lemma fold_promote_edges [simp]: "db_edges (fold (promote now) is db) = db_edges db"
  by (induction "is" arbitrary: db) simp_all

lemma dag_inv_fold_promote: "dag_inv db \<Longrightarrow> dag_inv (fold (promote now) is db)"
  by (induction "is" arbitrary: db) (simp_all add: dag_inv_promote)

lemma dependents_distinct:
  assumes "dag_inv db"
  shows "distinct (sort (map fst (filter (\<lambda>e. snd e = c) (db_edges db))))"
proof -
  have "distinct (filter (\<lambda>e. snd e = c) (db_edges db))" using assms by (simp add: dag_inv_def)
  then have "distinct (map fst (filter (\<lambda>e. snd e = c) (db_edges db)))"
    by (auto simp: distinct_map inj_on_def)
  then show ?thesis by simp
qed

lemma AutoUnblock_eq:
  assumes "dag_inv db" and "trim_space c = c" and "c \<noteq> []"
  defines "deps \<equiv> sort (map fst (filter (\<lambda>e. snd e = c) (db_edges db)))"
  shows "AutoUnblockDependents json (Some db) c now =
    Inr (filter (promotable db) deps, fold (promote now) (filter (promotable db) deps) db)"
proof -
  have "\<forall>i \<in> set deps. lookup_row db i \<noteq> None"
    using edge_row [OF assms(1)] by (auto simp: deps_def)
  then have "fold (unblock_one json now) deps ([], db) =
      (filter (promotable db) deps, fold (promote now) (filter (promotable db) deps) db)"
    using fold_unblock [OF assms(1) dependents_distinct [OF assms(1)], of c json now "[]"]
    by (simp add: deps_def)
  then show ?thesis
    using assms by (simp add: AutoUnblockDependents_def GetDependents_def)
qed

lemma dag_inv_AutoUnblock:
  assumes "dag_inv db" and "AutoUnblockDependents json (Some db) c now = Inr (ps, db')"
  shows "dag_inv db'"
proof -
  have "trim_space (trim_space c) = trim_space c" and ne: "trim_space c \<noteq> []"
    and "AutoUnblockDependents json (Some db) (trim_space c) now = Inr (ps, db')"
    using assms(2) by (auto simp: AutoUnblockDependents_def GetDependents_def Let_def split: if_splits)
  then show ?thesis
    using AutoUnblock_eq [OF assms(1), of "trim_space c" json now] dag_inv_fold_promote [OF assms(1)]
    by auto
qed

section \<open>Runs of the task graph\<close>

text \<open>The operations of \<open>DAG\<close> that change the database, as steps; a failed operation changes nothing.\<close>

inductive dag_step :: "(string \<Rightarrow> string list option) \<Rightarrow> dag_db \<Rightarrow> dag_db \<Rightarrow> bool" for json where
  create: "CreateTask (Some db) t now draws = Inr (i, db') \<Longrightarrow> dag_step json db db'"
| update: "UpdateTask json (Some db) i flds now = Inr db' \<Longrightarrow> dag_step json db db'"
| close: "CloseTask json (Some db) i now = Inr db' \<Longrightarrow> dag_step json db db'"
| add_edge: "AddEdge (Some db) f t = Some (Inr db') \<Longrightarrow> dag_step json db db'"
| remove_edge: "RemoveEdge (Some db) f t = Inr db' \<Longrightarrow> dag_step json db db'"
| unblock: "AutoUnblockDependents json (Some db) c now = Inr (ps, db') \<Longrightarrow> dag_step json db db'"

lemma dag_inv_step: "dag_inv db \<Longrightarrow> dag_step json db db' \<Longrightarrow> dag_inv db'"
  by (auto elim!: dag_step.cases simp: CloseTask_def set_status_def
      intro: dag_inv_CreateTask dag_inv_UpdateTask dag_inv_AddEdge dag_inv_RemoveEdge dag_inv_AutoUnblock)

interpretation dag_run: machine empty_dag "dag_step json" dag_inv for json
  using dag_inv_empty dag_inv_step by unfold_locales

lemma AddEdge_returns: "dag_inv db \<Longrightarrow> \<exists>r. AddEdge (Some db) f t = Some r"
  using ensureNoCycle_acyclic [of db "trim_space f" "trim_space t"]
  by (auto simp: AddEdge_def Let_def dag_inv_def split: sum.splits)

lemma AddEdge_eq:
  assumes "dag_inv db" and "lookup_row db from = Some a" and "lookup_row db to = Some b"
    and "task_Project a = task_Project b" and "from \<noteq> to"
  shows "AddEdge (Some db) from to =
    Some (if (to, from) \<in> (set (db_edges db))\<^sup>+ then Inl WouldCreateCycle else Inr (insert_edge from to db))"
proof -
  have "row_ok a" "task_ID a = from" "row_ok b" "task_ID b = to"
    using assms(1,2,3) lookup_row_SomeD row_okD by blast+
  then have "trim_space from = from" "from \<noteq> []" "trim_space to = to" "to \<noteq> []"
    by (auto simp: row_ok_def)
  then show ?thesis
    using assms ensureNoCycle_acyclic [of db "from" to]
    by (simp add: AddEdge_def taskProject_def dag_inv_def)
qed

lemma newly_ready_assigned:
  "task_Status (fold apply_assignment as t) = ''ready'' \<Longrightarrow> task_Status t \<noteq> ''ready'' \<Longrightarrow>
     (''status'', CString ''ready'') \<in> set as"
proof (induction as arbitrary: t)
  case (Cons a as)
  show ?case
  proof (cases "task_Status (apply_assignment a t) = ''ready''")
    case True
    then have "a = (''status'', CString ''ready'')"
      using Cons.prems by (induction a t rule: apply_assignment.induct) (auto split: if_splits)
    then show ?thesis by auto
  next
    case False
    then show ?thesis using Cons by auto
  qed
qed simp

lemma normalizeTaskStatus_ready: "normalizeTaskStatus ''ready'' = ''ready''"
  by code_simp

lemma transitioning_assigned:
  "distinct (map fst as) \<Longrightarrow> (''status'', CString ''ready'') \<in> set as \<Longrightarrow> transitioningToReady as"
  by (induction as rule: transitioningToReady.induct) (force simp: normalizeTaskStatus_ready)+

subsection \<open>The two readiness tests\<close>

lemma attach_deps_succs:
  "attach_deps db rows = map (\<lambda>t. t\<lparr>task_DependsOn := succs (db_edges db) (task_ID t)\<rparr>) rows"
  by (auto simp: attach_deps_def taskDependencies_def succs_def cong: conj_cong intro!: filter_cong)

lemma normalizeTaskType_fixed:
  "normalizeTaskType s = s \<Longrightarrow> to_lower s = s \<and> trim_space s = s"
proof -
  assume n: "normalizeTaskType s = s"
  show ?thesis
  proof (cases "trim_space (to_lower s) = []")
    case True
    then have s: "s = ''task''" using n by (simp add: normalizeTaskType_def)
    show ?thesis unfolding s by code_simp
  next
    case False
    then have "s = to_lower (trim_space s)" using n by (simp add: normalizeTaskType_def trim_space_lower)
    then show ?thesis by (metis to_lower_idem trim_space_idem trim_space_lower)
  qed
qed

lemma ready_row_iff:
  assumes "dag_inv db" and "edges_within_project db"
    and t: "t \<in> set (db_tasks db)" "task_Project t = p"
  defines "dep \<equiv> \<lambda>t. t\<lparr>task_DependsOn := succs (db_edges db) (task_ID t)\<rparr>"
  defines "ts \<equiv> map dep (filter (\<lambda>t. task_Project t = p) (db_tasks db))"
  shows "isDispatchableTask (dep t) \<and> \<not> isContainerTask (dep t) \<and> allDepsClosed (dep t) (Some (BuildDepGraph ts))
    \<longleftrightarrow> to_lower (task_Status t) = ''ready'' \<and> to_lower (task_Type t) \<notin> {''epic'', ''whale''} \<and>
    \<not> (\<exists>e \<in> set (db_edges db). fst e = task_ID t \<and>
        (\<exists>dep \<in> set (db_tasks db). task_ID dep = snd e \<and> to_lower (task_Status dep) \<notin> set terminal_sql))"
proof -
  have ok: "row_ok u" if "u \<in> set (db_tasks db)" for u using that row_okD [OF assms(1)] by simp
  have st: "to_lower (task_Status t) = task_Status t" "normalizeTaskStatus (task_Status t) = task_Status t"
    using ok [OF t(1)] normalizeTaskStatus_fixed by (auto simp: row_ok_def)
  have ty: "to_lower (task_Type t) = task_Type t" "trim_space (task_Type t) = task_Type t"
    using ok [OF t(1)] normalizeTaskType_fixed by (auto simp: row_ok_def)
  have ids: "distinct (map task_ID ts)"
    using assms(1) by (simp add: ts_def dep_def dag_inv_def comp_def distinct_map_filter)
  have "dep t \<in> set ts" using t by (auto simp: ts_def)
  have each: "(trim_space d = [] \<or> (\<exists>u \<in> set ts. task_ID u = trim_space d \<and> isClosedTask (task_Status u)))
      \<longleftrightarrow> \<not> (\<exists>u \<in> set (db_tasks db). task_ID u = d \<and> to_lower (task_Status u) \<notin> set terminal_sql)"
    if e: "(task_ID t, d) \<in> set (db_edges db)" for d
  proof -
    obtain v where v: "v \<in> set (db_tasks db)" "task_ID v = d"
      using assms(1) e by (auto simp: dag_inv_def row_ids_def)
    have uniq: "u = v" if "u \<in> set (db_tasks db)" "task_ID u = d" for u
      using that v assms(1) unfolding dag_inv_def distinct_map by (metis inj_onD)
    have vp: "task_Project v = p" using assms(2) e t v by (fastforce simp: edges_within_project_def)
    have "(\<exists>u \<in> set ts. task_ID u = d \<and> isClosedTask (task_Status u)) \<longleftrightarrow>
        (\<exists>u \<in> set (db_tasks db). task_Project u = p \<and> task_ID u = d \<and> isClosedTask (task_Status u))"
      by (auto simp: ts_def dep_def)
    then have "(\<exists>u \<in> set ts. task_ID u = d \<and> isClosedTask (task_Status u)) \<longleftrightarrow> isClosedTask (task_Status v)"
      using v uniq vp by blast
    moreover have "trim_space d = d" "d \<noteq> []" using ok [OF v(1)] v(2) by (auto simp: row_ok_def)
    moreover have "to_lower (task_Status v) \<in> set terminal_sql \<longleftrightarrow> isClosedTask (task_Status v)"
      using row_ok_terminal ok [OF v(1)] by blast
    ultimately show ?thesis using v uniq by metis
  qed
  have "allDepsClosed (dep t) (Some (BuildDepGraph ts)) \<longleftrightarrow>
      \<not> (\<exists>e \<in> set (db_edges db). fst e = task_ID t \<and>
        (\<exists>u \<in> set (db_tasks db). task_ID u = snd e \<and> to_lower (task_Status u) \<notin> set terminal_sql))"
    using allDepsClosed_build [OF ids \<open>dep t \<in> set ts\<close>] each
    by (auto simp: dep_def set_succs)
  then show ?thesis using st ty by (simp add: isDispatchableTask_def isContainerTask_def dep_def Let_def)
qed

subsection \<open>A sample run\<close>

text \<open>Two tasks are created, the first one is made to depend on the second one.\<close>

definition sample_dag1 :: dag_db where
  "sample_dag1 = \<lparr>db_tasks = [sample_task ''p-000001'' ''open'' 1 []], db_edges = []\<rparr>"

definition sample_dag2 :: dag_db where
  "sample_dag2 = \<lparr>db_tasks = [sample_task ''p-000001'' ''open'' 1 [], sample_task ''p-000002'' ''done'' 2 []],
                  db_edges = []\<rparr>"

definition sample_dag :: dag_db where
  "sample_dag = \<lparr>db_tasks = [sample_task ''p-000001'' ''open'' 1 [], sample_task ''p-000002'' ''done'' 2 []],
                 db_edges = [(''p-000001'', ''p-000002'')]\<rparr>"

lemma sample_hex: "hex6 1 = ''000001''" "hex6 2 = ''000002''"
proof -
  have d: "hex_digit 0 = CHR ''0''" "hex_digit 1 = CHR ''1''" "hex_digit 2 = CHR ''2''" by code_simp+
  then have "hex_digit (Suc 0) = CHR ''1''" by simp
  with d show "hex6 1 = ''000001''" "hex6 2 = ''000002''" by (simp_all add: hex6_def)
qed

lemma sample_norms:
  "normalizeTaskStatus ''open'' = ''open''" "normalizeTaskStatus ''done'' = ''done''"
  "normalizeTaskStatus ''ready'' = ''ready''" "normalizeTaskType ''task'' = ''task''" "trim_space ''p'' = ''p''"
  by code_simp+

lemma create_first:
  "0 < n \<Longrightarrow> generateTaskID p (draws k) = Inr i \<Longrightarrow> lookup_row db i = None \<Longrightarrow>
     create_attempts n k draws p row db = Inr (i, db\<lparr>db_tasks := db_tasks db @ [row\<lparr>task_ID := i\<rparr>]\<rparr>)"
  by (cases n) simp_all

lemma sample_ids:
  "generateTaskID ''p'' (Some 1) = Inr ''p-000001''" "generateTaskID ''p'' (Some 2) = Inr ''p-000002''"
  using sample_hex by (simp_all add: generateTaskID_def sample_norms)

lemma sample_creates:
  "CreateTask (Some empty_dag) (sample_task ''p-000001'' ''open'' 1 []) 0 (\<lambda>_. Some 1) = Inr (''p-000001'', sample_dag1)"
  "CreateTask (Some sample_dag1) (sample_task ''p-000002'' ''done'' 2 []) 0 (\<lambda>_. Some 2) = Inr (''p-000002'', sample_dag2)"
proof -
  have m: "0 < maxTaskIDAttempts" by (simp add: maxTaskIDAttempts_def)
  show "CreateTask (Some empty_dag) (sample_task ''p-000001'' ''open'' 1 []) 0 (\<lambda>_. Some 1) = Inr (''p-000001'', sample_dag1)"
    "CreateTask (Some sample_dag1) (sample_task ''p-000002'' ''done'' 2 []) 0 (\<lambda>_. Some 2) = Inr (''p-000002'', sample_dag2)"
    using create_first [OF m, of "''p''" "\<lambda>_. Some 1" 0] create_first [OF m, of "''p''" "\<lambda>_. Some 2" 0] sample_ids
    by (simp_all add: CreateTask_def Let_def lookup_row_def
        empty_dag_def sample_dag1_def sample_dag2_def sample_task_def sample_norms)
qed

lemma sample_reachable2: "(dag_step json)\<^sup>*\<^sup>* empty_dag sample_dag2"
  using sample_creates dag_step.create by (meson r_into_rtranclp rtranclp.rtrancl_into_rtrancl)

lemma sample_edge: "AddEdge (Some sample_dag2) ''p-000001'' ''p-000002'' = Some (Inr sample_dag)"
proof -
  have "lookup_row sample_dag2 ''p-000001'' = Some (sample_task ''p-000001'' ''open'' 1 [])"
    "lookup_row sample_dag2 ''p-000002'' = Some (sample_task ''p-000002'' ''done'' 2 [])"
    "insert_edge ''p-000001'' ''p-000002'' sample_dag2 = sample_dag"
    by code_simp+
  moreover have "db_edges sample_dag2 = []" by (simp add: sample_dag2_def)
  ultimately show ?thesis
    using AddEdge_eq [OF dag_run.inv_reachable [OF sample_reachable2], of "''p-000001''" _ "''p-000002''"]
    by (simp add: sample_task_def)
qed

lemma sample_reachable: "(dag_step json)\<^sup>*\<^sup>* empty_dag sample_dag"
  using sample_reachable2 sample_edge dag_step.add_edge by (meson rtranclp.rtrancl_into_rtrancl)

lemma sample_inv: "dag_inv sample_dag"
  using dag_run.inv_reachable [OF sample_reachable] .

lemma sample_lookup:
  "lookup_row sample_dag ''p-000001'' = Some (sample_task ''p-000001'' ''open'' 1 [])"
  "lookup_row sample_dag ''p-000002'' = Some (sample_task ''p-000002'' ''done'' 2 [])"
  by code_simp+

section \<open>Properties\<close>

text \<open>
  C1. Whatever sequence of operations is run from the empty database, the identifiers stay unique, no
  edge is stored twice, every edge joins stored tasks, and the dependency edges stay acyclic.
\<close>

theorem dag_reachable_invariant:
  assumes "(dag_step json)\<^sup>*\<^sup>* empty_dag db"
  shows "acyclic (set (db_edges db)) \<and> distinct (db_edges db) \<and>
    distinct (map task_ID (db_tasks db)) \<and> set (db_edges db) \<subseteq> row_ids db \<times> row_ids db"
  using dag_run.inv_reachable [OF assms] by (simp add: dag_inv_def)

theorem dag_reachable_invariant_witness:
  "acyclic (set (db_edges sample_dag)) \<and> db_edges sample_dag \<noteq> []"
  using dag_reachable_invariant [OF sample_reachable] by (simp add: sample_dag_def)

text \<open>
  C3. In every reachable database the cycle check of \<open>AddEdge\<close>, a recursive query without
  duplicate elimination, returns.
\<close>

theorem add_edge_terminates:
  assumes "(dag_step json)\<^sup>*\<^sup>* empty_dag db"
  shows "\<exists>r. AddEdge (Some db) rawfrom rawto = Some r"
  using dag_run.inv_reachable [OF assms] by (rule AddEdge_returns)

theorem add_edge_terminates_witness:
  "\<exists>r. AddEdge (Some sample_dag) ''p-000002'' ''p-000001'' = Some r"
  using add_edge_terminates [OF sample_reachable] by blast

text \<open>
  C2. \<open>AddEdge\<close> between two stored tasks of one project is decided by reachability alone: it is
  refused as a cycle exactly when the target already depends, directly or not, on the source, and
  otherwise the edge is stored.
\<close>

theorem add_edge_decides:
  assumes "dag_inv db" and "lookup_row db from = Some a" and "lookup_row db to = Some b"
    and "task_Project a = task_Project b" and "from \<noteq> to"
  shows "AddEdge (Some db) from to =
    Some (if (to, from) \<in> (set (db_edges db))\<^sup>+ then Inl WouldCreateCycle else Inr (insert_edge from to db))"
  using assms by (rule AddEdge_eq)

theorem add_edge_decides_witness:
  "AddEdge (Some sample_dag) ''p-000002'' ''p-000001'' = Some (Inl WouldCreateCycle)"
  using add_edge_decides [OF sample_inv sample_lookup(2) sample_lookup(1)]
  by (simp add: sample_task_def sample_dag_def r_into_trancl)

text \<open>
  C4. The readiness gate of \<open>UpdateTask\<close>: when no two keys of the field map name the same column, a row
  that was not ready before a successful update and is ready after it has only dependencies that
  are stored with a terminal status.
\<close>

theorem ready_transition_safe:
  assumes "dag_inv db" and "distinct (map field_key flds)"
    and "UpdateTask json (Some db) rawid flds now = Inr db'"
    and "lookup_row db i = Some t" and "task_Status t \<noteq> ''ready''"
    and "lookup_row db' i = Some t'" and "task_Status t' = ''ready''" and "(i, d) \<in> set (db_edges db')"
  shows "\<exists>u. lookup_row db d = Some u \<and> isClosedTask (task_Status u)"
proof -
  from UpdateTask_ok [OF assms(3)] assms(2,4,5,6,7)
  obtain as where as: "distinct (map fst as)"
    and gate: "transitioningToReady as \<longrightarrow> ensureReadyTransitionUnblocked db (trim_space rawid) = Inr ()"
    and db': "db' = db\<lparr>db_tasks := update_where (\<lambda>t. task_ID t = trim_space rawid)
      (\<lambda>t. (fold apply_assignment as t)\<lparr>task_UpdatedAt := now\<rparr>) (db_tasks db)\<rparr>"
    by auto
  from db' assms(4-7) have i: "i = trim_space rawid" and r: "task_Status (fold apply_assignment as t) = ''ready''"
    by (auto simp: lookup_update split: if_splits)
  have "transitioningToReady as"
    using transitioning_assigned [OF as newly_ready_assigned [OF r assms(5)]] .
  with gate i have "blocking_deps db i = []" by (simp add: ensureReady_ok)
  then show ?thesis using assms(1,8) db' by (simp add: blocking_deps_Nil)
qed

text \<open>The first task of the sample run is set to ready: its only dependency is done.\<close>

lemma sample_ready:
  "UpdateTask (\<lambda>_. None) (Some sample_dag) ''p-000001'' [(''status'', VString ''ready'')] 5 =
     Inr (promote 5 ''p-000001'' sample_dag)"
proof -
  have "blocking_deps sample_dag ''p-000001'' = []" by code_simp
  then show ?thesis
    using set_ready_ok [OF sample_inv sample_lookup(1), of "\<lambda>_. None" 5] by (simp add: set_status_def promote_def)
qed

theorem ready_transition_safe_witness:
  "(''p-000001'', ''p-000002'') \<in> set (db_edges (promote 5 ''p-000001'' sample_dag)) \<and>
   (\<exists>u. lookup_row sample_dag ''p-000002'' = Some u \<and> isClosedTask (task_Status u))"
proof -
  have e: "(''p-000001'', ''p-000002'') \<in> set (db_edges (promote 5 ''p-000001'' sample_dag))"
    by (simp add: sample_dag_def)
  have l: "lookup_row (promote 5 ''p-000001'' sample_dag) ''p-000001'' =
      Some (sample_task ''p-000001'' ''open'' 1 []\<lparr>task_Status := ''ready'', task_UpdatedAt := 5\<rparr>)"
    by (simp add: lookup_promote sample_lookup)
  have "\<exists>u. lookup_row sample_dag ''p-000002'' = Some u \<and> isClosedTask (task_Status u)"
    by (rule ready_transition_safe [OF sample_inv _ sample_ready sample_lookup(1) _ l _ e])
       (simp_all add: sample_task_def)
  with e show ?thesis by simp
qed

text \<open>
  C5. Closing a task and calling \<open>AutoUnblockDependents\<close> promotes exactly its open dependents whose
  dependencies are all terminal: each of them becomes ready, each is reported once, and every other
  row and all edges stay as they are.
\<close>

theorem auto_unblock_exact:
  assumes "dag_inv db" and "trim_space c = c" and "c \<noteq> []"
  shows "\<exists>ps db'. AutoUnblockDependents json (Some db) c now = Inr (ps, db') \<and> distinct ps \<and>
    set ps = {i. (i, c) \<in> set (db_edges db) \<and>
      (\<exists>t. lookup_row db i = Some t \<and> task_Status t = ''open'') \<and>
      (\<forall>d. (i, d) \<in> set (db_edges db) \<longrightarrow> (\<exists>u. lookup_row db d = Some u \<and> isClosedTask (task_Status u)))} \<and>
    db_edges db' = db_edges db \<and>
    (\<forall>i. lookup_row db' i =
       (if i \<in> set ps
        then map_option (\<lambda>t. t\<lparr>task_Status := ''ready'', task_UpdatedAt := now\<rparr>) (lookup_row db i)
        else lookup_row db i))"
proof -
  let ?deps = "sort (map fst (filter (\<lambda>e. snd e = c) (db_edges db)))"
  let ?ps = "filter (promotable db) ?deps"
  have "set ?ps = {i. (i, c) \<in> set (db_edges db) \<and> promotable db i}" by force
  then have "set ?ps = {i. (i, c) \<in> set (db_edges db) \<and>
      (\<exists>t. lookup_row db i = Some t \<and> task_Status t = ''open'') \<and>
      (\<forall>d. (i, d) \<in> set (db_edges db) \<longrightarrow> (\<exists>u. lookup_row db d = Some u \<and> isClosedTask (task_Status u)))}"
    by (simp add: promotable_def blocking_deps_Nil [OF assms(1)])
  moreover have "distinct ?ps" using dependents_distinct [OF assms(1)] by simp
  ultimately show ?thesis
    by (intro exI [of _ ?ps] exI [of _ "fold (promote now) ?ps db"])
       (simp add: AutoUnblock_eq [OF assms] lookup_fold_promote)
qed


theorem auto_unblock_exact_witness:
  "\<exists>db'. AutoUnblockDependents (\<lambda>_. None) (Some sample_dag) ''p-000002'' 9 = Inr ([''p-000001''], db')"
proof -
  have t: "trim_space ''p-000002'' = ''p-000002''" and c: "isClosedTask ''done''" by code_simp+
  have e: "set (db_edges sample_dag) = {(''p-000001'', ''p-000002'')}" by (simp add: sample_dag_def)
  from auto_unblock_exact [OF sample_inv t, of "\<lambda>_. None" 9]
  obtain ps db' where r: "AutoUnblockDependents (\<lambda>_. None) (Some sample_dag) ''p-000002'' 9 = Inr (ps, db')"
    and "distinct ps" and s: "set ps = {i. (i, ''p-000002'') \<in> set (db_edges sample_dag) \<and>
      (\<exists>t. lookup_row sample_dag i = Some t \<and> task_Status t = ''open'') \<and>
      (\<forall>d. (i, d) \<in> set (db_edges sample_dag) \<longrightarrow>
         (\<exists>u. lookup_row sample_dag d = Some u \<and> isClosedTask (task_Status u)))}"
    by blast
  have "set ps = {''p-000001''}"
    unfolding s e using sample_lookup c by (auto simp: sample_task_def)
  note ps = \<open>distinct ps\<close> this
  have "length ps = 1" using ps distinct_card [of ps] by simp
  then have "ps = [''p-000001'']" using ps(2) by (cases ps) auto
  with r show ?thesis by simp
qed

text \<open>
  C17. What \<open>CreateTask\<close> stores, \<open>GetTask\<close> returns under the new identifier: the given task with the
  trimmed project, the normalised status and type, no dependencies and the creation time; the
  identifier is fresh, and every other task reads as before.
\<close>

theorem create_get_roundtrip:
  assumes "dag_inv db" and "CreateTask (Some db) t now draws = Inr (i, db')"
  shows "GetTask (Some db') i =
      Inr (t\<lparr>task_ID := i, task_Status := normalizeTaskStatus (task_Status t),
             task_Type := normalizeTaskType (task_Type t), task_Project := trim_space (task_Project t),
             task_DependsOn := [], task_Complexity := 0, task_CreatedAt := now, task_UpdatedAt := now\<rparr>) \<and>
    GetTask (Some db) i = Inl (TaskNotFound i) \<and>
    (\<forall>j. trim_space j \<noteq> i \<longrightarrow> GetTask (Some db') j = GetTask (Some db) j)"
proof -
  note c = CreateTask_ok [OF assms(2)]
  then have fresh: "lookup_row db i = None" by (simp add: lookup_row_None)
  have l: "lookup_row db' j = (if j = i then Some (last (db_tasks db')) else lookup_row db j)" for j
    using c fresh
    by (auto simp: lookup_row_def find_append split: option.splits)
  have e: "db_edges db' = db_edges db" using c by simp
  have "(i, d) \<notin> set (db_edges db)" for d
    using assms(1) c by (auto simp: dag_inv_def)
  then have "taskDependencies db' [i] i = []"
    using e by (auto simp: taskDependencies_def filter_empty_conv)
  then show ?thesis
    using c fresh l e by (auto simp: GetTask_def Let_def taskDependencies_def split: option.splits)
qed

theorem create_get_roundtrip_witness:
  "GetTask (Some sample_dag1) ''p-000001'' = Inr (sample_task ''p-000001'' ''open'' 1 [])"
  using create_get_roundtrip [OF dag_inv_empty sample_creates(1)]
  by (simp add: sample_task_def sample_norms)


text \<open>
  C7. The two implementations of readiness agree: while every edge stays within its project, the
  SQL query of \<open>GetReadyNodes\<close> returns, up to order, the tasks that \<open>FilterUnblockedOpen\<close> selects from
  the tasks of the project over their in-memory dependency graph.
\<close>

theorem ready_nodes_agree:
  assumes "dag_inv db" and "edges_within_project db" and "trim_space p \<noteq> []"
  shows "\<exists>ts rs. ListTasks (Some db) p [] = Inr ts \<and> GetReadyNodes (Some db) p = Inr rs \<and>
    mset rs = mset (FilterUnblockedOpen ts (Some (BuildDepGraph ts)))"
proof -
  let ?rows = "filter (\<lambda>t. task_Project t = trim_space p) (db_tasks db)"
  let ?dep = "\<lambda>t. t\<lparr>task_DependsOn := succs (db_edges db) (task_ID t)\<rparr>"
  let ?ts = "map ?dep ?rows"
  let ?sql = "\<lambda>t. to_lower (task_Status t) = ''ready'' \<and> to_lower (task_Type t) \<notin> {''epic'', ''whale''} \<and>
    \<not> (\<exists>e \<in> set (db_edges db). fst e = task_ID t \<and>
        (\<exists>dep \<in> set (db_tasks db). task_ID dep = snd e \<and> to_lower (task_Status dep) \<notin> set terminal_sql))"
  have ids: "distinct (map task_ID ?ts)"
    using assms(1) by (simp add: dag_inv_def comp_def distinct_map_filter)
  have sel: "isDispatchableTask (?dep t) \<and> \<not> isContainerTask (?dep t) \<and> allDepsClosed (?dep t) (Some (BuildDepGraph ?ts))
      \<longleftrightarrow> ?sql t" if t: "t \<in> set ?rows" for t
    using ready_row_iff [OF assms(1,2)] t by simp
  have "filter (\<lambda>t. isDispatchableTask (?dep t) \<and> \<not> isContainerTask (?dep t) \<and>
      allDepsClosed (?dep t) (Some (BuildDepGraph ?ts))) ?rows = filter ?sql ?rows"
    using sel by (intro filter_cong) simp_all
  then have "mset (FilterUnblockedOpen ?ts (Some (BuildDepGraph ?ts))) = mset (map ?dep (filter ?sql ?rows))"
    unfolding FilterUnblockedOpen_mset filter_map comp_def by (simp only:)
  moreover have "ListTasks (Some db) p [] = Inr ?ts"
    using assms(3) by (simp add: ListTasks_def normalizeStatusFilters_def attach_deps_succs)
  moreover have "GetReadyNodes (Some db) p = Inr (map ?dep (sort_slice sql_ready_less (filter ?sql ?rows)))"
    using assms(3) by (simp add: GetReadyNodes_def attach_deps_succs conj_commute)
  ultimately show ?thesis by simp
qed


theorem ready_nodes_agree_witness:
  "\<exists>ts rs. ListTasks (Some sample_dag) ''p'' [] = Inr ts \<and> GetReadyNodes (Some sample_dag) ''p'' = Inr rs \<and>
    mset rs = mset (FilterUnblockedOpen ts (Some (BuildDepGraph ts)))"
  by (rule ready_nodes_agree [OF sample_inv])
     (simp_all add: edges_within_project_def sample_dag_def sample_task_def sample_norms)

text \<open>A first task that waits for the second one; a ready one, and the second one moved to project \<open>q\<close>.\<close>

definition waiting_dag :: dag_db where
  "waiting_dag = \<lparr>db_tasks = [sample_task ''p-000001'' ''open'' 1 [], sample_task ''p-000002'' ''running'' 2 []],
                  db_edges = [(''p-000001'', ''p-000002'')]\<rparr>"

definition joined_dag :: dag_db where
  "joined_dag = \<lparr>db_tasks = [sample_task ''p-000001'' ''ready'' 1 [], sample_task ''p-000002'' ''done'' 2 []],
                 db_edges = [(''p-000001'', ''p-000002'')]\<rparr>"

definition moved_dag :: dag_db where
  "moved_dag = \<lparr>db_tasks = [sample_task ''p-000001'' ''ready'' 1 [], (sample_task ''p-000002'' ''done'' 2 [])\<lparr>task_Project := ''q''\<rparr>],
                  db_edges = [(''p-000001'', ''p-000002'')]\<rparr>"

text \<open>
  Without the condition on the keys the readiness gate can be passed by: the keys \<open>status\<close> and
  \<open>Status\<close> name one column, the gate looks at the first assignment and the database keeps the
  last one, so a task becomes ready while its dependency is running.
\<close>

theorem ready_gate_bypassed:
  "\<exists>db'. UpdateTask (\<lambda>_. None) (Some waiting_dag) ''p-000001''
        [(''status'', VString ''open''), (''Status'', VString ''ready'')] 5 = Inr db' \<and>
     map_option task_Status (lookup_row db' ''p-000001'') = Some ''ready'' \<and>
     blocking_deps db' ''p-000001'' = [(''p-000002'', ''running'')]"
proof -
  let ?db = "waiting_dag\<lparr>db_tasks := [(sample_task ''p-000001'' ''ready'' 1 [])\<lparr>task_UpdatedAt := 5\<rparr>,
                                     sample_task ''p-000002'' ''running'' 2 []]\<rparr>"
  have "UpdateTask (\<lambda>_. None) (Some waiting_dag) ''p-000001''
        [(''status'', VString ''open''), (''Status'', VString ''ready'')] 5 = Inr ?db"
    by code_simp
  moreover have "map_option task_Status (lookup_row ?db ''p-000001'') = Some ''ready''"
    "blocking_deps ?db ''p-000001'' = [(''p-000002'', ''running'')]"
    by code_simp+
  ultimately show ?thesis by blast
qed

text \<open>
  Moving a task to another project by \<open>UpdateTask\<close> leaves an edge across projects, which
  \<open>AddEdge\<close> would refuse, and the two implementations of readiness then disagree: the SQL
  query sees the dependency as done, the in-memory filter does not find it.
\<close>

theorem moved_task_disagrees:
  "UpdateTask (\<lambda>_. None) (Some joined_dag) ''p-000002'' [(''project'', VString ''q'')] 0 = Inr moved_dag \<and>
   (\<exists>ts rs. ListTasks (Some moved_dag) ''p'' [] = Inr ts \<and> GetReadyNodes (Some moved_dag) ''p'' = Inr rs \<and>
     map task_ID rs = [''p-000001''] \<and> FilterUnblockedOpen ts (Some (BuildDepGraph ts)) = [] \<and>
     \<not> edges_within_project moved_dag \<and>
     AddEdge (Some (moved_dag\<lparr>db_edges := []\<rparr>)) ''p-000001'' ''p-000002'' = Some (Inl CrossProjectEdge))"
proof -
  let ?t = "sample_task ''p-000001'' ''ready'' 1 [''p-000002'']"
  have "ListTasks (Some moved_dag) ''p'' [] = Inr [?t]" "GetReadyNodes (Some moved_dag) ''p'' = Inr [?t]"
    "FilterUnblockedOpen [?t] (Some (BuildDepGraph [?t])) = []"
    by code_simp+
  moreover have "UpdateTask (\<lambda>_. None) (Some joined_dag) ''p-000002'' [(''project'', VString ''q'')] 0 = Inr moved_dag"
    by code_simp
  moreover have "\<not> edges_within_project moved_dag"
    by (simp add: edges_within_project_def moved_dag_def sample_task_def)
  moreover have "AddEdge (Some (moved_dag\<lparr>db_edges := []\<rparr>)) ''p-000001'' ''p-000002'' = Some (Inl CrossProjectEdge)"
  proof -
    have "trim_space ''p-000001'' = ''p-000001''" "trim_space ''p-000002'' = ''p-000002''" by code_simp+
    then show ?thesis by (simp add: AddEdge_def taskProject_def lookup_row_def moved_dag_def sample_task_def)
  qed
  ultimately show ?thesis by (simp add: sample_task_def)
qed


end
