(* ===== verification/Cross_Graph.thy ===== *)
theory Cross_Graph
  imports Task_Dag
begin

text \<open>
  Dependencies across projects, \<open>internal/graph/cross.go\<close>: the syntax \<open>project:task\<close>, the index of
  the tasks of several projects, and the selection of the tasks whose local and remote dependencies
  are all closed. A \<open>*CrossProjectGraph\<close> is an option, \<open>None\<close> the nil pointer; the map of projects
  given to \<open>BuildCrossProjectGraph\<close> is the list of its keys in iteration order.
\<close>

section \<open>Definitions\<close>

definition ParseCrossDep :: "string \<Rightarrow> string \<times> string \<times> bool" where
  "ParseCrossDep depID =
     (case index_byte depID (CHR '':'') of
        None \<Rightarrow> ([], depID, False)
      | Some idx \<Rightarrow> (take idx depID, drop (idx + 1) depID, True))"

record crossdep =
  cd_Project :: string
  cd_TaskID :: string

type_synonym crossgraph = "string \<rightharpoonup> (string \<rightharpoonup> task)"

definition index_tasks :: "task list \<Rightarrow> (string \<rightharpoonup> task)" where
  "index_tasks tasks = fold (\<lambda>t m. m(task_ID t \<mapsto> t)) tasks Map.empty"

fun build_cross :: "dag_db option \<Rightarrow> string list \<Rightarrow> crossgraph \<Rightarrow> crossgraph dag_result" where
  "build_cross d [] cpg = Inr cpg"
| "build_cross d (name # names) cpg =
     (case ListTasks d name [] of
        Inl e \<Rightarrow> Inl e
      | Inr tasks \<Rightarrow> build_cross d names (cpg(name \<mapsto> index_tasks tasks)))"

definition BuildCrossProjectGraph :: "dag_db option \<Rightarrow> string list \<Rightarrow> crossgraph dag_result" where
  "BuildCrossProjectGraph d projects = build_cross d projects Map.empty"

definition IsCrossDepResolved :: "crossgraph option \<Rightarrow> string \<Rightarrow> string \<Rightarrow> bool" where
  "IsCrossDepResolved cpg project taskID =
     (case cpg of None \<Rightarrow> False
      | Some ps \<Rightarrow> (case ps project of None \<Rightarrow> False
          | Some tasks \<Rightarrow> (case tasks taskID of None \<Rightarrow> False | Some t \<Rightarrow> isClosedTask (task_Status t))))"

fun cross_blockers :: "string list \<Rightarrow> crossdep list" where
  "cross_blockers [] = []"
| "cross_blockers (d # ds) =
     (case ParseCrossDep d of (p, i, isCross) \<Rightarrow>
        if isCross then \<lparr>cd_Project = p, cd_TaskID = i\<rparr> # cross_blockers ds else cross_blockers ds)"

definition GetCrossProjectBlockers :: "task \<Rightarrow> crossdep list" where
  "GetCrossProjectBlockers t = cross_blockers (task_DependsOn t)"

definition cross_dep_closed :: "depgraph option \<Rightarrow> crossgraph option \<Rightarrow> string \<Rightarrow> bool" where
  "cross_dep_closed localGraph crossGraph depID =
     (case ParseCrossDep depID of (project, taskID, isCross) \<Rightarrow>
        if isCross then IsCrossDepResolved crossGraph project taskID
        else (case localGraph of None \<Rightarrow> False
              | Some g \<Rightarrow> (case dg_nodes g depID of None \<Rightarrow> False
                            | Some dep \<Rightarrow> isClosedTask (task_Status dep))))"

definition allDepsClosedCross :: "task \<Rightarrow> depgraph option \<Rightarrow> crossgraph option \<Rightarrow> bool" where
  "allDepsClosedCross t localGraph crossGraph =
     (let depIDs = (case localGraph of
                      None \<Rightarrow> task_DependsOn t
                    | Some g \<Rightarrow> if dg_nodes g (task_ID t) \<noteq> None then DependsOnIDs localGraph (task_ID t)
                                else task_DependsOn t)
      in list_all (cross_dep_closed localGraph crossGraph) depIDs)"

definition FilterUnblockedCrossProject ::
  "task list \<Rightarrow> depgraph option \<Rightarrow> crossgraph option \<Rightarrow> task list" where
  "FilterUnblockedCrossProject tasks localGraph crossGraph =
     sort_slice task_less
       (filter (\<lambda>t. \<not> (\<not> isDispatchableTask t \<or> isContainerTask t) \<and>
                    allDepsClosedCross t localGraph crossGraph) tasks)"

section \<open>The selection contract\<close>

interpretation crossing: task_selection
  "\<lambda>t. allDepsClosedCross t g c" "\<lambda>ts. FilterUnblockedCrossProject ts g c" for g c
  by (unfold_locales, simp add: FilterUnblockedCrossProject_def, unfold FilterUnblockedCrossProject_def,
      rule task_order.sorted_sort_slice)

lemma ParseCrossDep_local: "CHR '':'' \<notin> set d \<Longrightarrow> ParseCrossDep d = ([], d, False)"
  by (simp add: ParseCrossDep_def flip: index_byte_None)

lemma index_byte_append:
  "b \<notin> set p \<Longrightarrow> index_byte (p @ b # i) b = Some (length p)"
  by (induction p) auto

lemma ParseCrossDep_cross: "CHR '':'' \<notin> set p \<Longrightarrow> ParseCrossDep (p @ '':'' @ i) = (p, i, True)"
  by (simp add: ParseCrossDep_def index_byte_append)

lemma fold_index_tasks:
  "fold (\<lambda>t m. m(task_ID t \<mapsto> t)) ts m = m ++ map_of (rev (map (\<lambda>t. (task_ID t, t)) ts))"
  by (induction ts arbitrary: m) (auto simp: map_add_def fun_eq_iff split: option.splits)

lemma index_tasks_distinct:
  assumes "distinct (map task_ID ts)"
  shows "index_tasks ts i = Some t \<longleftrightarrow> t \<in> set ts \<and> task_ID t = i"
proof -
  have "index_tasks ts = dg_nodes (BuildDepGraph ts)"
    by (simp add: index_tasks_def fold_index_tasks build_nodes)
  then show ?thesis using build_nodes_distinct [OF assms] by simp
qed

lemma build_cross_ok:
  assumes "build_cross d names cpg = Inr cpg'"
  shows "name \<in> set names \<Longrightarrow> \<exists>ts. ListTasks d name [] = Inr ts \<and> cpg' name = Some (index_tasks ts)"
    and "name \<notin> set names \<Longrightarrow> cpg' name = cpg name"
  using assms
  by (induction d names cpg rule: build_cross.induct) (auto split: sum.splits, (metis fun_upd_same)+)

lemma ListTasks_all:
  "ListTasks (Some db) p [] =
     (if trim_space p = [] then Inl ProjectRequired
      else Inr (map (\<lambda>t. t\<lparr>task_DependsOn := succs (db_edges db) (task_ID t)\<rparr>)
             (filter (\<lambda>t. task_Project t = trim_space p) (db_tasks db))))"
  by (simp add: ListTasks_def normalizeStatusFilters_def attach_deps_succs)

section \<open>Properties\<close>

text \<open>
  \<open>ParseCrossDep\<close> inverts the syntax \<open>project:task\<close>: the project is what precedes the first
  colon, so a project name without a colon and any task identifier come back unchanged, and a
  text without a colon is a local dependency.
\<close>

theorem parse_cross_roundtrip:
  assumes "CHR '':'' \<notin> set p"
  shows "ParseCrossDep (p @ '':'' @ i) = (p, i, True) \<and> ParseCrossDep p = ([], p, False)"
  using assms ParseCrossDep_cross ParseCrossDep_local by blast

theorem parse_cross_roundtrip_witness:
  "ParseCrossDep ''api:web:7'' = (''api'', ''web:7'', True)"
  using parse_cross_roundtrip [of "''api''" "''web:7''"] by simp

text \<open>
  Without cross-project dependencies, over a local graph, the cross-project selection is the
  local one, whatever the index of other projects holds.
\<close>

theorem cross_selection_local:
  assumes "\<And>t d. t \<in> set ts \<Longrightarrow> d \<in> set (DependsOnIDs (Some g) (task_ID t)) \<union> set (task_DependsOn t)
             \<Longrightarrow> CHR '':'' \<notin> set d"
  shows "FilterUnblockedCrossProject ts (Some g) c = FilterUnblockedOpen ts (Some g)"
proof -
  have "allDepsClosedCross t (Some g) c = allDepsClosed t (Some g)" if "t \<in> set ts" for t
    using assms [OF that]
    by (auto simp: allDepsClosedCross_def allDepsClosed_def cross_dep_closed_def Let_def ParseCrossDep_local
        list_all_iff)
  then show ?thesis
    unfolding FilterUnblockedCrossProject_def FilterUnblockedOpen_def by (simp cong: filter_cong)
qed

theorem cross_selection_local_witness:
  "FilterUnblockedCrossProject [sample_task ''a'' ''ready'' 1 []] (Some (BuildDepGraph [])) None =
     FilterUnblockedOpen [sample_task ''a'' ''ready'' 1 []] (Some (BuildDepGraph []))"
  by (rule cross_selection_local) (simp add: sample_task_def build_forward)

text \<open>
  C18. A cross-project dependency counts as resolved over the graph built from the database exactly
  when the project was asked for and a stored task of that project with that identifier has a
  terminal status.
\<close>

theorem cross_dep_resolved_iff:
  assumes "dag_inv db" and "BuildCrossProjectGraph (Some db) names = Inr cpg"
  shows "IsCrossDepResolved (Some cpg) p i \<longleftrightarrow>
    p \<in> set names \<and> (\<exists>t. lookup_row db i = Some t \<and> task_Project t = trim_space p \<and> isClosedTask (task_Status t))"
proof (cases "p \<in> set names")
  case False
  then have "cpg p = None" using build_cross_ok(2) [of "Some db" names Map.empty cpg p] assms(2)
    by (simp add: BuildCrossProjectGraph_def)
  then show ?thesis using False by (simp add: IsCrossDepResolved_def)
next
  case True
  then obtain ts where ts: "ListTasks (Some db) p [] = Inr ts" and cpg: "cpg p = Some (index_tasks ts)"
    using build_cross_ok(1) [of "Some db" names Map.empty cpg p] assms(2)
    by (auto simp: BuildCrossProjectGraph_def)
  let ?dep = "\<lambda>t. t\<lparr>task_DependsOn := succs (db_edges db) (task_ID t)\<rparr>"
  have ts': "ts = map ?dep (filter (\<lambda>t. task_Project t = trim_space p) (db_tasks db))"
    using ts by (auto simp: ListTasks_all split: if_splits)
  then have "distinct (map task_ID ts)"
    using assms(1) by (simp add: dag_inv_def comp_def distinct_map_filter)
  then have idx: "index_tasks ts i = Some t \<longleftrightarrow> t \<in> set ts \<and> task_ID t = i" for t
    by (rule index_tasks_distinct)
  have "IsCrossDepResolved (Some cpg) p i \<longleftrightarrow> (\<exists>t. index_tasks ts i = Some t \<and> isClosedTask (task_Status t))"
    using cpg by (simp add: IsCrossDepResolved_def split: option.split)
  also have "\<dots> \<longleftrightarrow> (\<exists>t \<in> set ts. task_ID t = i \<and> isClosedTask (task_Status t))"
    using idx by blast
  also have "\<dots> \<longleftrightarrow> (\<exists>t \<in> set (db_tasks db). task_ID t = i \<and> task_Project t = trim_space p \<and> isClosedTask (task_Status t))"
    by (auto simp: ts')
  finally show ?thesis using True lookup_row_Some [OF assms(1)] by auto
qed

theorem cross_dep_resolved_iff_witness:
  "\<exists>cpg. BuildCrossProjectGraph (Some sample_dag) [''p''] = Inr cpg \<and> IsCrossDepResolved (Some cpg) ''p'' ''p-000002''"
proof -
  obtain cpg where c: "BuildCrossProjectGraph (Some sample_dag) [''p''] = Inr cpg"
    by (simp add: BuildCrossProjectGraph_def ListTasks_all sample_norms)
  have "isClosedTask ''done''" by code_simp
  then have "IsCrossDepResolved (Some cpg) ''p'' ''p-000002''"
    using cross_dep_resolved_iff [OF sample_inv c] by (simp add: sample_lookup sample_norms sample_task_def)
  with c show ?thesis by blast
qed

end
