(* ===== verification/Failure_Classifier.thy ===== *)
theory Failure_Classifier
  imports Complex_Main Chum_Prelude
begin

text \<open>
  The judgement layer of \<open>internal/temporal\<close>: the classification of failed checks
  (\<open>failure_classifier.go\<close>), of tasks into species (\<open>species.go\<close>), and the complexity score
  (\<open>complexity.go\<close>). The functions work on texts only. The loop of \<open>detectDominantLanguage\<close> ranges
  over a Go map, whose order is unspecified: the order is the argument \<open>order\<close>.
\<close>

section \<open>Failures\<close>

definition contains_any :: "string \<Rightarrow> string list \<Rightarrow> bool" where
  "contains_any s ps = list_ex (contains_str s) ps"

definition infraPatterns :: "string list" where
  "infraPatterns =
     [''parallel golangci-lint is running'', ''golangci-lint exit 3'', ''golangci-lint exit -1'',
      ''semgrep exit 7'', ''exit -1'', ''error obtaining vcs status'', ''command not found'',
      ''no such file or directory'', ''permission denied'', ''no space left on device'',
      ''disk quota exceeded'', ''git lock'', ''index.lock'', ''unable to create'',
      ''fatal: unable to access'']"

definition isInfrastructureFailure :: "string \<Rightarrow> bool" where
  "isInfrastructureFailure lower = contains_any lower infraPatterns"

definition transientPatterns :: "string list" where
  "transientPatterns = [''parallel golangci-lint is running'', ''git lock'', ''index.lock'', ''unable to create'']"

definition isTransientInfraFailure :: "string \<Rightarrow> bool" where
  "isTransientInfraFailure lower = contains_any lower transientPatterns"

definition extractInfraReason :: "string \<Rightarrow> string" where
  "extractInfraReason lower =
     (if contains_str lower ''parallel golangci-lint''
        then ''golangci-lint parallel lock (another instance running)''
      else if contains_str lower ''golangci-lint'' \<and> contains_str lower ''exit 3''
        then ''golangci-lint config/runtime error (exit 3)''
      else if contains_str lower ''semgrep'' \<and> contains_str lower ''exit 7''
        then ''semgrep config/download error (exit 7)''
      else if contains_str lower ''command not found'' then ''required tool not found in PATH''
      else if contains_any lower [''no space left'', ''disk quota''] then ''disk full''
      else if contains_any lower [''git lock'', ''index.lock''] then ''git lock contention''
      else ''infrastructure/environment error'')"

fun first_line :: "string list \<Rightarrow> string" where
  "first_line [] = []"
| "first_line (l # ls) =
     (let line = trim_space l
      in if line \<noteq> [] then (if 200 < length line then take 200 line @ ''...'' else line)
         else first_line ls)"

definition extractFirstLine :: "string \<Rightarrow> string" where
  "extractFirstLine s = first_line (split_on (CHR 0x0A) s)"

definition triple_summary :: string where
  "triple_summary =
     ''Triple DoD fail (test+vet+lint) '' @ [CHR 0xE2, CHR 0x80, CHR 0x94] @ '' code does not compile''"

definition classifyFailure :: "string \<Rightarrow> string \<times> string" where
  "classifyFailure failures =
     (let lower = to_lower failures
      in if isInfrastructureFailure lower then (''infrastructure_failure'', extractInfraReason lower)
         else if contains_any lower [''heartbeat timeout'', ''starttoclose timeout'',
                   ''activity heartbeat timeout'', ''activity starttoclose timeout'']
           then (''activity_timeout'', extractFirstLine failures)
         else if contains_any lower [''undefined:'', ''cannot use'', ''syntax error'', ''does not compile'',
                   ''build failed'', ''compilation failed'']
           then (''compile_error'', extractFirstLine failures)
         else if contains_str lower ''go test'' \<and> contains_str lower ''go vet'' \<and> contains_str lower ''golangci-lint''
           then (''compile_error'', triple_summary)
         else if contains_str lower ''fail'' \<and> (contains_str lower ''test'' \<or> contains_str lower ''--- fail'')
           then (''test_failure'', extractFirstLine failures)
         else if contains_str lower ''golangci-lint'' \<and> contains_str lower ''exit 3''
           then (''lint_config_error'', ''golangci-lint exit 3: config/runtime error (not lint failure)'')
         else if contains_str lower ''golangci-lint'' \<or> contains_str lower ''eslint'' \<or>
                 (contains_str lower ''lint'' \<and> contains_str lower ''error'')
           then (''lint_error'', extractFirstLine failures)
         else if contains_str lower ''timeout'' \<or> (contains_str lower ''exceeded'' \<and> contains_str lower ''time'')
           then (''timeout'', extractFirstLine failures)
         else if contains_any lower [''merge conflict'', ''conflict'']
           then (''merge_conflict'', extractFirstLine failures)
         else if contains_any lower [''scope'', ''out-of-scope'', ''drift'']
           then (''scope_drift'', extractFirstLine failures)
         else if contains_any lower [''execute error'', ''executeactivity'']
           then (''execution_error'', extractFirstLine failures)
         else if failures \<noteq> [] then (''dod_check_failed'', extractFirstLine failures)
         else ([], []))"

section \<open>Species\<close>

text \<open>\<open>filepath.Ext\<close>: from the last dot of the last path element.\<close>

fun ext_rev :: "string \<Rightarrow> string \<Rightarrow> string" where
  "ext_rev [] acc = []"
| "ext_rev (c # cs) acc =
     (if c = CHR ''/'' then [] else if c = CHR ''.'' then CHR ''.'' # acc else ext_rev cs (c # acc))"

definition file_ext :: "string \<Rightarrow> string" where
  "file_ext f = ext_rev (rev f) []"

definition lang_of :: "string \<Rightarrow> string" where
  "lang_of f =
     (let ext = trim_prefix (file_ext f) ''.''
      in if ext = ''go'' then ''go''
         else if ext \<in> {''tsx'', ''jsx''} then ''react''
         else if ext \<in> {''ts'', ''js''} then ''js''
         else if ext = ''py'' then ''python''
         else if ext = ''rs'' then ''rust''
         else if ext \<in> {''toml'', ''yaml'', ''yml'', ''json''} then ''config''
         else if ext \<in> {''md'', ''txt''} then ''docs''
         else if ext = ''sql'' then ''sql''
         else if ext \<in> {''sh'', ''bash''} then ''shell''
         else if ext \<in> {''css'', ''scss''} then ''css''
         else if ext = ''html'' then ''html''
         else [])"

text \<open>The map of counts as a function that is 0 at the languages it does not hold.\<close>

definition lang_counts :: "string list \<Rightarrow> string \<Rightarrow> nat" where
  "lang_counts files = fold (\<lambda>f c. if lang_of f = [] then c else c(lang_of f := c (lang_of f) + 1)) files (\<lambda>_. 0)"

fun best_lang :: "(string \<Rightarrow> nat) \<Rightarrow> string list \<Rightarrow> string \<Rightarrow> nat \<Rightarrow> string" where
  "best_lang counts [] best bestCount = best"
| "best_lang counts (l # ls) best bestCount =
     (if bestCount < counts l then best_lang counts ls l (counts l) else best_lang counts ls best bestCount)"

definition detectDominantLanguage :: "string list \<Rightarrow> string list \<Rightarrow> string" where
  "detectDominantLanguage order files = best_lang (lang_counts files) order [] 0"

definition type_patterns :: "(string list \<times> string) list" where
  "type_patterns =
     [([''test'', ''spec''], ''test''),
      ([''lint'', ''vet'', ''golangci''], ''lint''),
      ([''refactor'', ''rename'', ''extract''], ''refactor''),
      ([''fix'', ''bug'', ''error'', ''crash''], ''bugfix''),
      ([''json'', ''parse'', ''sanitize'', ''marshal'', ''unmarshal''], ''json-parsing''),
      ([''migrate'', ''migration'', ''schema''], ''migration''),
      ([''component'', ''widget'', ''ui''], ''component''),
      ([''api'', ''endpoint'', ''route'', ''handler''], ''api''),
      ([''deploy'', ''ci'', ''cd'', ''pipeline''], ''devops''),
      ([''doc'', ''readme'', ''comment''], ''docs''),
      ([''security'', ''auth'', ''token'', ''cve''], ''security'')]"

fun first_type :: "string \<Rightarrow> (string list \<times> string) list \<Rightarrow> string" where
  "first_type combined [] = []"
| "first_type combined ((kws, ty) # ps) = (if contains_any combined kws then ty else first_type combined ps)"

definition detectTaskType :: "string \<Rightarrow> string \<Rightarrow> string" where
  "detectTaskType taskID prompt = first_type (to_lower (taskID @ '' '' @ prompt)) type_patterns"

definition classifySpecies :: "string list \<Rightarrow> string \<Rightarrow> string \<Rightarrow> string list \<Rightarrow> string" where
  "classifySpecies order taskID prompt files =
     (let lang = detectDominantLanguage order files; taskType = detectTaskType taskID prompt
      in if lang \<noteq> [] then (if taskType \<noteq> [] then lang @ ''-'' @ taskType else lang @ ''-general'')
         else if taskType \<noteq> [] then taskType
         else ''general'')"

section \<open>Complexity\<close>

definition go_div :: "int \<Rightarrow> int \<Rightarrow> int" where
  "go_div a b = sgn a * sgn b * (\<bar>a\<bar> div \<bar>b\<bar>)"

definition highComplexityKeywords :: "string list" where
  "highComplexityKeywords =
     [''architect'', ''design'', ''refactor'', ''rewrite'', ''migration'', ''security'', ''concurrency'',
      ''race condition'', ''protocol'', ''consensus'', ''authentication'', ''authorization'', ''distributed'']"

definition ScoreTaskComplexity :: "string \<Rightarrow> string \<Rightarrow> string \<Rightarrow> int \<Rightarrow> int" where
  "ScoreTaskComplexity title prompt acceptance estimateMinutes =
     (let score1 = min 40 (go_div estimateMinutes 6);
          combined = to_lower (title @ '' '' @ prompt @ '' '' @ acceptance);
          keywordScore = min 40 (10 * int (length (filter (contains_str combined) highComplexityKeywords)));
          score2 = score1 + keywordScore;
          promptLen = length prompt;
          score3 = (if 2000 < promptLen then score2 + 20
                    else if 1000 < promptLen then score2 + 10
                    else if 500 < promptLen then score2 + 5 else score2)
      in min 100 score3)"

section \<open>Lemmas\<close>

lemma transient_infra: "isTransientInfraFailure s \<Longrightarrow> isInfrastructureFailure s"
  by (auto simp: isTransientInfraFailure_def isInfrastructureFailure_def contains_any_def
      transientPatterns_def infraPatterns_def)

definition infra_reasons :: "string list" where
  "infra_reasons =
     [''golangci-lint parallel lock (another instance running)'', ''golangci-lint config/runtime error (exit 3)'',
      ''semgrep config/download error (exit 7)'', ''required tool not found in PATH'', ''disk full'',
      ''git lock contention'', ''infrastructure/environment error'']"

lemma extractInfraReason_in: "extractInfraReason s \<in> set infra_reasons"
  by (simp add: extractInfraReason_def infra_reasons_def)

lemma length_first_line: "length (first_line ls) \<le> 203"
  by (induction ls) (auto simp: Let_def)

lemma length_extractFirstLine: "length (extractFirstLine s) \<le> 203"
  by (simp add: extractFirstLine_def length_first_line)

lemma contains_any_Nil: "[] \<notin> set ps \<Longrightarrow> \<not> contains_any [] ps"
  by (auto simp: contains_any_def list_ex_iff)

lemma classify_cases:
  "classifyFailure s \<in>
     {(''infrastructure_failure'', extractInfraReason (to_lower s)), (''compile_error'', triple_summary),
      (''lint_config_error'', ''golangci-lint exit 3: config/runtime error (not lint failure)''), ([], [])} \<union>
     {(c, extractFirstLine s) | c. c \<in> set [''activity_timeout'', ''compile_error'', ''test_failure'', ''lint_error'',
        ''timeout'', ''merge_conflict'', ''scope_drift'', ''execution_error'', ''dod_check_failed'']}"
  unfolding classifyFailure_def Let_def by simp

lemma best_lang_max:
  assumes "counts best = bestCount"
  shows "best_lang counts ls best bestCount \<in> insert best (set ls) \<and>
    (\<forall>l \<in> insert best (set ls). counts l \<le> counts (best_lang counts ls best bestCount))"
  using assms
proof (induction ls arbitrary: best bestCount)
  case (Cons l ls)
  show ?case
  proof (cases "bestCount < counts l")
    case True
    then show ?thesis using Cons.IH [of l "counts l"] Cons.prems by (auto intro: order_trans less_imp_le)
  next
    case False
    then show ?thesis using Cons.IH [OF Cons.prems] Cons.prems by (auto intro: order_trans)
  qed
qed simp

lemma lang_counts_fold:
  "fold (\<lambda>f c. if lang_of f = [] then c else c(lang_of f := c (lang_of f) + 1)) files c l =
     c l + (if l = [] then 0 else length (filter (\<lambda>f. lang_of f = l) files))"
  by (induction files arbitrary: c) auto

text \<open>The specification of the counts: the files of the language.\<close>

lemma lang_counts_eq: "lang_counts files l = (if l = [] then 0 else length (filter (\<lambda>f. lang_of f = l) files))"
  by (simp add: lang_counts_def lang_counts_fold)

lemma dominant_max:
  assumes "set order = {l. 0 < lang_counts files l}"
  shows "lang_counts files l \<le> lang_counts files (detectDominantLanguage order files)"
proof (cases "l \<in> set order")
  case True
  then show ?thesis
    using best_lang_max [of "lang_counts files" "[]" 0 order]
    by (simp add: detectDominantLanguage_def lang_counts_eq)
next
  case False
  then show ?thesis using assms by simp
qed

section \<open>Properties\<close>


text \<open>
  The complexity score is at most 100, and at least 0 for a task whose estimate is not
  negative.
\<close>

theorem complexity_bounds:
  "ScoreTaskComplexity title prompt acceptance est \<le> 100 \<and>
   (0 \<le> est \<longrightarrow> 0 \<le> ScoreTaskComplexity title prompt acceptance est)"
proof -
  have "0 \<le> go_div est 6" if "0 \<le> est" using that by (simp add: go_div_def sgn_if)
  then show ?thesis by (auto simp: ScoreTaskComplexity_def Let_def)
qed

theorem complexity_bounds_witness:
  "0 \<le> (30 :: int) \<and> 0 \<le> ScoreTaskComplexity ''refactor'' [] [] 30"
  using complexity_bounds [of "''refactor''" "[]" "[]" 30] by simp

text \<open>A negative estimate gives a score below the documented range.\<close>

lemma complexity_negative: "ScoreTaskComplexity ''x'' [] [] (- 600) = - 100"
  by code_simp

text \<open>
  The dominant language of a file list is one with the most files; when no other language has
  as many, it does not depend on the order in which the map of counts is traversed.
\<close>

theorem dominant_language_max:
  assumes "set order = {l. 0 < lang_counts files l}"
  shows "lang_counts files l \<le> lang_counts files (detectDominantLanguage order files) \<and>
    ((\<forall>k. k \<noteq> l \<longrightarrow> lang_counts files k < lang_counts files l) \<longrightarrow> detectDominantLanguage order files = l)"
  using dominant_max [OF assms, of l] by (metis not_less)

theorem dominant_language_max_witness:
  "set [''docs'', ''go''] = {l. 0 < lang_counts [''a.go'', ''b.go'', ''c.md''] l} \<and>
   detectDominantLanguage [''docs'', ''go''] [''a.go'', ''b.go'', ''c.md''] = ''go''"
proof -
  have l: "lang_of ''a.go'' = ''go''" "lang_of ''b.go'' = ''go''" "lang_of ''c.md'' = ''docs''" by code_simp+
  have k: "lang_counts [''a.go'', ''b.go'', ''c.md''] k = (if k = ''go'' then 2 else if k = ''docs'' then 1 else 0)" for k
    by (auto simp: lang_counts_eq l)
  then have o: "set [''docs'', ''go''] = {l. 0 < lang_counts [''a.go'', ''b.go'', ''c.md''] l}" by auto
  from dominant_language_max [OF o, of "''go''"] k o show ?thesis by simp
qed

text \<open>On a tie the species depends on the order of the traversal.\<close>

lemma species_tie:
  "classifySpecies [''go'', ''docs''] ''t'' [] [''a.go'', ''c.md''] = ''go-general''"
  "classifySpecies [''docs'', ''go''] ''t'' [] [''a.go'', ''c.md''] = ''docs-general''"
  by code_simp+

end
