(* ===== verification/Agent_Workflow.thy ===== *)
theory Agent_Workflow
  imports Complex_Main Failure_Classifier
begin

text \<open>
  The workflow that carries one task from plan to merge, \<open>ChumAgentWorkflow\<close> of
  \<open>internal/temporal/workflow.go\<close>, with the request and result types of \<open>types.go\<close> and the metadata
  helpers of \<open>search_attributes.go\<close>.

  \<^item> An activity or child workflow is an entry of the trace of events, in the order of the calls.
    What activities return is the environment, a record of functions; those called once per attempt
    take the number of the attempt (\<open>escalationAttempt\<close>). A failed activity is \<open>Inl\<close> its message
    or \<open>None\<close>.
  \<^item> Gates (\<open>awaitResumeGate\<close>) are events of the trace: a workflow that waits at a gate has produced
    the trace up to it. The loop inside the gate is modelled on its own over arriving signals.
  \<^item> Clocks, durations, log lines, notification texts and trace metadata are not modelled; the names
    of notifications, the phases of trace events and the steps with their status are.
  \<^item> Decoding the plan into a value that already holds the previous errors keeps them when the
    activity returns none (\<open>omitempty\<close>).
\<close>

section \<open>Requests and results\<close>

record escalation_tier =
  et_ProviderKey :: string
  et_CLI :: string
  et_Model :: string
  et_Tier :: string
  et_Reviewer :: string
  et_Enabled :: bool

record task_request =
  tr_TaskID :: string
  tr_Project :: string
  tr_Prompt :: string
  tr_TaskTitle :: string
  tr_Agent :: string
  tr_Model :: string
  tr_Reviewer :: string
  tr_WorkDir :: string
  tr_Provider :: string
  tr_Priority :: int
  tr_DoDChecks :: "string list"
  tr_SlowStepThreshold :: int
  tr_EscalationChain :: "escalation_tier list"
  tr_MaxRetriesOverride :: int
  tr_MaxHandoffsOverride :: int
  tr_PreviousErrors :: "string list"
  tr_ExplosionID :: string
  tr_TraceSessionID :: string

record token_usage =
  tu_Input :: int
  tu_Output :: int
  tu_CacheRead :: int
  tu_CacheCreation :: int
  tu_Cost :: rat

definition no_tokens :: token_usage where
  "no_tokens = \<lparr>tu_Input = 0, tu_Output = 0, tu_CacheRead = 0, tu_CacheCreation = 0, tu_Cost = 0\<rparr>"

definition add_tokens :: "token_usage \<Rightarrow> token_usage \<Rightarrow> token_usage" where
  "add_tokens t u =
     \<lparr>tu_Input = tu_Input t + tu_Input u, tu_Output = tu_Output t + tu_Output u,
      tu_CacheRead = tu_CacheRead t + tu_CacheRead u,
      tu_CacheCreation = tu_CacheCreation t + tu_CacheCreation u, tu_Cost = tu_Cost t + tu_Cost u\<rparr>"

record activity_tokens =
  at_Name :: string
  at_Agent :: string
  at_Tokens :: token_usage

record plan_step =
  ps_Description :: string
  ps_File :: string
  ps_Rationale :: string

record structured_plan =
  sp_Summary :: string
  sp_Steps :: "plan_step list"
  sp_FilesToModify :: "string list"
  sp_AcceptanceCriteria :: "string list"
  sp_EstimatedComplexity :: string
  sp_RiskAssessment :: string
  sp_PreviousErrors :: "string list"
  sp_TokenUsage :: token_usage

datatype plan_issue = NoSummary | NoSteps | NoCriteria | NoFiles

definition Validate :: "structured_plan \<Rightarrow> plan_issue list" where
  "Validate p =
     (if sp_Summary p = [] then [NoSummary] else []) @
     (if sp_Steps p = [] then [NoSteps] else []) @
     (if sp_AcceptanceCriteria p = [] then [NoCriteria] else []) @
     (if sp_FilesToModify p = [] then [NoFiles] else [])"

record execution_result =
  er_ExitCode :: int
  er_Output :: string
  er_Agent :: string
  er_Tokens :: token_usage

record review_result =
  rr_Approved :: bool
  rr_Issues :: "string list"
  rr_ReviewerAgent :: string
  rr_Tokens :: token_usage

record check_result =
  cr_Command :: string
  cr_ExitCode :: int
  cr_Output :: string
  cr_Passed :: bool

record dod_result =
  dr_Passed :: bool
  dr_Checks :: "check_result list"
  dr_Failures :: "string list"

record sentinel_result =
  sr_OutOfScopeFiles :: "string list"
  sr_RevertedFiles :: "string list"
  sr_Passed :: bool

record ubs_result =
  ub_TotalFindings :: int
  ub_Critical :: int
  ub_Passed :: bool

record triage_result =
  ft_Decision :: string
  ft_Guidance :: string
  ft_RescopeReason :: string

record outcome_record =
  oc_TaskID :: string
  oc_Project :: string
  oc_Agent :: string
  oc_Reviewer :: string
  oc_Provider :: string
  oc_Status :: string
  oc_ExitCode :: int
  oc_DoDPassed :: bool
  oc_DoDFailures :: string
  oc_TotalTokens :: token_usage
  oc_ActivityTokens :: "activity_tokens list"
  oc_Steps :: "(string \<times> string) list"

section \<open>Normalisation of the request\<close>

definition retriesForTier :: "string \<Rightarrow> int \<Rightarrow> int" where
  "retriesForTier tier override =
     (if 0 < override then override
      else let t = to_lower tier
           in if t = ''fast'' \<or> t = [] then 3
              else if t = ''balanced'' then 2
              else if t = ''premium'' then 1
              else 2)"

definition normalizeTaskTitle :: "string \<Rightarrow> string \<Rightarrow> string \<Rightarrow> string" where
  "normalizeTaskTitle taskID title prompt =
     (if trim_space title \<noteq> [] then trim_space title
      else if trim_space taskID \<noteq> [] then trim_space taskID
      else if trim_space prompt \<noteq> [] then trim_space prompt
      else ''untitled-task'')"

definition normalizePriority :: "int \<Rightarrow> int" where
  "normalizePriority p = (if p < 0 then 0 else if 4 < p then 4 else p)"

definition normalizeSearchMetadataForVisibility :: "task_request \<Rightarrow> task_request" where
  "normalizeSearchMetadataForVisibility req =
     (let agent = trim_space (tr_Agent req); project = trim_space (tr_Project req)
      in req\<lparr>tr_Agent := (if agent = [] then ''claude'' else agent),
             tr_Project := (if project = [] then ''unknown'' else project),
             tr_TaskTitle := normalizeTaskTitle (tr_TaskID req) (tr_TaskTitle req) (tr_Prompt req),
             tr_Priority := normalizePriority (tr_Priority req)\<rparr>)"

text \<open>\<open>providers\<close> gives the configured reviewer of a provider; the workflow passes no table.\<close>

definition DefaultReviewer :: "(string \<rightharpoonup> string) option \<Rightarrow> string \<Rightarrow> string" where
  "DefaultReviewer providers agent =
     (let configured = (case providers of None \<Rightarrow> [] | Some ps \<Rightarrow> (case ps agent of None \<Rightarrow> [] | Some r \<Rightarrow> r))
      in if configured \<noteq> [] then configured
         else if agent = ''claude'' then ''codex'' else if agent = ''codex'' then ''gemini''
         else if agent = ''gemini'' then ''codex'' else ''codex'')"

definition truncate_str :: "string \<Rightarrow> nat \<Rightarrow> string" where
  "truncate_str s n = (if length s \<le> n then s else take n s @ ''...'')"

section \<open>State of a run\<close>

datatype wf_event =
    Search string
  | Notify string
  | Trace string rat bool string
  | Backprop rat
  | Gate
  | SetupWorktree string
  | BugPriming string string
  | ProteinInstructions string
  | PlanCall task_request
  | ExecuteCall string "string list"
  | SentinelScan int
  | CodeReview string
  | UBSScan int
  | DoDVerify
  | FailureTriage "string list" int int
  | AutoFixLint
  | CloseTaskCall string
  | MarkMorselDone
  | UnblockDependents
  | RecordOutcome outcome_record
  | SpawnLearner bool "string list"
  | SpawnGroom
  | MoleculeRetro int
  | RecordProteinFold
  | EvolveGenomeCall string bool
  | PushWorktree
  | MergeToMain string
  | PRReview int
  | CleanupWorktree string
  | EscalateCall int "string list"
  | RecordFailure "string list"

record wf_env =
  ev_worktree :: "string option"
  ev_trace :: "nat \<Rightarrow> string"
  ev_priming :: string
  ev_protein :: string
  ev_plan :: "string + structured_plan"
  ev_execute :: "nat \<Rightarrow> string + execution_result"
  ev_sentinel :: "nat \<Rightarrow> sentinel_result option"
  ev_review :: "nat \<Rightarrow> review_result option"
  ev_ubs :: "nat \<Rightarrow> ubs_result option"
  ev_dod :: "nat \<Rightarrow> string + dod_result"
  ev_triage :: "nat \<Rightarrow> triage_result option"
  ev_merge :: "int option"
  ev_order :: "string list"

record wf_state =
  ws_events :: "wf_event list"
  ws_failures :: "string list"
  ws_infra :: "string list"
  ws_plan :: structured_plan
  ws_attempts :: nat
  ws_tokens :: token_usage
  ws_activity :: "activity_tokens list"
  ws_steps :: "(string \<times> string) list"
  ws_ntrace :: nat
  ws_lastTrace :: string

definition emit :: "wf_event \<Rightarrow> wf_state \<Rightarrow> wf_state" where
  "emit e s = s\<lparr>ws_events := ws_events s @ [e]\<rparr>"

definition fail_with :: "string \<Rightarrow> wf_state \<Rightarrow> wf_state" where
  "fail_with m s = s\<lparr>ws_failures := ws_failures s @ [m]\<rparr>"

definition feed_back :: "string \<Rightarrow> wf_state \<Rightarrow> wf_state" where
  "feed_back m s = s\<lparr>ws_plan := (ws_plan s)\<lparr>sp_PreviousErrors := sp_PreviousErrors (ws_plan s) @ [m]\<rparr>\<rparr>"

definition recordStep :: "string \<Rightarrow> string \<Rightarrow> wf_state \<Rightarrow> wf_state" where
  "recordStep name status s = s\<lparr>ws_steps := ws_steps s @ [(name, status)]\<rparr>"

definition step_name :: "string \<Rightarrow> int \<Rightarrow> string" where
  "step_name phase attempt = phase @ ''['' @ show_int (attempt + 1) @ '']''"

definition recordTrace :: "wf_env \<Rightarrow> string \<Rightarrow> rat \<Rightarrow> bool \<Rightarrow> wf_state \<Rightarrow> wf_state" where
  "recordTrace env phase reward terminal s =
     (let eid = ev_trace env (ws_ntrace s); s1 = emit (Trace phase reward terminal (ws_lastTrace s)) s
      in s1\<lparr>ws_ntrace := Suc (ws_ntrace s), ws_lastTrace := (if eid \<noteq> [] then eid else ws_lastTrace s)\<rparr>)"

definition has_tokens :: "token_usage \<Rightarrow> bool" where
  "has_tokens t = (0 < tu_Input t \<or> 0 < tu_Output t \<or> 0 < tu_Cost t \<or> 0 < tu_CacheRead t \<or> 0 < tu_CacheCreation t)"

text \<open>\<open>agent\<close> is the agent of the request at the time of the call.\<close>

definition resetAttemptTokens :: "string \<Rightarrow> wf_state \<Rightarrow> wf_state" where
  "resetAttemptTokens agent s =
     (let t = sp_TokenUsage (ws_plan s)
      in s\<lparr>ws_tokens := add_tokens no_tokens t,
           ws_activity := (if has_tokens t then [\<lparr>at_Name = ''plan'', at_Agent = agent, at_Tokens = t\<rparr>] else [])\<rparr>)"

definition add_activity :: "string \<Rightarrow> string \<Rightarrow> token_usage \<Rightarrow> wf_state \<Rightarrow> wf_state" where
  "add_activity nm agent t s =
     s\<lparr>ws_tokens := add_tokens (ws_tokens s) t,
       ws_activity := ws_activity s @ [\<lparr>at_Name = nm, at_Agent = agent, at_Tokens = t\<rparr>]\<rparr>"

definition recordOutcome :: "task_request \<Rightarrow> string \<Rightarrow> int \<Rightarrow> bool \<Rightarrow> string \<Rightarrow> wf_state \<Rightarrow> wf_state" where
  "recordOutcome req status exitCode dodPassed dodFailures s =
     emit (RecordOutcome \<lparr>oc_TaskID = tr_TaskID req, oc_Project = tr_Project req, oc_Agent = tr_Agent req,
        oc_Reviewer = tr_Reviewer req, oc_Provider = tr_Provider req, oc_Status = status,
        oc_ExitCode = exitCode, oc_DoDPassed = dodPassed, oc_DoDFailures = dodFailures,
        oc_TotalTokens = ws_tokens s, oc_ActivityTokens = ws_activity s, oc_Steps = ws_steps s\<rparr>) s"

section \<open>Phases of an attempt\<close>

definition nl :: string where
  "nl = [CHR 0x0A]"

definition attempt_label :: "int \<Rightarrow> string" where
  "attempt_label attempt = ''Attempt '' @ show_int (attempt + 1)"

definition execute_phase ::
  "wf_env \<Rightarrow> task_request \<Rightarrow> int \<Rightarrow> wf_state \<Rightarrow> execution_result option \<times> wf_state" where
  "execute_phase env req attempt s0 =
     (let s1 = emit (Notify ''execute'') (s0\<lparr>ws_attempts := Suc (ws_attempts s0)\<rparr>);
          s2 = emit (Search ''execute'') (emit Gate (resetAttemptTokens (tr_Agent req) s1));
          s3 = emit (ExecuteCall (tr_Agent req) (sp_PreviousErrors (ws_plan s2))) s2
      in case ev_execute env (ws_attempts s3) of
           Inl err \<Rightarrow> (None, fail_with (attempt_label attempt @ '' execute error: '' @ err)
                             (recordStep (step_name ''execute'' attempt) ''failed'' s3))
         | Inr r \<Rightarrow> (Some r, emit Gate (recordTrace env ''execute'' (3 / 10) False
                             (recordStep (step_name ''execute'' attempt) ''ok''
                               (add_activity ''execute'' (er_Agent r) (er_Tokens r) s3)))))"

definition sentinel_message :: "sentinel_result \<Rightarrow> string" where
  "sentinel_message r =
     ''SENTINEL: reverted '' @ show_nat (length (sr_RevertedFiles r)) @
     '' out-of-scope file(s) that broke the build: '' @ join_with '', '' (sr_RevertedFiles r) @
     ''. Stay within scope '' @ [CHR 0xE2, CHR 0x80, CHR 0x94] @ '' only modify files listed in the plan.''"

definition sentinel_phase :: "wf_env \<Rightarrow> int \<Rightarrow> wf_state \<Rightarrow> wf_state" where
  "sentinel_phase env attempt s0 =
     (let s1 = emit (SentinelScan (attempt + 1)) s0
      in case ev_sentinel env (ws_attempts s1) of
           None \<Rightarrow> recordStep (step_name ''sentinel'' attempt) ''skipped'' s1
         | Some r \<Rightarrow>
             recordStep (step_name ''sentinel'' attempt) (if sr_Passed r then ''ok'' else ''failed'')
               (if sr_RevertedFiles r \<noteq> [] then feed_back (sentinel_message r) s1 else s1))"

definition review_phase :: "wf_env \<Rightarrow> task_request \<Rightarrow> int \<Rightarrow> wf_state \<Rightarrow> wf_state" where
  "review_phase env req attempt s0 =
     (let reviewer = (if trim_space (tr_Reviewer req) = [] then DefaultReviewer None (tr_Agent req) else tr_Reviewer req);
          s1 = emit (CodeReview reviewer) (emit (Search ''review'') s0)
      in emit Gate
          (case ev_review env (ws_attempts s1) of
             None \<Rightarrow> recordStep (step_name ''review'' attempt) ''skipped'' s1
           | Some r \<Rightarrow>
               (let s2 = add_activity ''review'' (rr_ReviewerAgent r) (rr_Tokens r) s1
                in if \<not> rr_Approved r
                   then recordTrace env ''review'' (- (1 / 10)) False
                          (fail_with (attempt_label attempt @ '': review not approved: '' @ join_with ''; '' (rr_Issues r))
                            (recordStep (step_name ''review'' attempt) ''failed'' s2))
                   else recordTrace env ''review'' (1 / 2) False
                          (recordStep (step_name ''review'' attempt) ''ok'' (emit (Notify ''review_approved'') s2)))))"

text \<open>\<open>False\<close>: critical findings, the attempt is over.\<close>

definition ubs_phase :: "wf_env \<Rightarrow> int \<Rightarrow> wf_state \<Rightarrow> bool \<times> wf_state" where
  "ubs_phase env attempt s0 =
     (let s1 = emit (UBSScan (attempt + 1)) s0
      in case ev_ubs env (ws_attempts s1) of
           None \<Rightarrow> (True, emit Gate (recordStep (step_name ''ubs'' attempt) ''skipped'' s1))
         | Some r \<Rightarrow>
             if \<not> ub_Passed r
             then (False,
                   fail_with (attempt_label attempt @ '': UBS found '' @ show_int (ub_Critical r) @ '' critical issues'')
                     (feed_back (''UBS found '' @ show_int (ub_Critical r) @ '' critical issues (total '' @
                                 show_int (ub_TotalFindings r) @ '' findings)'')
                       (recordStep (step_name ''ubs'' attempt) ''failed'' s1)))
             else (True, emit Gate (recordTrace env ''ubs'' (3 / 5) False
                                     (recordStep (step_name ''ubs'' attempt) ''ok'' s1))))"

text \<open>\<open>None\<close>: the verification itself failed.\<close>

definition dod_phase :: "wf_env \<Rightarrow> int \<Rightarrow> wf_state \<Rightarrow> dod_result option \<times> wf_state" where
  "dod_phase env attempt s0 =
     (let s1 = emit DoDVerify (emit (Search ''dod'') s0)
      in case ev_dod env (ws_attempts s1) of
           Inl err \<Rightarrow> (None, fail_with (attempt_label attempt @ '' DoD error: '' @ err)
                             (recordStep (step_name ''dod'' attempt) ''failed'' s1))
         | Inr r \<Rightarrow> (Some r, s1))"

text \<open>The exit of a successful attempt.\<close>

definition spawnCHUMWorkflows :: "wf_state \<Rightarrow> wf_state" where
  "spawnCHUMWorkflows s = emit SpawnGroom (emit (SpawnLearner True (sp_PreviousErrors (ws_plan s))) s)"

definition protein_fold :: "string \<Rightarrow> int \<Rightarrow> wf_state \<Rightarrow> wf_state" where
  "protein_fold activeProteinID attempt s =
     (if activeProteinID \<noteq> [] then emit RecordProteinFold (emit (MoleculeRetro (attempt + 1)) s) else s)"

definition cleanupWorktree :: "string \<Rightarrow> wf_state \<Rightarrow> wf_state" where
  "cleanupWorktree worktreePath s = (if worktreePath = [] then s else emit (CleanupWorktree worktreePath) s)"

definition propagate :: "wf_env \<Rightarrow> task_request \<Rightarrow> wf_state \<Rightarrow> wf_state" where
  "propagate env req s0 =
     (let s1 = emit (MergeToMain (''chum/'' @ tr_TaskID req)) (emit PushWorktree s0)
      in case ev_merge env of
           None \<Rightarrow> emit (Notify ''conflict'') s1
         | Some prNumber \<Rightarrow> if 0 < prNumber then emit (PRReview prNumber) s1 else s1)"

definition success_phase ::
  "wf_env \<Rightarrow> task_request \<Rightarrow> string \<Rightarrow> string \<Rightarrow> int \<Rightarrow> wf_state \<Rightarrow> wf_state" where
  "success_phase env req worktreePath activeProteinID attempt s0 =
     (let s1 = recordTrace env ''complete'' 1 True
                 (recordTrace env ''dod'' (9 / 10) False (recordStep (step_name ''dod'' attempt) ''ok'' s0));
          s2 = emit (Search ''completed'') (emit (Notify ''complete'') (emit (Notify ''dod_pass'') (emit (Backprop 1) s1)))
      in if tr_ExplosionID req \<noteq> [] then recordOutcome req ''completed'' 0 True [] s2
         else let s3 = emit UnblockDependents (emit MarkMorselDone (emit (CloseTaskCall ''completed'') s2));
                  s4 = protein_fold activeProteinID attempt
                         (spawnCHUMWorkflows (recordOutcome req ''completed'' 0 True [] s3));
                  species = classifySpecies (ev_order env) (tr_TaskID req) (tr_Prompt req)
                              (sp_FilesToModify (ws_plan s4))
              in cleanupWorktree worktreePath
                   (propagate env req (emit (EvolveGenomeCall species True) s4)))"

text \<open>The exit of an attempt whose checks failed.\<close>

text \<open>\<open>BreakLoop True\<close> is a triage that sends the task back for replanning.\<close>

datatype attempt_outcome = Completed | NextAttempt | FreeRetry | BreakLoop bool

definition failed_checks_text :: "dod_result \<Rightarrow> string" where
  "failed_checks_text r =
     ''DoD check failures:'' @ nl @
     concat (map (\<lambda>c. nl @ ''--- FAILED: '' @ cr_Command c @ '' (exit '' @ show_int (cr_ExitCode c) @ '') ---'' @ nl @
                      truncate_str (cr_Output c) 2000 @ nl)
              (filter (\<lambda>c. \<not> cr_Passed c) (dr_Checks r)))"

definition infra_key :: "string \<Rightarrow> string" where
  "infra_key reason = ''infra_retry_'' @ reason"

definition triage_phase ::
  "wf_env \<Rightarrow> int \<Rightarrow> int \<Rightarrow> dod_result \<Rightarrow> wf_state \<Rightarrow> bool \<times> wf_state" where
  "triage_phase env maxRetries attempt r s0 =
     (let s1 = emit (FailureTriage (dr_Failures r) (attempt + 1) maxRetries) s0
      in case ev_triage env (ws_attempts s1) of
           None \<Rightarrow> (False, recordStep (step_name ''triage'' attempt) ''failed'' s1)
         | Some t \<Rightarrow>
             (let s2 = recordStep (step_name ''triage'' attempt) ''ok'' s1
              in if ft_Decision t = ''rescope''
                 then (True, fail_with (''Triage rescope (attempt '' @ show_int (attempt + 1) @ ''): '' @ ft_RescopeReason t) s2)
                 else (False, if ft_Guidance t \<noteq> []
                              then feed_back (''TRIAGE GUIDANCE (from failure analysis): '' @ ft_Guidance t) s2
                              else s2)))"

definition autofix_phase :: "int \<Rightarrow> int \<Rightarrow> wf_state \<Rightarrow> wf_state" where
  "autofix_phase maxRetries attempt s =
     (if attempt + 1 < maxRetries then recordStep (step_name ''autofix'' attempt) ''ok'' (emit AutoFixLint s) else s)"

definition dod_failed_phase ::
  "wf_env \<Rightarrow> int \<Rightarrow> int \<Rightarrow> dod_result \<Rightarrow> wf_state \<Rightarrow> attempt_outcome \<times> wf_state" where
  "dod_failed_phase env maxRetries attempt r s0 =
     (let s1 = recordTrace env ''dod'' (- (1 / 5)) False (recordStep (step_name ''dod'' attempt) ''failed'' s0);
          failureMsg = join_with ''; '' (dr_Failures r);
          lower = to_lower failureMsg;
          reason = extractInfraReason lower
      in if isInfrastructureFailure lower
         then (if isTransientInfraFailure lower \<and> infra_key reason \<notin> set (ws_infra s1)
               then (FreeRetry, emit (Notify ''dod_infra'') (s1\<lparr>ws_infra := infra_key reason # ws_infra s1\<rparr>))
               else (BreakLoop False, fail_with (''INFRASTRUCTURE RESCUE (attempt '' @ show_int (attempt + 1) @ ''): '' @ reason)
                                  (emit (Notify ''rescue'') s1)))
         else (let s2 = emit (Notify ''dod_fail'')
                          (feed_back (failed_checks_text r)
                            (fail_with (attempt_label attempt @ '' DoD failed: '' @ failureMsg) s1))
               in case triage_phase env maxRetries attempt r s2 of
                    (rescope, s3) \<Rightarrow> if rescope then (BreakLoop True, s3)
                                     else (NextAttempt, autofix_phase maxRetries attempt s3)))"

definition run_attempt ::
  "wf_env \<Rightarrow> task_request \<Rightarrow> string \<Rightarrow> string \<Rightarrow> int \<Rightarrow> int \<Rightarrow> wf_state \<Rightarrow> attempt_outcome \<times> wf_state" where
  "run_attempt env req worktreePath activeProteinID maxRetries attempt s0 =
     (case execute_phase env req attempt s0 of
        (None, s1) \<Rightarrow> (NextAttempt, s1)
      | (Some execResult, s1) \<Rightarrow>
          (case ubs_phase env attempt (review_phase env req attempt (sentinel_phase env attempt s1)) of
             (False, s2) \<Rightarrow> (NextAttempt, s2)
           | (True, s2) \<Rightarrow>
               (case dod_phase env attempt s2 of
                  (None, s3) \<Rightarrow> (NextAttempt, s3)
                | (Some r, s3) \<Rightarrow>
                    if dr_Passed r then (Completed, success_phase env req worktreePath activeProteinID attempt s3)
                    else dod_failed_phase env maxRetries attempt r s3)))"


section \<open>Facts about one attempt\<close>

text \<open>Events that settle the task or its resources; the phases of an attempt emit none of them.\<close>

fun is_final :: "wf_event \<Rightarrow> bool" where
  "is_final (CloseTaskCall st) = True"
| "is_final (RecordOutcome oc) = True"
| "is_final (CleanupWorktree p) = True"
| "is_final (RecordFailure fs) = True"
| "is_final (EscalateCall n fs) = True"
| "is_final (MergeToMain b) = True"
| "is_final UnblockDependents = True"
| "is_final e = False"

fun is_execute :: "wf_event \<Rightarrow> bool" where
  "is_execute (ExecuteCall a es) = True"
| "is_execute e = False"

definition finals :: "wf_state \<Rightarrow> wf_event list" where
  "finals s = filter is_final (ws_events s)"

definition executions :: "wf_state \<Rightarrow> nat" where
  "executions s = length (filter is_execute (ws_events s))"

named_theorems wf_frame \<open>what the steps of the workflow leave unchanged\<close>

lemma finals_emit [wf_frame]: "finals (emit e s) = finals s @ (if is_final e then [e] else [])"
  by (simp add: finals_def emit_def)

lemma executions_emit [wf_frame]: "executions (emit e s) = executions s + (if is_execute e then 1 else 0)"
  by (simp add: executions_def emit_def)

lemma finals_frame [wf_frame]:
  "finals (fail_with m s) = finals s" "finals (feed_back m s) = finals s" "finals (recordStep a b s) = finals s"
  "finals (recordTrace env p r t s) = finals s" "finals (resetAttemptTokens a s) = finals s"
  "finals (add_activity a b u s) = finals s" "finals (s\<lparr>ws_attempts := n\<rparr>) = finals s"
  "finals (s\<lparr>ws_infra := is\<rparr>) = finals s"
  by (simp_all add: finals_def fail_with_def feed_back_def recordStep_def recordTrace_def resetAttemptTokens_def
      add_activity_def emit_def Let_def)

lemma executions_frame [wf_frame]:
  "executions (fail_with m s) = executions s" "executions (feed_back m s) = executions s"
  "executions (recordStep a b s) = executions s" "executions (recordTrace env p r t s) = executions s"
  "executions (resetAttemptTokens a s) = executions s" "executions (add_activity a b u s) = executions s"
  "executions (s\<lparr>ws_attempts := n\<rparr>) = executions s" "executions (s\<lparr>ws_infra := is\<rparr>) = executions s"
  by (simp_all add: executions_def fail_with_def feed_back_def recordStep_def recordTrace_def
      resetAttemptTokens_def add_activity_def emit_def Let_def)

lemma infra_frame [wf_frame]:
  "ws_infra (emit e s) = ws_infra s" "ws_infra (fail_with m s) = ws_infra s" "ws_infra (feed_back m s) = ws_infra s"
  "ws_infra (recordStep a b s) = ws_infra s" "ws_infra (recordTrace env p r t s) = ws_infra s"
  "ws_infra (resetAttemptTokens a s) = ws_infra s" "ws_infra (add_activity a b u s) = ws_infra s"
  "ws_infra (s\<lparr>ws_attempts := n\<rparr>) = ws_infra s"
  by (simp_all add: fail_with_def feed_back_def recordStep_def recordTrace_def resetAttemptTokens_def
      add_activity_def emit_def Let_def)

lemma attempts_frame [wf_frame]:
  "ws_attempts (emit e s) = ws_attempts s" "ws_attempts (fail_with m s) = ws_attempts s"
  "ws_attempts (feed_back m s) = ws_attempts s" "ws_attempts (recordStep a b s) = ws_attempts s"
  "ws_attempts (recordTrace env p r t s) = ws_attempts s" "ws_attempts (resetAttemptTokens a s) = ws_attempts s"
  "ws_attempts (add_activity a b u s) = ws_attempts s" "ws_attempts (s\<lparr>ws_infra := is\<rparr>) = ws_attempts s"
  by (simp_all add: fail_with_def feed_back_def recordStep_def recordTrace_def resetAttemptTokens_def
      add_activity_def emit_def Let_def)

lemma execute_frame:
  assumes "execute_phase env req attempt s = (r, s')"
  shows "finals s' = finals s" "executions s' = Suc (executions s)" "ws_infra s' = ws_infra s"
    "ws_attempts s' = Suc (ws_attempts s)"
  using assms by (auto simp: execute_phase_def Let_def wf_frame split: sum.splits)

lemma sentinel_frame [wf_frame]:
  "finals (sentinel_phase env attempt s) = finals s" "executions (sentinel_phase env attempt s) = executions s"
  "ws_infra (sentinel_phase env attempt s) = ws_infra s" "ws_attempts (sentinel_phase env attempt s) = ws_attempts s"
  by (simp_all add: sentinel_phase_def Let_def wf_frame split: option.split)

lemma review_frame [wf_frame]:
  "finals (review_phase env req attempt s) = finals s" "executions (review_phase env req attempt s) = executions s"
  "ws_infra (review_phase env req attempt s) = ws_infra s" "ws_attempts (review_phase env req attempt s) = ws_attempts s"
  by (simp_all add: review_phase_def Let_def wf_frame split: option.split)

lemma ubs_frame:
  assumes "ubs_phase env attempt s = (b, s')"
  shows "finals s' = finals s" "executions s' = executions s" "ws_infra s' = ws_infra s" "ws_attempts s' = ws_attempts s"
  using assms by (auto simp: ubs_phase_def Let_def wf_frame split: option.splits if_splits)

lemma dod_frame:
  assumes "dod_phase env attempt s = (r, s')"
  shows "finals s' = finals s" "executions s' = executions s" "ws_infra s' = ws_infra s" "ws_attempts s' = ws_attempts s"
    "r = (case ev_dod env (ws_attempts s) of Inl _ \<Rightarrow> None | Inr d \<Rightarrow> Some d)"
  using assms by (auto simp: dod_phase_def Let_def wf_frame split: sum.splits)

lemma triage_frame:
  assumes "triage_phase env m attempt r s = (b, s')"
  shows "finals s' = finals s" "executions s' = executions s" "ws_infra s' = ws_infra s"
  using assms by (auto simp: triage_phase_def Let_def wf_frame split: option.splits if_splits)

lemma autofix_frame [wf_frame]:
  "finals (autofix_phase m attempt s) = finals s" "executions (autofix_phase m attempt s) = executions s"
  "ws_infra (autofix_phase m attempt s) = ws_infra s"
  by (simp_all add: autofix_phase_def wf_frame)

text \<open>The reasons for which a free retry is still available.\<close>

definition unseen :: "wf_state \<Rightarrow> string list" where
  "unseen s = filter (\<lambda>r. infra_key r \<notin> set (ws_infra s)) infra_reasons"

lemma unseen_le: "length (unseen s) \<le> 7"
  using length_filter_le [of "\<lambda>r. infra_key r \<notin> set (ws_infra s)" infra_reasons]
  by (simp add: unseen_def infra_reasons_def)

lemma unseen_cong: "ws_infra s' = ws_infra s \<Longrightarrow> unseen s' = unseen s"
  by (simp add: unseen_def)

lemma unseen_step:
  assumes "reason \<in> set infra_reasons" and "infra_key reason \<notin> set (ws_infra s)"
    and "ws_infra s' = infra_key reason # ws_infra s"
  shows "length (unseen s') < length (unseen s)"
proof -
  have "unseen s' = filter (\<lambda>r. r \<noteq> reason) (unseen s)"
    using assms(3) by (auto simp: unseen_def infra_key_def intro: filter_cong)
  moreover have "reason \<in> set (unseen s)" using assms by (simp add: unseen_def)
  ultimately show ?thesis by (auto intro: length_filter_less)
qed

lemma dod_failed_frame:
  assumes "dod_failed_phase env m attempt r s = (out, s')"
  shows "out \<noteq> Completed" "finals s' = finals s" "executions s' = executions s"
    "length (unseen s') \<le> length (unseen s)" "out = FreeRetry \<Longrightarrow> length (unseen s') < length (unseen s)"
proof -
  let ?lower = "to_lower (join_with ''; '' (dr_Failures r))"
  let ?reason = "extractInfraReason ?lower"
  have "out \<noteq> Completed \<and> finals s' = finals s \<and> executions s' = executions s \<and>
      (if out = FreeRetry then ws_infra s' = infra_key ?reason # ws_infra s \<and> infra_key ?reason \<notin> set (ws_infra s)
       else ws_infra s' = ws_infra s)"
    using assms
    by (auto simp: dod_failed_phase_def Let_def wf_frame split: if_splits prod.splits dest: triage_frame)
  then show "out \<noteq> Completed" "finals s' = finals s" "executions s' = executions s"
    "length (unseen s') \<le> length (unseen s)" "out = FreeRetry \<Longrightarrow> length (unseen s') < length (unseen s)"
    using unseen_step [OF extractInfraReason_in, of ?lower s s'] unseen_cong [of s' s] by (auto split: if_splits)
qed


text \<open>What a completed attempt settles.\<close>

definition completed_outcome :: "task_request \<Rightarrow> wf_event \<Rightarrow> bool" where
  "completed_outcome req e \<longleftrightarrow>
     (\<exists>oc. e = RecordOutcome oc \<and> oc_TaskID oc = tr_TaskID req \<and> oc_Status oc = ''completed'' \<and> oc_ExitCode oc = 0 \<and> oc_DoDPassed oc)"

definition completed_finals :: "task_request \<Rightarrow> string \<Rightarrow> wf_event list \<Rightarrow> bool" where
  "completed_finals req wt es \<longleftrightarrow>
     (\<exists>e. completed_outcome req e \<and>
        es = (if tr_ExplosionID req \<noteq> [] then [e]
              else [CloseTaskCall ''completed'', UnblockDependents, e, MergeToMain (''chum/'' @ tr_TaskID req)] @
                   (if wt = [] then [] else [CleanupWorktree wt])))"

lemma recordOutcome_finals:
  "\<exists>oc. finals (recordOutcome req st ec ok fs s) = finals s @ [RecordOutcome oc] \<and>
     oc_TaskID oc = tr_TaskID req \<and> oc_Status oc = st \<and> oc_ExitCode oc = ec \<and> oc_DoDPassed oc = ok \<and> oc_DoDFailures oc = fs"
  by (auto simp: recordOutcome_def finals_emit)

lemma exit_frame [wf_frame]:
  "finals (spawnCHUMWorkflows s) = finals s" "finals (protein_fold prot attempt s) = finals s"
  "finals (cleanupWorktree wt s) = finals s @ (if wt = [] then [] else [CleanupWorktree wt])"
  "finals (propagate env req s) = finals s @ [MergeToMain (''chum/'' @ tr_TaskID req)]"
  by (simp_all add: spawnCHUMWorkflows_def protein_fold_def cleanupWorktree_def propagate_def Let_def finals_emit
      split: option.split)

lemma exit_executions [wf_frame]:
  "executions (spawnCHUMWorkflows s) = executions s" "executions (protein_fold prot attempt s) = executions s"
  "executions (cleanupWorktree wt s) = executions s" "executions (propagate env req s) = executions s"
  "executions (recordOutcome req st ec ok fs s) = executions s"
  by (simp_all add: spawnCHUMWorkflows_def protein_fold_def cleanupWorktree_def propagate_def recordOutcome_def
      Let_def executions_emit split: option.split)

lemma success_finals:
  "\<exists>es. finals (success_phase env req wt prot attempt s) = finals s @ es \<and> completed_finals req wt es"
proof -
  let ?s1 = "recordTrace env ''complete'' 1 True
       (recordTrace env ''dod'' (9 / 10) False (recordStep (step_name ''dod'' attempt) ''ok'' s))"
  let ?s2 = "emit (Search ''completed'') (emit (Notify ''complete'') (emit (Notify ''dod_pass'') (emit (Backprop 1) ?s1)))"
  let ?s3 = "emit UnblockDependents (emit MarkMorselDone (emit (CloseTaskCall ''completed'') ?s2))"
  obtain oc where "finals (recordOutcome req ''completed'' 0 True [] ?s2) = finals ?s2 @ [RecordOutcome oc]"
    "oc_TaskID oc = tr_TaskID req" "oc_Status oc = ''completed''" "oc_ExitCode oc = 0" "oc_DoDPassed oc"
    using recordOutcome_finals [of req "''completed''" 0 True "[]" ?s2] by auto
  moreover obtain oc' where "finals (recordOutcome req ''completed'' 0 True [] ?s3) = finals ?s3 @ [RecordOutcome oc']"
    "oc_TaskID oc' = tr_TaskID req" "oc_Status oc' = ''completed''" "oc_ExitCode oc' = 0" "oc_DoDPassed oc'"
    using recordOutcome_finals [of req "''completed''" 0 True "[]" ?s3] by auto
  ultimately show ?thesis
    unfolding success_phase_def completed_finals_def completed_outcome_def Let_def
    by (simp add: wf_frame del: append.simps)
qed

lemma success_executions: "executions (success_phase env req wt prot attempt s) = executions s"
  unfolding success_phase_def Let_def by (simp add: wf_frame)

lemma exit_attempts [wf_frame]:
  "ws_attempts (spawnCHUMWorkflows s) = ws_attempts s" "ws_attempts (protein_fold prot attempt s) = ws_attempts s"
  "ws_attempts (cleanupWorktree wt s) = ws_attempts s" "ws_attempts (propagate env req s) = ws_attempts s"
  "ws_attempts (recordOutcome req st ec ok fs s) = ws_attempts s"
  by (simp_all add: spawnCHUMWorkflows_def protein_fold_def cleanupWorktree_def propagate_def recordOutcome_def
      Let_def attempts_frame split: option.split)

lemma success_attempts: "ws_attempts (success_phase env req wt prot attempt s) = ws_attempts s"
  unfolding success_phase_def Let_def by (simp add: wf_frame)

lemma run_attempt_frame:
  assumes "run_attempt env req wt prot m attempt s = (out, s')"
  shows "executions s' = Suc (executions s)"
    "out \<noteq> Completed \<Longrightarrow> finals s' = finals s \<and> length (unseen s') \<le> length (unseen s)"
    "out = FreeRetry \<Longrightarrow> length (unseen s') < length (unseen s)"
    "out = Completed \<Longrightarrow> (\<exists>es. finals s' = finals s @ es \<and> completed_finals req wt es) \<and>
       (\<exists>d. ev_dod env (ws_attempts s') = Inr d \<and> dr_Passed d)"
proof -
  obtain x s1 where e: "execute_phase env req attempt s = (x, s1)" by force
  obtain b s2 where u: "ubs_phase env attempt (review_phase env req attempt (sentinel_phase env attempt s1)) = (b, s2)" by force
  obtain d s3 where v: "dod_phase env attempt s2 = (d, s3)" by force
  have base: "finals s1 = finals s" "executions s1 = Suc (executions s)" "unseen s1 = unseen s"
    "finals s3 = finals s" "finals s2 = finals s" "executions s2 = Suc (executions s)" "unseen s2 = unseen s"
    "executions s3 = Suc (executions s)" "unseen s3 = unseen s"
    "d = (case ev_dod env (ws_attempts s3) of Inl _ \<Rightarrow> None | Inr d \<Rightarrow> Some d)"
    using execute_frame [OF e] ubs_frame [OF u] dod_frame [OF v] by (simp_all add: wf_frame unseen_def)
  have run: "(out, s') =
      (if x = None then (NextAttempt, s1) else if \<not> b then (NextAttempt, s2)
       else case d of None \<Rightarrow> (NextAttempt, s3)
            | Some r \<Rightarrow> if dr_Passed r then (Completed, success_phase env req wt prot attempt s3)
                        else dod_failed_phase env m attempt r s3)"
    using assms e u v by (auto simp: run_attempt_def split: option.splits bool.splits)
  have "executions s' = Suc (executions s) \<and>
    (out \<noteq> Completed \<longrightarrow> finals s' = finals s \<and> length (unseen s') \<le> length (unseen s)) \<and>
    (out = FreeRetry \<longrightarrow> length (unseen s') < length (unseen s)) \<and>
    (out = Completed \<longrightarrow> (\<exists>es. finals s' = finals s @ es \<and> completed_finals req wt es) \<and>
       (\<exists>d. ev_dod env (ws_attempts s') = Inr d \<and> dr_Passed d))"
  proof (cases "x = None \<or> \<not> b \<or> d = None")
    case True
    then show ?thesis using run base by (auto split: if_splits)
  next
    case False
    then obtain r where r: "d = Some r" by auto
    with False run have run': "(out, s') = (if dr_Passed r then (Completed, success_phase env req wt prot attempt s3)
        else dod_failed_phase env m attempt r s3)" by auto
    show ?thesis
    proof (cases "dr_Passed r")
      case True
      with run' show ?thesis
        using base r success_finals [of env req wt prot attempt s3] success_executions [of env req wt prot attempt s3]
          success_attempts [of env req wt prot attempt s3]
        by (auto split: sum.splits)
    next
      case False
      with run' show ?thesis using base dod_failed_frame [of env m attempt r s3 out s'] by auto
    qed
  qed
  then show "executions s' = Suc (executions s)"
    "out \<noteq> Completed \<Longrightarrow> finals s' = finals s \<and> length (unseen s') \<le> length (unseen s)"
    "out = FreeRetry \<Longrightarrow> length (unseen s') < length (unseen s)"
    "out = Completed \<Longrightarrow> (\<exists>es. finals s' = finals s @ es \<and> completed_finals req wt es) \<and>
       (\<exists>d. ev_dod env (ws_attempts s') = Inr d \<and> dr_Passed d)"
    by blast+
qed

lemma loop_progress:
  "(NextAttempt, s') = run_attempt env req wt prot m attempt s \<Longrightarrow> length (unseen s') \<le> length (unseen s)"
  "(FreeRetry, s') = run_attempt env req wt prot m attempt s \<Longrightarrow> length (unseen s') < length (unseen s)"
  using run_attempt_frame(2,3) [of env req wt prot m attempt s] by (metis attempt_outcome.distinct(1), metis)

section \<open>The loops\<close>

datatype loop_result = LoopCompleted | LoopExhausted | LoopBroken bool

text \<open>
  The retry loop. A free retry takes the attempt back, so the loop ends because there are only as
  many free retries as reasons.
\<close>

function attempt_loop ::
  "wf_env \<Rightarrow> task_request \<Rightarrow> string \<Rightarrow> string \<Rightarrow> int \<Rightarrow> int \<Rightarrow> wf_state \<Rightarrow> loop_result \<times> wf_state" where
  "attempt_loop env req wt prot maxRetries attempt s =
     (if attempt < maxRetries
      then (case run_attempt env req wt prot maxRetries attempt s of
              (Completed, s') \<Rightarrow> (LoopCompleted, s')
            | (NextAttempt, s') \<Rightarrow> attempt_loop env req wt prot maxRetries (attempt + 1) s'
            | (FreeRetry, s') \<Rightarrow> attempt_loop env req wt prot maxRetries attempt s'
            | (BreakLoop b, s') \<Rightarrow> (LoopBroken b, s'))
      else (LoopExhausted, s))"
  by pat_completeness auto
termination
  by (relation "measure (\<lambda>(env, req, wt, prot, m, attempt, s). nat (m - attempt) + length (unseen s))")
     (auto dest!: loop_progress)

declare attempt_loop.simps [simp del]

definition tier_request :: "escalation_tier \<Rightarrow> task_request \<Rightarrow> task_request" where
  "tier_request t req =
     req\<lparr>tr_Agent := et_CLI t, tr_Model := et_Model t,
         tr_Reviewer := (if et_Reviewer t = [] then DefaultReviewer None (et_CLI t) else et_Reviewer t)\<rparr>"

fun tier_loop ::
  "wf_env \<Rightarrow> string \<Rightarrow> string \<Rightarrow> escalation_tier list \<Rightarrow> task_request \<Rightarrow> wf_state \<Rightarrow> bool \<times> task_request \<times> wf_state" where
  "tier_loop env wt prot [] req s = (False, req, s)"
| "tier_loop env wt prot (t # ts) req s =
     (if \<not> et_Enabled t then tier_loop env wt prot ts req s
      else let req' = tier_request t req
           in case attempt_loop env req' wt prot (retriesForTier (et_Tier t) (tr_MaxRetriesOverride req')) 0 s of
                (LoopCompleted, s') \<Rightarrow> (True, req', s')
              | (LoopBroken True, s') \<Rightarrow> (False, req', s')
              | (_, s') \<Rightarrow> tier_loop env wt prot ts req' s')"

definition execution_chain :: "task_request \<Rightarrow> escalation_tier list" where
  "execution_chain req =
     (let chain = (if tr_EscalationChain req = []
                   then [\<lparr>et_ProviderKey = tr_Provider req, et_CLI = tr_Agent req, et_Model = tr_Model req,
                         et_Tier = ''balanced'', et_Reviewer = [], et_Enabled = True\<rparr>]
                   else tr_EscalationChain req)
      in if 1 < length chain then take 1 chain else chain)"

section \<open>The workflow\<close>

datatype wf_error = PlanGenerationFailed string | TaskEscalated nat string

definition spawnFailureLearner :: "wf_state \<Rightarrow> wf_state" where
  "spawnFailureLearner s = emit (SpawnLearner False (sp_PreviousErrors (ws_plan s))) s"

definition escalate_phase :: "wf_env \<Rightarrow> task_request \<Rightarrow> string \<Rightarrow> wf_state \<Rightarrow> wf_state" where
  "escalate_phase env req wt s0 =
     (let s1 = emit (Backprop (- (1 / 2)))
                 (recordTrace env ''escalate'' (- (1 / 2)) True (emit (Search ''escalated'') (emit Gate s0)));
          s2 = recordStep ''escalate'' ''ok''
                 (emit (EscalateCall (int (ws_attempts s1)) (ws_failures s1)) (emit (Notify ''escalate'') s1));
          s3 = recordOutcome req ''escalated'' 1 False (join_with ''; '' (ws_failures s2))
                 (emit (CloseTaskCall ''ready'') s2)
      in cleanupWorktree wt (spawnFailureLearner s3))"

definition empty_plan :: "string list \<Rightarrow> structured_plan" where
  "empty_plan prev =
     \<lparr>sp_Summary = [], sp_Steps = [], sp_FilesToModify = [], sp_AcceptanceCriteria = [],
      sp_EstimatedComplexity = [], sp_RiskAssessment = [], sp_PreviousErrors = prev, sp_TokenUsage = no_tokens\<rparr>"

definition initial_state :: "task_request \<Rightarrow> wf_state" where
  "initial_state req =
     \<lparr>ws_events = [Search ''plan''], ws_failures = [], ws_infra = [], ws_plan = empty_plan (tr_PreviousErrors req),
      ws_attempts = 0, ws_tokens = no_tokens, ws_activity = [], ws_steps = [], ws_ntrace = 0, ws_lastTrace = []\<rparr>"

text \<open>Everything before the plan: the normalised request, the worktree, the injected instructions.\<close>

definition prepare :: "wf_env \<Rightarrow> task_request \<Rightarrow> task_request \<times> string \<times> string \<times> wf_state" where
  "prepare env req0 =
     (let r1 = normalizeSearchMetadataForVisibility req0;
          r2 = (if tr_Reviewer r1 = [] then r1\<lparr>tr_Reviewer := DefaultReviewer None (tr_Agent r1)\<rparr> else r1);
          s1 = emit (SetupWorktree (tr_WorkDir r2)) (initial_state r2);
          wt = (case ev_worktree env of None \<Rightarrow> [] | Some p \<Rightarrow> p);
          r3 = (case ev_worktree env of None \<Rightarrow> r2 | Some p \<Rightarrow> r2\<lparr>tr_WorkDir := p\<rparr>);
          species = classifySpecies [] (tr_TaskID r3) (tr_Prompt r3) [];
          s2 = (if tr_Agent r3 \<noteq> [] then emit (BugPriming (tr_Agent r3) species) s1 else s1);
          r4 = (if tr_Agent r3 \<noteq> [] \<and> ev_priming env \<noteq> []
                then r3\<lparr>tr_Prompt := tr_Prompt r3 @ nl @ nl @ ev_priming env\<rparr> else r3);
          s3 = emit (ProteinInstructions species) s2;
          r5 = (if ev_protein env \<noteq> [] then r4\<lparr>tr_Prompt := tr_Prompt r4 @ nl @ nl @ ev_protein env\<rparr> else r4);
          prot = (if ev_protein env \<noteq> [] then species else [])
      in (r5, wt, prot, s3))"

definition receive_plan :: "structured_plan \<Rightarrow> wf_state \<Rightarrow> structured_plan" where
  "receive_plan p s =
     (if sp_PreviousErrors p = [] then p\<lparr>sp_PreviousErrors := sp_PreviousErrors (ws_plan s)\<rparr> else p)"

definition ChumAgentWorkflow :: "wf_env \<Rightarrow> task_request \<Rightarrow> (wf_error, unit) result \<times> wf_state" where
  "ChumAgentWorkflow env req0 =
     (case prepare env req0 of (req, wt, prot, s0) \<Rightarrow>
        (let s1 = emit (PlanCall req) (emit Gate s0)
         in case ev_plan env of
              Inl err \<Rightarrow>
                (let s2 = emit (CloseTaskCall ''plan_failed'') (recordStep ''plan'' ''failed'' s1)
                 in (Inl (PlanGenerationFailed err), emit (RecordFailure (ws_failures s2)) s2))
            | Inr p \<Rightarrow>
                (let s2 = recordStep ''plan'' ''ok'' (s1\<lparr>ws_plan := receive_plan p s1\<rparr>);
                     s3 = resetAttemptTokens (tr_Agent req)
                            (emit (Search ''gate'') (recordTrace env ''plan'' (1 / 10) False (emit (Notify ''plan'') s2)))
                 in case tier_loop env wt prot (execution_chain req) req s3 of
                      (True, req', s4) \<Rightarrow> (Inr (), s4)
                    | (False, req', s4) \<Rightarrow>
                        (let s5 = escalate_phase env req' wt s4
                         in (Inl (TaskEscalated (ws_attempts s5) (join_with ''; '' (ws_failures s5))),
                             emit (RecordFailure (ws_failures s5)) s5)))))"


section \<open>Facts about a run\<close>

definition dod_passed_at :: "wf_env \<Rightarrow> nat \<Rightarrow> bool" where
  "dod_passed_at env k \<longleftrightarrow> (\<exists>d. ev_dod env k = Inr d \<and> dr_Passed d)"

definition loop_ok :: "wf_env \<Rightarrow> task_request \<Rightarrow> string \<Rightarrow> bool \<Rightarrow> wf_state \<Rightarrow> wf_state \<Rightarrow> bool" where
  "loop_ok env req wt completed s s' \<longleftrightarrow>
     (if completed then (\<exists>es. finals s' = finals s @ es \<and> completed_finals req wt es) \<and> dod_passed_at env (ws_attempts s')
      else finals s' = finals s)"

lemma attempt_loop_frame:
  assumes "attempt_loop env req wt prot m attempt s = (r, s')"
  shows "executions s' \<le> executions s + nat (m - attempt) + length (unseen s) \<and>
    loop_ok env req wt (r = LoopCompleted) s s'"
  using assms
proof (induction env req wt prot m attempt s arbitrary: r s' rule: attempt_loop.induct)
  case (1 env req wt prot m attempt s)
  show ?case
  proof (cases "attempt < m")
    case False
    then show ?thesis using "1.prems" by (simp add: attempt_loop.simps loop_ok_def)
  next
    case True
    obtain out s1 where run: "run_attempt env req wt prot m attempt s = (out, s1)" by force
    note f = run_attempt_frame [OF run]
    have loop: "attempt_loop env req wt prot m attempt s = (case out of
        Completed \<Rightarrow> (LoopCompleted, s1)
      | NextAttempt \<Rightarrow> attempt_loop env req wt prot m (attempt + 1) s1
      | FreeRetry \<Rightarrow> attempt_loop env req wt prot m attempt s1
      | BreakLoop b \<Rightarrow> (LoopBroken b, s1))"
      using True run by (subst attempt_loop.simps) (simp split: attempt_outcome.split)
    show ?thesis
    proof (cases out)
      case Completed
      then show ?thesis using loop f "1.prems" True by (auto simp: loop_ok_def dod_passed_at_def)
    next
      case NextAttempt
      then have "attempt_loop env req wt prot m (attempt + 1) s1 = (r, s')" using loop "1.prems" by simp
      from "1.IH"(1) [OF True run [symmetric] NextAttempt this] NextAttempt f True show ?thesis
        by (auto simp: loop_ok_def)
    next
      case FreeRetry
      then have "attempt_loop env req wt prot m attempt s1 = (r, s')" using loop "1.prems" by simp
      from "1.IH"(2) [OF True run [symmetric] FreeRetry this] FreeRetry f True show ?thesis
        by (auto simp: loop_ok_def)
    next
      case (BreakLoop b)
      then show ?thesis using loop f "1.prems" True by (auto simp: loop_ok_def)
    qed
  qed
qed

lemma tier_request_frame [simp]:
  "tr_ExplosionID (tier_request t req) = tr_ExplosionID req" "tr_TaskID (tier_request t req) = tr_TaskID req"
  "tr_MaxRetriesOverride (tier_request t req) = tr_MaxRetriesOverride req"
  by (simp_all add: tier_request_def)

lemma completed_finals_tier [simp]: "completed_finals (tier_request t req) = completed_finals req"
  by (intro ext) (simp add: completed_finals_def completed_outcome_def)

definition tier_budget :: "int \<Rightarrow> escalation_tier \<Rightarrow> nat" where
  "tier_budget override t = (if et_Enabled t then nat (retriesForTier (et_Tier t) override) + 7 else 0)"

lemma tier_loop_frame:
  assumes "tier_loop env wt prot chain req s = (b, req', s')"
  shows "executions s' \<le> executions s + sum_list (map (tier_budget (tr_MaxRetriesOverride req)) chain) \<and>
    loop_ok env req wt b s s'"
  using assms
proof (induction chain arbitrary: req s)
  case Nil
  then show ?case by (simp add: loop_ok_def)
next
  case (Cons t ts)
  show ?case
  proof (cases "et_Enabled t")
    case False
    then show ?thesis using Cons by (simp add: tier_budget_def)
  next
    case True
    let ?r = "tier_request t req" and ?m = "retriesForTier (et_Tier t) (tr_MaxRetriesOverride req)"
    obtain l s1 where l: "attempt_loop env ?r wt prot ?m 0 s = (l, s1)" by force
    have f: "executions s1 \<le> executions s + tier_budget (tr_MaxRetriesOverride req) t"
      "loop_ok env req wt (l = LoopCompleted) s s1"
      using attempt_loop_frame [OF l] unseen_le [of s] True by (auto simp: tier_budget_def loop_ok_def)
    show ?thesis
    proof (cases "l = LoopCompleted \<or> l = LoopBroken True")
      case True
      then show ?thesis using Cons.prems \<open>et_Enabled t\<close> l f by (auto simp: Let_def)
    next
      case False
      then have "tier_loop env wt prot ts ?r s1 = (b, req', s')"
        using Cons.prems \<open>et_Enabled t\<close> l by (auto simp: Let_def split: loop_result.splits bool.splits)
      from Cons.IH [OF this] f False show ?thesis by (auto simp: loop_ok_def)
    qed
  qed
qed

lemma tier_loop_request:
  assumes "tier_loop env wt prot chain req s = (b, req', s')"
  shows "tr_ExplosionID req' = tr_ExplosionID req \<and> tr_TaskID req' = tr_TaskID req"
  using assms
  by (induction env wt prot chain req s rule: tier_loop.induct)
     (auto simp: Let_def split: if_splits prod.splits loop_result.splits bool.splits)

lemma failures_frame [wf_frame]:
  "ws_failures (emit e s) = ws_failures s" "ws_failures (recordStep a b s) = ws_failures s"
  by (simp_all add: emit_def recordStep_def)

lemma initial_frame [wf_frame]:
  "finals (initial_state req) = []" "executions (initial_state req) = 0" "ws_failures (initial_state req) = []"
  by (simp_all add: initial_state_def finals_def executions_def)

lemma prepare_state:
  "finals (snd (snd (snd (prepare env req0)))) = []" "executions (snd (snd (snd (prepare env req0)))) = 0"
  "ws_failures (snd (snd (snd (prepare env req0)))) = []"
  unfolding prepare_def Let_def by (simp_all add: wf_frame if_distrib [of finals] if_distrib [of executions] if_distrib [of ws_failures] cong: if_cong split del: if_split)

lemma normalize_frame [simp]:
  "tr_ExplosionID (normalizeSearchMetadataForVisibility r) = tr_ExplosionID r"
  "tr_EscalationChain (normalizeSearchMetadataForVisibility r) = tr_EscalationChain r"
  "tr_MaxRetriesOverride (normalizeSearchMetadataForVisibility r) = tr_MaxRetriesOverride r"
  "tr_TaskID (normalizeSearchMetadataForVisibility r) = tr_TaskID r"
  by (simp_all add: normalizeSearchMetadataForVisibility_def Let_def)

lemma prepare_request:
  "tr_ExplosionID (fst (prepare env req0)) = tr_ExplosionID req0"
  "tr_EscalationChain (fst (prepare env req0)) = tr_EscalationChain req0"
  "tr_MaxRetriesOverride (fst (prepare env req0)) = tr_MaxRetriesOverride req0"
  "tr_TaskID (fst (prepare env req0)) = tr_TaskID req0"
  "fst (snd (prepare env req0)) = (case ev_worktree env of None \<Rightarrow> [] | Some p \<Rightarrow> p)"
  unfolding prepare_def Let_def by (simp_all split: option.split)

text \<open>The settling events of a run, by result.\<close>

definition escalated_finals :: "string \<Rightarrow> wf_event list \<Rightarrow> bool" where
  "escalated_finals wt es \<longleftrightarrow>
     (\<exists>n fs oc. oc_Status oc = ''escalated'' \<and> oc_ExitCode oc = 1 \<and> \<not> oc_DoDPassed oc \<and>
        es = [EscalateCall n fs, CloseTaskCall ''ready'', RecordOutcome oc] @
             (if wt = [] then [] else [CleanupWorktree wt]) @ [RecordFailure fs])"

lemma failures_exit [wf_frame]:
  "ws_failures (recordOutcome req st ec ok fs s) = ws_failures s" "ws_failures (spawnFailureLearner s) = ws_failures s"
  "ws_failures (cleanupWorktree wt s) = ws_failures s" "ws_failures (recordTrace env p r t s) = ws_failures s"
  "finals (spawnFailureLearner s) = finals s" "executions (spawnFailureLearner s) = executions s"
  by (simp_all add: recordOutcome_def spawnFailureLearner_def cleanupWorktree_def recordTrace_def Let_def
      emit_def finals_def executions_def)

lemma escalate_finals:
  assumes s'_def: "s' = escalate_phase env req wt s"
  shows "\<exists>es. finals (emit (RecordFailure (ws_failures s')) s') = finals s @ es \<and> escalated_finals wt es"
proof -
  let ?s1 = "emit (Backprop (- (1 / 2)))
       (recordTrace env ''escalate'' (- (1 / 2)) True (emit (Search ''escalated'') (emit Gate s)))"
  let ?s2 = "recordStep ''escalate'' ''ok''
       (emit (EscalateCall (int (ws_attempts ?s1)) (ws_failures ?s1)) (emit (Notify ''escalate'') ?s1))"
  let ?fs = "join_with ''; '' (ws_failures ?s2)" and ?s2' = "emit (CloseTaskCall ''ready'') ?s2"
  have s': "s' = cleanupWorktree wt (spawnFailureLearner (recordOutcome req ''escalated'' 1 False ?fs ?s2'))"
    by (simp add: s'_def escalate_phase_def Let_def)
  obtain oc where "finals (recordOutcome req ''escalated'' 1 False ?fs ?s2') = finals ?s2' @ [RecordOutcome oc]"
    "oc_Status oc = ''escalated''" "oc_ExitCode oc = 1" "\<not> oc_DoDPassed oc"
    using recordOutcome_finals [of req "''escalated''" 1 False ?fs ?s2'] by auto
  then show ?thesis
    unfolding s' escalated_finals_def
    by (intro exI conjI) (assumption | simp add: wf_frame)+
qed

definition run_finals :: "wf_env \<Rightarrow> task_request \<Rightarrow> (wf_error, unit) result \<Rightarrow> nat \<Rightarrow> wf_event list \<Rightarrow> bool" where
  "run_finals env req res n es \<longleftrightarrow>
     (let wt = (case ev_worktree env of None \<Rightarrow> [] | Some p \<Rightarrow> p)
      in case res of
           Inl (PlanGenerationFailed _) \<Rightarrow> es = [CloseTaskCall ''plan_failed'', RecordFailure []]
         | Inl (TaskEscalated _ _) \<Rightarrow> escalated_finals wt es
         | Inr _ \<Rightarrow> completed_finals req wt es \<and> dod_passed_at env n)"

lemma completed_finals_cong:
  "tr_ExplosionID r = tr_ExplosionID r' \<Longrightarrow> tr_TaskID r = tr_TaskID r' \<Longrightarrow> completed_finals r = completed_finals r'"
  by (intro ext) (simp add: completed_finals_def completed_outcome_def)

lemma finals_plan [wf_frame]:
  "finals (s\<lparr>ws_plan := p\<rparr>) = finals s" "executions (s\<lparr>ws_plan := p\<rparr>) = executions s"
  by (simp_all add: finals_def executions_def)

lemma escalate_executions: "executions (escalate_phase env req wt s) = executions s"
  unfolding escalate_phase_def Let_def by (simp add: wf_frame)

lemma workflow_run:
  assumes "ChumAgentWorkflow env req0 = (res, s)"
  shows "run_finals env req0 res (ws_attempts s) (finals s) \<and>
    executions s \<le> sum_list (map (tier_budget (tr_MaxRetriesOverride req0)) (execution_chain (fst (prepare env req0))))"
proof -
  obtain req wt prot s0 where p: "prepare env req0 = (req, wt, prot, s0)" by (metis prod_cases4)
  have f: "finals s0 = []" "executions s0 = 0" "ws_failures s0 = []" "tr_ExplosionID req = tr_ExplosionID req0"
    "tr_TaskID req = tr_TaskID req0" "tr_MaxRetriesOverride req = tr_MaxRetriesOverride req0"
    "wt = (case ev_worktree env of None \<Rightarrow> [] | Some p \<Rightarrow> p)"
    using prepare_state [of env req0] prepare_request [of env req0] p by simp_all
  note cong = completed_finals_cong [OF f(4,5)]
  show ?thesis
  proof (cases "ev_plan env")
    case (Inl err)
    then show ?thesis
      using assms p f by (auto simp: ChumAgentWorkflow_def Let_def wf_frame run_finals_def)
  next
    case (Inr pl)
    let ?s1 = "emit (PlanCall req) (emit Gate s0)"
    let ?s2 = "recordStep ''plan'' ''ok'' (?s1\<lparr>ws_plan := receive_plan pl ?s1\<rparr>)"
    define s3 where "s3 = resetAttemptTokens (tr_Agent req)
        (emit (Search ''gate'') (recordTrace env ''plan'' (1 / 10) False (emit (Notify ''plan'') ?s2)))"
    have s3: "finals s3 = []" "executions s3 = 0" by (simp_all add: s3_def wf_frame f)
    obtain b req' s4 where t: "tier_loop env wt prot (execution_chain req) req s3 = (b, req', s4)" by (metis prod_cases3)
    have res: "(res, s) = (if b then (Inr (), s4) else
        let s5 = escalate_phase env req' wt s4
        in (Inl (TaskEscalated (ws_attempts s5) (join_with ''; '' (ws_failures s5))),
            emit (RecordFailure (ws_failures s5)) s5))"
      using assms p Inr t [unfolded s3_def] by (cases b) (simp_all add: ChumAgentWorkflow_def Let_def)
    have e: "executions s4 \<le> sum_list (map (tier_budget (tr_MaxRetriesOverride req0)) (execution_chain req))"
      and l: "loop_ok env req wt b s3 s4"
      using tier_loop_frame [OF t] s3 f(6) by simp_all
    have "run_finals env req0 res (ws_attempts s) (finals s) \<and> executions s = executions s4"
    proof (cases b)
      case True
      then have "res = Inr ()" "s = s4" using res by simp_all
      then show ?thesis using l True s3(1) unfolding loop_ok_def run_finals_def cong f(7) Let_def by simp
    next
      case False
      then have "finals s4 = []" using l s3(1) by (simp add: loop_ok_def)
      then show ?thesis
        using escalate_finals [OF refl, of env req' wt s4] res False
        by (auto simp: run_finals_def Let_def f(7) wf_frame escalate_executions)
    qed
    then show ?thesis using e p by simp
  qed
qed


section \<open>The drain gate\<close>

text \<open>
  The loop of \<open>awaitResumeGate\<close>: counts of undelivered drain and resume signals, whether the run is
  drained, and the signals that arrive while it waits, in order. The selector takes a pending
  drain before a pending resume and falls through only when the run is not drained. \<open>None\<close>: the run
  waits for a signal that never comes.
\<close>

datatype admin_signal = Drain | Resume

function awaitResumeGate :: "nat \<Rightarrow> nat \<Rightarrow> bool \<Rightarrow> admin_signal list \<Rightarrow> (nat \<times> nat \<times> admin_signal list) option" where
  "awaitResumeGate drains resumes isDrained arriving =
     (if 0 < drains then awaitResumeGate (drains - 1) resumes True arriving
      else if 0 < resumes then Some (drains, resumes - 1, arriving)
      else if \<not> isDrained then Some (drains, resumes, arriving)
      else (case arriving of
              [] \<Rightarrow> None
            | Drain # rest \<Rightarrow> awaitResumeGate (drains + 1) resumes True rest
            | Resume # rest \<Rightarrow> awaitResumeGate drains (resumes + 1) True rest))"
  by pat_completeness auto
termination
  by (relation "measure (\<lambda>(d, r, b, as). d + 2 * length as)") auto

declare awaitResumeGate.simps [simp del]

text \<open>A drained run without a pending resume returns exactly when a resume arrives.\<close>

lemma gate_waits:
  assumes "resumes = 0" and "isDrained \<or> 0 < drains"
  shows "(\<exists>r. awaitResumeGate drains resumes isDrained arriving = Some r) \<longleftrightarrow> Resume \<in> set arriving"
  using assms
proof (induction drains resumes isDrained arriving rule: awaitResumeGate.induct)
  case (1 drains resumes isDrained arriving)
  show ?case
  proof (cases "0 < drains")
    case True
    then show ?thesis using 1 by (simp add: awaitResumeGate.simps [of drains])
  next
    case False
    then have d: "drains = 0" "isDrained" using "1.prems" by auto
    show ?thesis
    proof (cases arriving)
      case Nil
      then show ?thesis using d "1.prems" by (simp add: awaitResumeGate.simps [of 0 0 True "[]"])
    next
      case (Cons x rest)
      then show ?thesis
      proof (cases x)
        case Drain
        then show ?thesis
          using Cons d "1.prems" "1.IH"(2) [of x rest]
          by (simp add: awaitResumeGate.simps [of 0 0 True "Drain # rest"])
      next
        case Resume
        then show ?thesis
          using Cons d "1.prems"
          by (simp add: awaitResumeGate.simps [of 0 0 True "Resume # rest"] awaitResumeGate.simps [of 0 "Suc 0"])
      qed
    qed
  qed
qed

section \<open>Properties\<close>

fun closings :: "wf_event list \<Rightarrow> string list" where
  "closings [] = []"
| "closings (CloseTaskCall st # es) = st # closings es"
| "closings (_ # es) = closings es"

fun outcomes :: "wf_event list \<Rightarrow> string list" where
  "outcomes [] = []"
| "outcomes (RecordOutcome oc # es) = oc_Status oc # outcomes es"
| "outcomes (_ # es) = outcomes es"

fun cleanups :: "wf_event list \<Rightarrow> string list" where
  "cleanups [] = []"
| "cleanups (CleanupWorktree p # es) = p # cleanups es"
| "cleanups (_ # es) = cleanups es"

lemma settle_finals:
  shows "closings (filter is_final es) = closings es" and "outcomes (filter is_final es) = outcomes es"
    and "cleanups (filter is_final es) = cleanups es"
proof -
  show "closings (filter is_final es) = closings es" by (induction es rule: closings.induct) simp_all
  show "outcomes (filter is_final es) = outcomes es" by (induction es rule: outcomes.induct) simp_all
  show "cleanups (filter is_final es) = cleanups es" by (induction es rule: cleanups.induct) simp_all
qed



definition sample_env :: wf_env where
  "sample_env = \<lparr>ev_worktree = Some ''/wt'', ev_trace = (\<lambda>_. []), ev_priming = [], ev_protein = [],
     ev_plan = Inr (empty_plan []),
     ev_execute = (\<lambda>_. Inr \<lparr>er_ExitCode = 0, er_Output = [], er_Agent = ''codex'', er_Tokens = no_tokens\<rparr>),
     ev_sentinel = (\<lambda>_. None),
     ev_review = (\<lambda>_. Some \<lparr>rr_Approved = False, rr_Issues = [''x''], rr_ReviewerAgent = ''gemini'', rr_Tokens = no_tokens\<rparr>),
     ev_ubs = (\<lambda>_. None),
     ev_dod = (\<lambda>_. Inr \<lparr>dr_Passed = True, dr_Checks = [], dr_Failures = []\<rparr>),
     ev_triage = (\<lambda>_. None), ev_merge = Some 7, ev_order = []\<rparr>"

definition sample_request :: task_request where
  "sample_request = \<lparr>tr_TaskID = ''t1'', tr_Project = ''p'', tr_Prompt = ''do'', tr_TaskTitle = [], tr_Agent = ''codex'',
     tr_Model = [], tr_Reviewer = [], tr_WorkDir = ''/w'', tr_Provider = [], tr_Priority = 1, tr_DoDChecks = [],
     tr_SlowStepThreshold = 0, tr_EscalationChain = [], tr_MaxRetriesOverride = 1, tr_MaxHandoffsOverride = 0,
     tr_PreviousErrors = [], tr_ExplosionID = [], tr_TraceSessionID = []\<rparr>"

lemma ubs_result:
  "fst (ubs_phase env attempt s) = (case ev_ubs env (ws_attempts s) of None \<Rightarrow> True | Some u \<Rightarrow> ub_Passed u)"
  by (simp add: ubs_phase_def Let_def wf_frame split: option.split)

lemma execute_result:
  "fst (execute_phase env req attempt s) =
     (case ev_execute env (Suc (ws_attempts s)) of Inl _ \<Rightarrow> None | Inr r \<Rightarrow> Some r)"
  by (simp add: execute_phase_def Let_def wf_frame split: sum.split)

text \<open>An attempt whose execution, bug scan and checks succeed.\<close>

definition attempt_passes :: "wf_env \<Rightarrow> nat \<Rightarrow> bool" where
  "attempt_passes env n \<longleftrightarrow> (\<exists>r. ev_execute env n = Inr r) \<and>
     (case ev_ubs env n of None \<Rightarrow> True | Some u \<Rightarrow> ub_Passed u) \<and> dod_passed_at env n"

lemma run_attempt_completed:
  "fst (run_attempt env req wt prot m attempt s) = Completed \<longleftrightarrow> attempt_passes env (Suc (ws_attempts s))"
proof -
  obtain x s1 where e: "execute_phase env req attempt s = (x, s1)" by force
  obtain b s2 where u: "ubs_phase env attempt (review_phase env req attempt (sentinel_phase env attempt s1)) = (b, s2)" by force
  obtain d s3 where v: "dod_phase env attempt s2 = (d, s3)" by force
  let ?n = "Suc (ws_attempts s)"
  have n: "ws_attempts s1 = ?n" "ws_attempts s2 = ?n"
    using execute_frame [OF e] ubs_frame [OF u] by (simp_all add: wf_frame)
  have "x = (case ev_execute env ?n of Inl _ \<Rightarrow> None | Inr r \<Rightarrow> Some r)"
    "b = (case ev_ubs env ?n of None \<Rightarrow> True | Some u \<Rightarrow> ub_Passed u)"
    "d = (case ev_dod env ?n of Inl _ \<Rightarrow> None | Inr d \<Rightarrow> Some d)"
    using execute_result [of env req attempt s] ubs_result [of env attempt "review_phase env req attempt (sentinel_phase env attempt s1)"]
      dod_frame(5) [OF v] n e u by (simp_all add: wf_frame)
  moreover have "fst (dod_failed_phase env m attempt r s3) \<noteq> Completed" for r
    using dod_failed_frame(1) [of env m attempt r s3] by (metis prod.collapse)
  ultimately show ?thesis
    using e u v
    by (auto simp: run_attempt_def attempt_passes_def dod_passed_at_def split: sum.splits option.splits bool.splits)
qed

lemma prepare_attempts: "ws_attempts (snd (snd (snd (prepare env req0)))) = 0"
  unfolding prepare_def Let_def
  by (simp add: wf_frame if_distrib [of ws_attempts] initial_state_def cong: if_cong split del: if_split)

lemma attempts_plan [wf_frame]: "ws_attempts (s\<lparr>ws_plan := p\<rparr>) = ws_attempts s"
  by simp

lemma retries_pos: "0 < retriesForTier t n"
  by (simp add: retriesForTier_def Let_def)

lemma first_attempt_succeeds:
  assumes "ev_plan env = Inr p" and "execution_chain (fst (prepare env req0)) = t # ts" and "et_Enabled t"
    and "attempt_passes env 1"
  shows "fst (ChumAgentWorkflow env req0) = Inr ()"
proof -
  obtain req wt prot s0 where p: "prepare env req0 = (req, wt, prot, s0)" by (metis prod_cases4)
  let ?s1 = "emit (PlanCall req) (emit Gate s0)"
  define s3 where "s3 = resetAttemptTokens (tr_Agent req)
      (emit (Search ''gate'') (recordTrace env ''plan'' (1 / 10) False
        (emit (Notify ''plan'') (recordStep ''plan'' ''ok'' (?s1\<lparr>ws_plan := receive_plan p ?s1\<rparr>)))))"
  let ?r = "tier_request t req" and ?m = "retriesForTier (et_Tier t) (tr_MaxRetriesOverride req)"
  have n: "ws_attempts s3 = 0"
    using prepare_attempts [of env req0] p by (simp add: s3_def wf_frame)
  obtain out s' where run: "run_attempt env ?r wt prot ?m 0 s3 = (out, s')" by force
  then have "out = Completed" using run_attempt_completed [of env ?r wt prot ?m 0 s3] assms(4) n by simp
  then have "attempt_loop env ?r wt prot ?m 0 s3 = (LoopCompleted, s')"
    using run by (subst attempt_loop.simps) (simp add: retries_pos)
  then have "tier_loop env wt prot (execution_chain req) req s3 = (True, ?r, s')"
    using assms(2,3) p by simp
  then show ?thesis using assms(1) p by (simp add: ChumAgentWorkflow_def Let_def s3_def)
qed

lemma retries_le: "retriesForTier t n \<le> max 3 n"
  by (simp add: retriesForTier_def Let_def)

lemma execution_chain_cases:
  "execution_chain r = [] \<or> (\<exists>t. execution_chain r = [t])"
  by (cases "tr_EscalationChain r"; cases "tl (tr_EscalationChain r)") (auto simp: execution_chain_def)


lemma sample_succeeds: "fst (ChumAgentWorkflow sample_env sample_request) = Inr ()"
proof (rule first_attempt_succeeds)
  show "ev_plan sample_env = Inr (empty_plan [])" by (simp add: sample_env_def)
  show "attempt_passes sample_env 1" by (simp add: sample_env_def attempt_passes_def dod_passed_at_def)
  have "tr_EscalationChain (fst (prepare sample_env sample_request)) = []"
    by (simp add: prepare_request sample_request_def)
  then show "execution_chain (fst (prepare sample_env sample_request)) =
      [\<lparr>et_ProviderKey = tr_Provider (fst (prepare sample_env sample_request)),
        et_CLI = tr_Agent (fst (prepare sample_env sample_request)),
        et_Model = tr_Model (fst (prepare sample_env sample_request)),
        et_Tier = ''balanced'', et_Reviewer = [], et_Enabled = True\<rparr>]"
    by (simp add: execution_chain_def)
qed simp

lemma sample_result:
  "ChumAgentWorkflow sample_env sample_request = (Inr (), snd (ChumAgentWorkflow sample_env sample_request))"
  using sample_succeeds by (metis prod.collapse)



text \<open>
  C21. Nothing is completed or merged without passed checks: when a run closes its task as completed
  or merges its branch, the definition-of-done verification of its last attempt passed, and
  both happen only in a successful run outside an explosion.
\<close>

theorem merged_only_verified:
  assumes "ChumAgentWorkflow env req = (res, s)"
    and "MergeToMain branch \<in> set (ws_events s) \<or> CloseTaskCall ''completed'' \<in> set (ws_events s)"
  shows "(\<exists>d. ev_dod env (ws_attempts s) = Inr d \<and> dr_Passed d) \<and> res = Inr () \<and> tr_ExplosionID req = []"
proof -
  have "MergeToMain branch \<in> set (finals s) \<or> CloseTaskCall ''completed'' \<in> set (finals s)"
    using assms(2) by (auto simp: finals_def)
  moreover have "run_finals env req res (ws_attempts s) (finals s)" using workflow_run [OF assms(1)] by simp
  ultimately show ?thesis
    unfolding run_finals_def Let_def
    by (auto simp: completed_finals_def completed_outcome_def escalated_finals_def dod_passed_at_def
        split: sum.splits wf_error.splits if_splits)
qed

theorem merged_only_verified_witness:
  "\<exists>d. ev_dod sample_env (ws_attempts (snd (ChumAgentWorkflow sample_env sample_request))) = Inr d \<and> dr_Passed d"
proof -
  let ?s = "snd (ChumAgentWorkflow sample_env sample_request)"
  have "run_finals sample_env sample_request (Inr ()) (ws_attempts ?s) (finals ?s)"
    using workflow_run [OF sample_result] by simp
  moreover have "tr_ExplosionID sample_request = []" by (simp add: sample_request_def)
  ultimately have "CloseTaskCall ''completed'' \<in> set (finals ?s)"
    unfolding run_finals_def completed_finals_def Let_def by force
  then have "CloseTaskCall ''completed'' \<in> set (ws_events ?s)" by (simp add: finals_def)
  then show ?thesis using merged_only_verified [OF sample_result] by blast
qed





text \<open>
  A disabled first tier disables the whole chain: the chain is cut to its first tier before
  the disabled ones are skipped, so a later enabled tier is never tried and the task escalates
  without an execution.
\<close>

theorem disabled_first_tier:
  assumes "tr_EscalationChain req = t # ts" and "\<not> et_Enabled t" and "ev_plan env = Inr p"
  shows "filter is_execute (ws_events (snd (ChumAgentWorkflow env req))) = [] \<and>
    (\<exists>n m. fst (ChumAgentWorkflow env req) = Inl (TaskEscalated n m))"
proof -
  have c: "execution_chain (fst (prepare env req)) = [t]"
    using assms(1) by (cases ts) (simp_all add: execution_chain_def prepare_request)
  obtain res s where r: "ChumAgentWorkflow env req = (res, s)" by force
  have "executions s = 0" using workflow_run [OF r] c assms(2) by (simp add: tier_budget_def)
  then have "filter is_execute (ws_events s) = []" by (simp add: executions_def)
  moreover have "\<exists>n m. res = Inl (TaskEscalated n m)"
    using r c assms(2,3)
    by (cases "prepare env req") (auto simp: ChumAgentWorkflow_def Let_def)
  ultimately show ?thesis using r by simp
qed

theorem disabled_first_tier_witness:
  "filter is_execute (ws_events (snd (ChumAgentWorkflow sample_env
     (sample_request\<lparr>tr_EscalationChain :=
        [\<lparr>et_ProviderKey = ''a'', et_CLI = ''codex'', et_Model = [], et_Tier = ''fast'', et_Reviewer = [], et_Enabled = False\<rparr>,
         \<lparr>et_ProviderKey = ''b'', et_CLI = ''claude'', et_Model = [], et_Tier = ''premium'', et_Reviewer = [], et_Enabled = True\<rparr>]\<rparr>))))
   = []"
proof -
  have p: "ev_plan sample_env = Inr (empty_plan [])" by (simp add: sample_env_def)
  show ?thesis by (rule conjunct1, rule disabled_first_tier [OF _ _ p]) (simp, simp)
qed

text \<open>
  The drain gate: a run that is drained, or about to receive a drain signal, with no resume
  signal pending goes on exactly when a resume signal arrives; an undrained run with nothing
  pending goes on at once.
\<close>

theorem drain_gate:
  "awaitResumeGate 0 0 False arriving = Some (0, 0, arriving) \<and>
   (\<forall>drains isDrained. isDrained \<or> 0 < drains \<longrightarrow>
      ((\<exists>r. awaitResumeGate drains 0 isDrained arriving = Some r) \<longleftrightarrow> Resume \<in> set arriving))"
  using gate_waits by (simp add: awaitResumeGate.simps [of 0 0 False])

theorem drain_gate_witness:
  "awaitResumeGate 1 0 False [Drain] = None"
proof -
  have "\<not> (\<exists>r. awaitResumeGate 1 0 False [Drain] = Some r)"
    using drain_gate [of "[Drain]", THEN conjunct2, rule_format, of False 1] by simp
  then show ?thesis by (metis not_None_eq)
qed

end
