(* ===== verification/Retry_Policy.thy ===== *)
theory Retry_Policy
  imports Complex_Main Chum_Prelude
begin

text \<open>
  Retry delays and tiers: \<open>internal/dispatch/retry.go\<close>, \<open>backoff.go\<close> and the tier order of
  \<open>ratelimit.go\<close>.

  A \<open>time.Duration\<close> is an \<open>int\<close> number of nanoseconds. A \<open>float64\<close> is an exact rational, or
  infinite when a power leaves the range of the type (\<open>2^1024\<close>); rounding below that is not
  modelled. The random number of \<open>rand.Float64\<close> is the argument \<open>r\<close> with \<open>0 \<le> r < 1\<close>. Converting a
  product beyond the range of \<open>int64\<close> yields the smallest \<open>int64\<close>, as the conversion instruction of
  amd64 does.
\<close>

section \<open>Definitions\<close>

datatype float64 = Finite rat | Infinite

definition max_float :: rat where
  "max_float = 2 ^ 1024"

definition mul_pow :: "rat \<Rightarrow> rat \<Rightarrow> nat \<Rightarrow> float64" where
  "mul_pow b f n = (if max_float \<le> f ^ n \<or> max_float \<le> b * f ^ n then Infinite else Finite (b * f ^ n))"

definition to_duration :: "rat \<Rightarrow> int" where
  "to_duration q = (if q < 2 ^ 63 then \<lfloor>q\<rfloor> else - (2 ^ 63))"

record retry_policy =
  rp_MaxRetries :: int
  rp_InitialDelay :: int
  rp_BackoffFactor :: rat
  rp_MaxDelay :: int
  rp_EscalateAfter :: int

definition minute :: int where
  "minute = 60000000000"

definition DefaultPolicy :: retry_policy where
  "DefaultPolicy = \<lparr>rp_MaxRetries = 3, rp_InitialDelay = 5 * minute, rp_BackoffFactor = 2,
                    rp_MaxDelay = 30 * minute, rp_EscalateAfter = 2\<rparr>"

definition backoffDelayWithFactor :: "int \<Rightarrow> int \<Rightarrow> int \<Rightarrow> rat \<Rightarrow> rat \<Rightarrow> int" where
  "backoffDelayWithFactor retries base maxDelay factor r =
     (if retries \<le> 0 \<or> base \<le> 0 then 0
      else let factor1 = (if factor < 1 then 1 else factor);
               backoff1 = (case mul_pow (of_int base) factor1 (nat (retries - 1)) of
                             Infinite \<Rightarrow> if 0 < maxDelay then of_int maxDelay else of_int base
                           | Finite q \<Rightarrow> q);
               backoff2 = (if 0 < maxDelay \<and> of_int maxDelay < backoff1 then of_int maxDelay else backoff1);
               backoff3 = (if backoff2 < of_int base then of_int base else backoff2);
               jitter = 1 + r * (1 / 10)
           in to_duration (backoff3 * jitter))"

definition BackoffDelay :: "int \<Rightarrow> int \<Rightarrow> int \<Rightarrow> rat \<Rightarrow> int" where
  "BackoffDelay retries base maxDelay r = backoffDelayWithFactor retries base maxDelay 2 r"

definition ShouldRetry :: "int \<Rightarrow> int \<Rightarrow> int \<Rightarrow> int \<Rightarrow> rat \<Rightarrow> bool" where
  "ShouldRetry elapsed retries base maxDelay r = (BackoffDelay retries base maxDelay r \<le> elapsed)"

definition shouldEscalateTier :: "int \<Rightarrow> int \<Rightarrow> bool" where
  "shouldEscalateTier escalateAfter attempt =
     (0 < escalateAfter \<and> 0 < attempt \<and> attempt mod escalateAfter = 0)"

definition normalizeTier :: "string \<Rightarrow> string" where
  "normalizeTier tier = to_lower (trim_space tier)"

definition escalateTier :: "string \<Rightarrow> string" where
  "escalateTier tier =
     (if tier = ''fast'' then ''balanced'' else if tier = ''balanced'' then ''premium'' else tier)"

definition NextRetry :: "retry_policy \<Rightarrow> int \<Rightarrow> string \<Rightarrow> rat \<Rightarrow> int \<times> string \<times> bool" where
  "NextRetry p attempt0 currentTier r =
     (let attempt = max 0 attempt0; tier = normalizeTier currentTier
      in if rp_MaxRetries p \<le> attempt then (0, tier, False)
         else (backoffDelayWithFactor (attempt + 1) (rp_InitialDelay p) (rp_MaxDelay p) (rp_BackoffFactor p) r,
               if shouldEscalateTier (rp_EscalateAfter p) attempt then escalateTier tier else tier,
               True))"

definition DowngradeTier :: "string \<Rightarrow> string" where
  "DowngradeTier tier =
     (if tier = ''premium'' then ''balanced'' else if tier = ''balanced'' then ''fast'' else [])"

definition UpgradeTier :: "string \<Rightarrow> string" where
  "UpgradeTier tier =
     (if tier = ''fast'' then ''balanced'' else if tier = ''balanced'' then ''premium'' else [])"

section \<open>The uncapped and the capped delay\<close>

text \<open>The specification: the exponential, held between the base and the greater of base and cap.\<close>

definition backoff_spec :: "int \<Rightarrow> int \<Rightarrow> int \<Rightarrow> rat \<Rightarrow> rat" where
  "backoff_spec retries base maxDelay factor =
     max (of_int base) (min (of_int maxDelay) (of_int base * (max 1 factor) ^ nat (retries - 1)))"

lemma backoff_eq_spec:
  assumes "0 < retries" and "0 < base" and "0 < maxDelay" and "of_int maxDelay < max_float"
  shows "backoffDelayWithFactor retries base maxDelay factor r =
    to_duration (backoff_spec retries base maxDelay factor * (1 + r * (1 / 10)))"
proof -
  let ?f = "if factor < 1 then 1 else factor" and ?n = "nat (retries - 1)"
  have f: "?f = max 1 factor" by simp
  have pos: "0 \<le> max 1 factor ^ ?n" by simp
  have "1 \<le> (of_int base :: rat)" using assms(2) by simp
  then have le: "max 1 factor ^ ?n \<le> of_int base * max 1 factor ^ ?n" using mult_right_mono [OF _ pos] by fastforce
  have "mul_pow (of_int base) (max 1 factor) ?n = Infinite \<longleftrightarrow> max_float \<le> of_int base * max 1 factor ^ ?n"
    unfolding mul_pow_def using order_trans [OF _ le] by (metis float64.distinct(1))
  moreover have nl: "1 \<le> factor \<Longrightarrow> \<not> factor ^ ?n < 1" by (simp add: not_less)
  ultimately show ?thesis
    using assms(1,2,3,4)
    by (cases "mul_pow (of_int base) (max 1 factor) ?n")
       (auto simp: backoffDelayWithFactor_def Let_def backoff_spec_def f mul_pow_def max_def min_def split: if_splits
         dest: nl)
qed

lemma backoff_spec_bounds:
  assumes "0 < base" and "base \<le> maxDelay"
  shows "of_int base \<le> backoff_spec retries base maxDelay factor \<and>
    backoff_spec retries base maxDelay factor \<le> of_int maxDelay"
  using assms by (simp add: backoff_spec_def)

lemma backoff_spec_mono:
  assumes "0 < base" and "m \<le> n"
  shows "backoff_spec m base maxDelay factor \<le> backoff_spec n base maxDelay factor"
proof -
  have "max 1 factor ^ nat (m - 1) \<le> max 1 factor ^ nat (n - 1)"
    using assms(2) by (intro power_increasing) auto
  then have "of_int base * max 1 factor ^ nat (m - 1) \<le> of_int base * max 1 factor ^ nat (n - 1)"
    using assms(1) by (intro mult_left_mono) auto
  then show ?thesis by (auto simp: backoff_spec_def max_def min_def)
qed

lemma jitter_bounds:
  fixes q r :: rat
  assumes "0 \<le> q" and "0 \<le> r" and "r < 1"
  shows "q \<le> q * (1 + r * (1 / 10))" and "q * (1 + r * (1 / 10)) \<le> q * (11 / 10)"
proof -
  have "q * 1 \<le> q * (1 + r * (1 / 10))" using assms by (intro mult_left_mono) auto
  then show "q \<le> q * (1 + r * (1 / 10))" by simp
  show "q * (1 + r * (1 / 10)) \<le> q * (11 / 10)" using assms by (intro mult_left_mono) auto
qed

section \<open>Properties\<close>

text \<open>
  With a positive base not above the cap, and a cap whose jittered value fits a duration, the
  delay before a retry lies between the base and the cap plus ten per cent, for every retry count,
  factor and random number.
\<close>

theorem backoff_bounds:
  assumes "0 < retries" and "0 < base" and "base \<le> maxDelay" and "11 * maxDelay < 10 * 2 ^ 63"
    and "0 \<le> r" and "r < 1"
  shows "base \<le> backoffDelayWithFactor retries base maxDelay factor r \<and>
    10 * backoffDelayWithFactor retries base maxDelay factor r \<le> 11 * maxDelay"
proof -
  let ?q = "backoff_spec retries base maxDelay factor"
  let ?x = "?q * (1 + r * (1 / 10))"
  have q: "of_int base \<le> ?q" "?q \<le> of_int maxDelay" using backoff_spec_bounds assms(2,3) by auto
  have "0 \<le> ?q" using q(1) assms(2) by (meson of_int_0_le_iff order_trans less_imp_le)
  then have x: "of_int base \<le> ?x" "?x \<le> of_int maxDelay * (11 / 10)"
    using jitter_bounds [of ?q r] assms(5,6) q by (linarith, linarith)
  have "of_int (11 * maxDelay) < (of_int (10 * 2 ^ 63) :: rat)" using assms(4) by (simp only: of_int_less_iff)
  then have lt: "?x < 2 ^ 63" using x(2) by simp
  have "maxDelay < 2 ^ 63" using assms(2,3,4) by simp
  then have "of_int maxDelay < (of_int (2 ^ 63) :: rat)" by (simp only: of_int_less_iff)
  also have "\<dots> < max_float" unfolding max_float_def by simp
  finally have d: "backoffDelayWithFactor retries base maxDelay factor r = \<lfloor>?x\<rfloor>"
    using backoff_eq_spec assms(1,2,3) lt by (simp add: to_duration_def)
  have "base \<le> \<lfloor>?x\<rfloor>" using x(1) by (simp add: le_floor_iff)
  moreover have "of_int (10 * \<lfloor>?x\<rfloor>) \<le> (of_int (11 * maxDelay) :: rat)"
    using of_int_floor_le [of ?x] x(2) by (simp only: of_int_mult of_int_numeral)
  then have "10 * \<lfloor>?x\<rfloor> \<le> 11 * maxDelay" by (simp only: of_int_le_iff)
  ultimately show ?thesis unfolding d by simp
qed

theorem backoff_bounds_witness:
  "5 * minute \<le> backoffDelayWithFactor 7 (5 * minute) (30 * minute) 2 (1 / 2) \<and>
   10 * backoffDelayWithFactor 7 (5 * minute) (30 * minute) 2 (1 / 2) \<le> 11 * (30 * minute)"
  by (rule backoff_bounds) (simp_all add: minute_def)

text \<open>
  \<open>NextRetry\<close> stops exactly when the attempts are used up, never lowers the tier it is given,
  and changes it only by one step of \<open>fast\<close>, \<open>balanced\<close>, \<open>premium\<close>, on the attempts that are
  positive multiples of \<open>EscalateAfter\<close>.
\<close>

theorem next_retry_decides:
  "NextRetry p attempt tier r = (d, t, retry) \<Longrightarrow>
     (retry \<longleftrightarrow> max 0 attempt < rp_MaxRetries p) \<and>
     (\<not> retry \<longrightarrow> d = 0 \<and> t = normalizeTier tier) \<and>
     (retry \<longrightarrow> t = (if 0 < rp_EscalateAfter p \<and> 0 < attempt \<and> rp_EscalateAfter p dvd attempt
                      then escalateTier (normalizeTier tier) else normalizeTier tier))"
  by (auto simp: NextRetry_def Let_def shouldEscalateTier_def dvd_eq_mod_eq_0 split: if_splits)

theorem next_retry_decides_witness:
  "snd (NextRetry DefaultPolicy 2 '' Fast '' 0) = (''balanced'', True)"
proof -
  have n: "normalizeTier '' Fast '' = ''fast''" by code_simp
  obtain d t b where e: "NextRetry DefaultPolicy 2 '' Fast '' 0 = (d, t, b)" by (metis prod_cases3)
  show ?thesis using next_retry_decides [OF e] e by (simp add: n DefaultPolicy_def escalateTier_def)
qed

text \<open>
  The delay is not capped at \<open>maxDelay\<close> when the cap is below the base: it is then at least the
  base, although the comments promise the cap.
\<close>

theorem backoff_exceeds_cap:
  assumes "0 < retries" and "0 < maxDelay" and "maxDelay < base" and "11 * base < 10 * 2 ^ 63"
    and "0 \<le> r" and "r < 1"
  shows "maxDelay < BackoffDelay retries base maxDelay r"
proof -
  let ?q = "backoff_spec retries base maxDelay 2"
  have "of_int maxDelay \<le> (of_int base :: rat)" using assms(3) by simp
  then have q: "?q = of_int base" by (simp add: backoff_spec_def)
  have x: "of_int base \<le> ?q * (1 + r * (1 / 10))" "?q * (1 + r * (1 / 10)) \<le> of_int base * (11 / 10)"
    using jitter_bounds [of ?q r] assms(2,3,5,6) by (auto simp: q)
  have "of_int (11 * base) < (of_int (10 * 2 ^ 63) :: rat)" using assms(4) by (simp only: of_int_less_iff)
  then have lt: "?q * (1 + r * (1 / 10)) < 2 ^ 63" using x(2) by simp
  have "maxDelay < 2 ^ 63" using assms(2,3,4) by simp
  then have "of_int maxDelay < (of_int (2 ^ 63) :: rat)" by (simp only: of_int_less_iff)
  also have "\<dots> < max_float" unfolding max_float_def by simp
  finally have "BackoffDelay retries base maxDelay r = \<lfloor>?q * (1 + r * (1 / 10))\<rfloor>"
    using backoff_eq_spec assms(1,2,3) lt by (simp add: BackoffDelay_def to_duration_def)
  then show ?thesis using x(1) assms(3) by (smt (verit) le_floor_iff)
qed

theorem backoff_exceeds_cap_witness:
  "minute < BackoffDelay 1 (5 * minute) minute 0"
  by (rule backoff_exceeds_cap) (simp_all add: minute_def)

end
