(* ===== verification/Rate_Limiter.thy ===== *)
theory Rate_Limiter
  imports Complex_Main Retry_Policy
begin

text \<open>
  The rate limiter of \<open>internal/dispatch/ratelimit.go\<close> over the table \<open>provider_usage\<close> of
  \<open>internal/store/dispatches.go\<close>.

  The state is the table, the next value of its autoincremented key, the clock in seconds, and the
  outcomes of the database calls to come: a call that meets \<open>True\<close> fails, and one beyond the list
  succeeds. Every public method holds the mutex from start to end, so a method is one step. A
  failed rollback, a failed count and a failed insertion are the branches the code has.
\<close>

section \<open>The usage table\<close>

record usage_row =
  pu_id :: int
  pu_provider :: string
  pu_agent :: string
  pu_morsel :: string
  pu_at :: int

record usage_db =
  ud_rows :: "usage_row list"
  ud_next :: int
  ud_now :: int
  ud_faults :: "bool list"

datatype store_error = DbError

definition db_call :: "usage_db \<Rightarrow> bool \<times> usage_db" where
  "db_call s = (case ud_faults s of [] \<Rightarrow> (False, s) | f # fs \<Rightarrow> (f, s\<lparr>ud_faults := fs\<rparr>))"

definition RecordProviderUsage ::
  "string \<Rightarrow> string \<Rightarrow> string \<Rightarrow> usage_db \<Rightarrow> (store_error, int) result \<times> usage_db" where
  "RecordProviderUsage provider agentID morselID s0 =
     (case db_call s0 of (failed, s) \<Rightarrow>
        if failed then (Inl DbError, s)
        else (Inr (ud_next s),
              s\<lparr>ud_rows := ud_rows s @ [\<lparr>pu_id = ud_next s, pu_provider = provider, pu_agent = agentID,
                                        pu_morsel = morselID, pu_at = ud_now s\<rparr>],
                ud_next := ud_next s + 1\<rparr>))"

definition DeleteProviderUsage :: "int \<Rightarrow> usage_db \<Rightarrow> (store_error, unit) result \<times> usage_db" where
  "DeleteProviderUsage i s0 =
     (if i = 0 then (Inr (), s0)
      else case db_call s0 of (failed, s) \<Rightarrow>
        if failed then (Inl DbError, s)
        else (Inr (), s\<lparr>ud_rows := filter (\<lambda>r. pu_id r \<noteq> i) (ud_rows s)\<rparr>))"

definition usage_since :: "int \<Rightarrow> usage_db \<Rightarrow> int" where
  "usage_since age s = int (length (filter (\<lambda>r. ud_now s - age \<le> pu_at r) (ud_rows s)))"

definition window5h :: int where "window5h = 5 * 3600"
definition week :: int where "week = 7 * 24 * 3600"

definition count_usage :: "int \<Rightarrow> usage_db \<Rightarrow> (store_error, int) result \<times> usage_db" where
  "count_usage age s0 =
     (case db_call s0 of (failed, s) \<Rightarrow> (if failed then Inl DbError else Inr (usage_since age s), s))"

definition CountAuthedUsage5h :: "usage_db \<Rightarrow> (store_error, int) result \<times> usage_db" where
  "CountAuthedUsage5h = count_usage window5h"

definition CountAuthedUsageWeekly :: "usage_db \<Rightarrow> (store_error, int) result \<times> usage_db" where
  "CountAuthedUsageWeekly = count_usage week"

section \<open>The limiter\<close>

record rate_limits =
  rl_Window5hCap :: int
  rl_WeeklyCap :: int
  rl_WeeklyHeadroomPct :: int

datatype deny_reason =
    Error5h | Cap5h int int | ErrorWeekly | CapWeekly int int

definition canDispatchAuthedLocked :: "rate_limits \<Rightarrow> usage_db \<Rightarrow> deny_reason option \<times> usage_db" where
  "canDispatchAuthedLocked cfg s0 =
     (case CountAuthedUsage5h s0 of
        (Inl _, s1) \<Rightarrow> (Some Error5h, s1)
      | (Inr count5h, s1) \<Rightarrow>
          if rl_Window5hCap cfg \<le> count5h then (Some (Cap5h count5h (rl_Window5hCap cfg)), s1)
          else (case CountAuthedUsageWeekly s1 of
                  (Inl _, s2) \<Rightarrow> (Some ErrorWeekly, s2)
                | (Inr countWeekly, s2) \<Rightarrow>
                    if rl_WeeklyCap cfg \<le> countWeekly then (Some (CapWeekly countWeekly (rl_WeeklyCap cfg)), s2)
                    else (None, s2)))"

datatype reserve_result =
    ReserveOK int
  | PreLimit deny_reason
  | PostLimit deny_reason
  | RollbackFailed
  | StoreFailed

definition recordAuthedDispatchLocked ::
  "rate_limits \<Rightarrow> string \<Rightarrow> string \<Rightarrow> string \<Rightarrow> usage_db \<Rightarrow> reserve_result \<times> usage_db" where
  "recordAuthedDispatchLocked cfg provider agentID morselID s0 =
     (case canDispatchAuthedLocked cfg s0 of
        (Some reason, s1) \<Rightarrow> (PreLimit reason, s1)
      | (None, s1) \<Rightarrow>
          (case RecordProviderUsage provider agentID morselID s1 of
             (Inl _, s2) \<Rightarrow> (StoreFailed, s2)
           | (Inr usageID, s2) \<Rightarrow>
               (case canDispatchAuthedLocked cfg s2 of
                  (Some reason, s3) \<Rightarrow>
                    (case DeleteProviderUsage usageID s3 of
                       (Inl _, s4) \<Rightarrow> (RollbackFailed, s4)
                     | (Inr _, s4) \<Rightarrow> (PostLimit reason, s4))
                | (None, s3) \<Rightarrow> (ReserveOK usageID, s3))))"

definition RecordAuthedDispatch ::
  "rate_limits \<Rightarrow> string \<Rightarrow> string \<Rightarrow> string \<Rightarrow> usage_db \<Rightarrow> (reserve_result, int) result \<times> usage_db" where
  "RecordAuthedDispatch cfg provider agentID morselID s0 =
     (case recordAuthedDispatchLocked cfg provider agentID morselID s0 of
        (ReserveOK i, s) \<Rightarrow> (Inr i, s) | (r, s) \<Rightarrow> (Inl r, s))"

definition ReleaseAuthedDispatch :: "int \<Rightarrow> usage_db \<Rightarrow> (store_error, unit) result \<times> usage_db" where
  "ReleaseAuthedDispatch i s = (if i = 0 then (Inr (), s) else DeleteProviderUsage i s)"

definition WeeklyUsagePct :: "rate_limits \<Rightarrow> usage_db \<Rightarrow> rat \<times> usage_db" where
  "WeeklyUsagePct cfg s0 =
     (case CountAuthedUsageWeekly s0 of
        (Inl _, s) \<Rightarrow> (0, s)
      | (Inr cnt, s) \<Rightarrow> (if rl_WeeklyCap cfg = 0 then 0
                          else of_int cnt / of_int (rl_WeeklyCap cfg) * 100, s))"

definition IsInHeadroomWarning :: "rate_limits \<Rightarrow> usage_db \<Rightarrow> bool \<times> usage_db" where
  "IsInHeadroomWarning cfg s0 =
     (case CountAuthedUsageWeekly s0 of
        (Inl _, s) \<Rightarrow> (False, s)
      | (Inr cnt, s) \<Rightarrow>
          (if rl_WeeklyCap cfg = 0 then False
           else of_int (rl_WeeklyHeadroomPct cfg) \<le> (of_int cnt / of_int (rl_WeeklyCap cfg) * 100 :: rat), s))"

section \<open>Picking a provider\<close>

record provider =
  pv_Tier :: string
  pv_Authed :: bool
  pv_Enabled :: "bool option"
  pv_Model :: string
  pv_CLI :: string
  pv_Reviewer :: string
  pv_TokenCap :: int
  pv_CostInputPerMtok :: rat
  pv_CostOutputPerMtok :: rat

record tiers =
  ti_Fast :: "string list"
  ti_Balanced :: "string list"
  ti_Premium :: "string list"

text \<open>A pick: the provider, its name and the usage id, 0 without a reservation.\<close>

datatype pick =
    Picked provider string int
  | NoProvider
  | PickError reserve_result

fun pickAndReserveFromCandidates ::
  "rate_limits \<Rightarrow> string list \<Rightarrow> (string \<rightharpoonup> provider) \<Rightarrow> (string \<Rightarrow> bool) \<Rightarrow> string \<Rightarrow> string
     \<Rightarrow> usage_db \<Rightarrow> pick \<times> usage_db" where
  "pickAndReserveFromCandidates cfg [] providers excl agentID morselID s = (NoProvider, s)"
| "pickAndReserveFromCandidates cfg (name # names) providers excl agentID morselID s =
     (case providers name of
        None \<Rightarrow> pickAndReserveFromCandidates cfg names providers excl agentID morselID s
      | Some p \<Rightarrow>
          if excl (pv_Model p) then pickAndReserveFromCandidates cfg names providers excl agentID morselID s
          else if \<not> pv_Authed p then (Picked p name 0, s)
          else (case recordAuthedDispatchLocked cfg (pv_Model p) agentID morselID s of
                  (ReserveOK usageID, s') \<Rightarrow> (Picked p name usageID, s')
                | (PostLimit reason, s') \<Rightarrow> (PickError (PostLimit reason), s')
                | (RollbackFailed, s') \<Rightarrow> (PickError RollbackFailed, s')
                | (PreLimit _, s') \<Rightarrow> pickAndReserveFromCandidates cfg names providers excl agentID morselID s'
                | (StoreFailed, s') \<Rightarrow> pickAndReserveFromCandidates cfg names providers excl agentID morselID s'))"

definition tier_providers :: "string \<Rightarrow> tiers \<Rightarrow> string list" where
  "tier_providers tier ts =
     (if tier = ''fast'' then ti_Fast ts
      else if tier = ''balanced'' then ti_Balanced ts
      else if tier = ''premium'' then ti_Premium ts
      else ti_Balanced ts)"

definition PickAndReserveProvider ::
  "rate_limits \<Rightarrow> string \<Rightarrow> (string \<rightharpoonup> provider) \<Rightarrow> tiers \<Rightarrow> string \<Rightarrow> string \<Rightarrow> usage_db \<Rightarrow> pick \<times> usage_db" where
  "PickAndReserveProvider cfg tier providers ts agentID morselID s =
     pickAndReserveFromCandidates cfg (tier_providers tier ts) providers (\<lambda>_. False) agentID morselID s"

section \<open>Counting\<close>

lemma db_call_frame [simp]:
  "ud_rows (snd (db_call s)) = ud_rows s" "ud_next (snd (db_call s)) = ud_next s" "ud_now (snd (db_call s)) = ud_now s"
  by (simp_all add: db_call_def split: list.split)

lemma usage_since_cong:
  "ud_rows s = ud_rows s' \<Longrightarrow> ud_now s = ud_now s' \<Longrightarrow> usage_since a s = usage_since a s'"
  by (simp add: usage_since_def)

text \<open>What a check tells and leaves: rows, key and clock stay, and a permission means room in both windows.\<close>

lemma can_dispatch_frame:
  assumes "canDispatchAuthedLocked cfg s = (r, s')"
  shows "ud_rows s' = ud_rows s \<and> ud_next s' = ud_next s \<and> ud_now s' = ud_now s \<and>
    (r = None \<longrightarrow> usage_since window5h s < rl_Window5hCap cfg \<and> usage_since week s < rl_WeeklyCap cfg)"
proof -
  obtain f1 s1 where c1: "db_call s = (f1, s1)" by force
  obtain f2 s2 where c2: "db_call s1 = (f2, s2)" by force
  have fr: "ud_rows s1 = ud_rows s" "ud_next s1 = ud_next s" "ud_now s1 = ud_now s"
    "ud_rows s2 = ud_rows s" "ud_next s2 = ud_next s" "ud_now s2 = ud_now s"
    using db_call_frame [of s] db_call_frame [of s1] c1 c2 by auto
  have u: "usage_since a s1 = usage_since a s" "usage_since a s2 = usage_since a s" for a
    using fr usage_since_cong by metis+
  show ?thesis
    using assms fr u
    by (auto simp: canDispatchAuthedLocked_def CountAuthedUsage5h_def CountAuthedUsageWeekly_def
        count_usage_def c1 c2 split: if_splits)
qed

lemma can_dispatch_no_faults:
  assumes "ud_faults s = []"
  shows "canDispatchAuthedLocked cfg s =
    (if rl_Window5hCap cfg \<le> usage_since window5h s
       then Some (Cap5h (usage_since window5h s) (rl_Window5hCap cfg))
     else if rl_WeeklyCap cfg \<le> usage_since week s
       then Some (CapWeekly (usage_since week s) (rl_WeeklyCap cfg)) else None, s)"
  using assms
  by (simp add: canDispatchAuthedLocked_def CountAuthedUsage5h_def CountAuthedUsageWeekly_def
      count_usage_def db_call_def)

definition usage_wf :: "usage_db \<Rightarrow> bool" where
  "usage_wf s \<longleftrightarrow> 0 < ud_next s \<and> distinct (map pu_id (ud_rows s)) \<and>
     (\<forall>r \<in> set (ud_rows s). 0 < pu_id r \<and> pu_id r < ud_next s)"

definition new_usage :: "usage_db \<Rightarrow> string \<Rightarrow> string \<Rightarrow> string \<Rightarrow> usage_row" where
  "new_usage s p a m = \<lparr>pu_id = ud_next s, pu_provider = p, pu_agent = a, pu_morsel = m, pu_at = ud_now s\<rparr>"

definition below_caps :: "rate_limits \<Rightarrow> int \<Rightarrow> usage_db \<Rightarrow> bool" where
  "below_caps cfg extra s \<longleftrightarrow>
     usage_since window5h s + extra < rl_Window5hCap cfg \<and> usage_since week s + extra < rl_WeeklyCap cfg"

text \<open>The effect of an attempted reservation, result by result.\<close>

definition reserve_effect ::
  "rate_limits \<Rightarrow> string \<Rightarrow> string \<Rightarrow> string \<Rightarrow> usage_db \<Rightarrow> reserve_result \<Rightarrow> usage_db \<Rightarrow> bool" where
  "reserve_effect cfg p a m s r s' \<longleftrightarrow> ud_now s' = ud_now s \<and>
     (case r of
        ReserveOK i \<Rightarrow> i = ud_next s \<and> below_caps cfg 1 s \<and>
          ud_rows s' = ud_rows s @ [new_usage s p a m] \<and> ud_next s' = ud_next s + 1
      | RollbackFailed \<Rightarrow> below_caps cfg 0 s \<and>
          ud_rows s' = ud_rows s @ [new_usage s p a m] \<and> ud_next s' = ud_next s + 1
      | PostLimit _ \<Rightarrow> below_caps cfg 0 s \<and> ud_rows s' = ud_rows s \<and> ud_next s' = ud_next s + 1
      | _ \<Rightarrow> ud_rows s' = ud_rows s \<and> ud_next s' = ud_next s)"

lemma usage_since_add:
  "0 \<le> age \<Longrightarrow> ud_now s' = ud_now s \<Longrightarrow> ud_rows s' = ud_rows s @ [new_usage s p a m] \<Longrightarrow>
     usage_since age s' = usage_since age s + 1"
  by (simp add: usage_since_def new_usage_def)

lemma delete_effect:
  assumes "DeleteProviderUsage i s = (r, s')"
  shows "ud_now s' = ud_now s \<and> ud_next s' = ud_next s \<and>
    ud_rows s' = (if i = 0 \<or> \<not> is_ok r then ud_rows s else filter (\<lambda>u. pu_id u \<noteq> i) (ud_rows s))"
proof -
  obtain f s1 where "db_call s = (f, s1)" by force
  with assms db_call_frame [of s] show ?thesis
    by (auto simp: DeleteProviderUsage_def split: if_splits)
qed

lemma filter_fresh: "usage_wf s \<Longrightarrow> filter (\<lambda>u. pu_id u \<noteq> ud_next s) (ud_rows s) = ud_rows s"
  by (rule filter_True) (auto simp: usage_wf_def)

lemma record_effect:
  assumes "usage_wf s" and "recordAuthedDispatchLocked cfg p a m s = (r, s')"
  shows "reserve_effect cfg p a m s r s'"
proof -
  obtain d1 s1 where c1: "canDispatchAuthedLocked cfg s = (d1, s1)" by force
  note f1 = can_dispatch_frame [OF c1]
  have since1: "usage_since g s1 = usage_since g s" for g using f1 usage_since_cong by metis
  show ?thesis
  proof (cases d1)
    case (Some x)
    then show ?thesis using assms(2) c1 f1 by (auto simp: recordAuthedDispatchLocked_def reserve_effect_def)
  next
    case None
    obtain f s1' where c: "db_call s1 = (f, s1')" by force
    have s1': "ud_rows s1' = ud_rows s" "ud_next s1' = ud_next s" "ud_now s1' = ud_now s"
      using db_call_frame [of s1] c f1 by auto
    define s2 where "s2 = s1'\<lparr>ud_rows := ud_rows s @ [new_usage s p a m], ud_next := ud_next s + 1\<rparr>"
    have rec: "RecordProviderUsage p a m s1 = (if f then (Inl DbError, s1') else (Inr (ud_next s), s2))"
      using s1' by (simp add: RecordProviderUsage_def c s2_def new_usage_def)
    obtain d2 s3 where c2: "canDispatchAuthedLocked cfg s2 = (d2, s3)" by force
    note f2 = can_dispatch_frame [OF c2]
    have s2: "ud_rows s2 = ud_rows s @ [new_usage s p a m]" "ud_next s2 = ud_next s + 1" "ud_now s2 = ud_now s"
      by (simp_all add: s2_def s1')
    have since2: "usage_since window5h s2 = usage_since window5h s + 1" "usage_since week s2 = usage_since week s + 1"
      using s2 by (auto intro!: usage_since_add simp: window5h_def week_def)
    obtain d s4 where del: "DeleteProviderUsage (ud_next s) s3 = (d, s4)" by force
    note f3 = delete_effect [OF del]
    have "ud_next s \<noteq> 0" using assms(1) by (simp add: usage_wf_def)
    then have rows4: "d = Inr () \<Longrightarrow> ud_rows s4 = ud_rows s"
      using f3 f2 s2 filter_fresh [OF assms(1)] by (simp add: new_usage_def)
    show ?thesis
    proof (cases "f \<or> d2 = None")
      case True
      then show ?thesis
        using assms(2) None c1 rec c2 f1 f2 s1' s2 since1 since2
        by (auto simp: recordAuthedDispatchLocked_def reserve_effect_def below_caps_def split: if_splits)
    next
      case False
      then obtain y where "d2 = Some y" "\<not> f" by auto
      then show ?thesis
        using assms(2) None c1 rec c2 del f1 f2 f3 s2 rows4
        by (cases d) (auto simp: recordAuthedDispatchLocked_def reserve_effect_def below_caps_def)
    qed
  qed
qed


section \<open>Runs of the limiter\<close>

text \<open>
  The steps under one configuration: time passes, a dispatch is recorded, a provider is picked, a
  reservation is released, a percentage is read. \<open>Budget\<close> is not used by the limiter.
\<close>

definition empty_usage :: "bool list \<Rightarrow> usage_db" where
  "empty_usage faults = \<lparr>ud_rows = [], ud_next = 1, ud_now = 0, ud_faults = faults\<rparr>"

inductive limiter_step :: "rate_limits \<Rightarrow> usage_db \<Rightarrow> usage_db \<Rightarrow> bool" for cfg where
  tick: "0 \<le> dt \<Longrightarrow> limiter_step cfg s (s\<lparr>ud_now := ud_now s + dt\<rparr>)"
| check: "limiter_step cfg s (snd (canDispatchAuthedLocked cfg s))"
| recording: "limiter_step cfg s (snd (RecordAuthedDispatch cfg p a m s))"
| release: "limiter_step cfg s (snd (ReleaseAuthedDispatch i s))"
| pick: "limiter_step cfg s (snd (pickAndReserveFromCandidates cfg names providers excl a m s))"
| percentage: "limiter_step cfg s (snd (WeeklyUsagePct cfg s))"
| headroom: "limiter_step cfg s (snd (IsInHeadroomWarning cfg s))"

definition limiter_inv :: "rate_limits \<Rightarrow> usage_db \<Rightarrow> bool" where
  "limiter_inv cfg s \<longleftrightarrow> usage_wf s \<and>
     usage_since window5h s \<le> max 0 (rl_Window5hCap cfg) \<and> usage_since week s \<le> max 0 (rl_WeeklyCap cfg)"

lemma usage_since_mono:
  assumes "ud_now s \<le> ud_now s'" and "\<And>P. length (filter P (ud_rows s')) \<le> length (filter P (ud_rows s))"
  shows "usage_since age s' \<le> usage_since age s"
proof -
  have "length (filter (\<lambda>r. ud_now s' - age \<le> pu_at r) (ud_rows s')) \<le>
      length (filter (\<lambda>r. ud_now s' - age \<le> pu_at r) (ud_rows s))"
    by (rule assms(2))
  also have "\<dots> \<le> length (filter (\<lambda>r. ud_now s - age \<le> pu_at r) (ud_rows s))"
  proof -
    have "filter (\<lambda>r. ud_now s' - age \<le> pu_at r) (ud_rows s) =
        filter (\<lambda>r. ud_now s' - age \<le> pu_at r) (filter (\<lambda>r. ud_now s - age \<le> pu_at r) (ud_rows s))"
      using assms(1) by (auto intro!: filter_cong)
    then show ?thesis by (metis length_filter_le)
  qed
  finally show ?thesis by (simp add: usage_since_def)
qed

lemma limiter_inv_mono:
  assumes "limiter_inv cfg s" and "usage_wf s'" and "ud_now s \<le> ud_now s'"
    and "\<And>P. length (filter P (ud_rows s')) \<le> length (filter P (ud_rows s))"
  shows "limiter_inv cfg s'"
  using assms usage_since_mono [OF assms(3,4)] by (meson limiter_inv_def order_trans)

lemma limiter_inv_cong:
  assumes "limiter_inv cfg s" and "ud_rows s' = ud_rows s" "ud_next s \<le> ud_next s'" "ud_now s' = ud_now s"
  shows "limiter_inv cfg s'"
  using assms by (intro limiter_inv_mono [OF assms(1)]) (auto simp: limiter_inv_def usage_wf_def)

lemma usage_wf_add:
  assumes "usage_wf s" and "ud_rows s' = ud_rows s @ [new_usage s p a m]" and "ud_next s' = ud_next s + 1"
  shows "usage_wf s'"
  using assms by (auto simp: usage_wf_def new_usage_def)

lemma limiter_inv_add:
  assumes "limiter_inv cfg s" and "below_caps cfg 0 s" and "ud_now s' = ud_now s"
    and "ud_rows s' = ud_rows s @ [new_usage s p a m]" and "ud_next s' = ud_next s + 1"
  shows "limiter_inv cfg s'"
proof -
  have "usage_since window5h s' = usage_since window5h s + 1" "usage_since week s' = usage_since week s + 1"
    using assms by (auto intro!: usage_since_add simp: window5h_def week_def)
  then show ?thesis
    using assms usage_wf_add [OF _ assms(4,5)] by (auto simp: limiter_inv_def below_caps_def)
qed

lemma limiter_inv_reserve:
  assumes "limiter_inv cfg s" and "recordAuthedDispatchLocked cfg p a m s = (r, s')"
  shows "limiter_inv cfg s'"
proof -
  have e: "reserve_effect cfg p a m s r s'"
    using assms by (auto intro: record_effect simp: limiter_inv_def)
  have b: "below_caps cfg 1 s \<Longrightarrow> below_caps cfg 0 s" by (auto simp: below_caps_def)
  from e show ?thesis
    by (cases r)
       (auto simp: reserve_effect_def intro: limiter_inv_add [OF assms(1)] limiter_inv_cong [OF assms(1)] b)
qed

lemma limiter_inv_pick:
  assumes "limiter_inv cfg s"
  shows "limiter_inv cfg (snd (pickAndReserveFromCandidates cfg names providers excl a m s))"
  using assms
proof (induction names arbitrary: s)
  case (Cons name names)
  show ?case
  proof (cases "providers name")
    case None
    then show ?thesis using Cons by simp
  next
    case (Some p)
    obtain r s' where r: "recordAuthedDispatchLocked cfg (pv_Model p) a m s = (r, s')" by force
    have "limiter_inv cfg s'" using limiter_inv_reserve [OF Cons.prems r] .
    then show ?thesis using Cons Some r by (cases r) auto
  qed
qed simp

lemma limiter_inv_release:
  assumes "limiter_inv cfg s"
  shows "limiter_inv cfg (snd (DeleteProviderUsage i s))"
proof -
  obtain r s' where d: "DeleteProviderUsage i s = (r, s')" by force
  note e = delete_effect [OF d]
  have "length (filter P (ud_rows s')) \<le> length (filter P (ud_rows s))" for P
    using e by (auto simp: filter_filter conj_commute) (metis filter_filter length_filter_le)
  moreover have "usage_wf s'"
    using e assms by (auto simp: limiter_inv_def usage_wf_def distinct_map_filter)
  ultimately have "limiter_inv cfg s'" using limiter_inv_mono [OF assms] e by simp
  then show ?thesis by (simp add: d)
qed


lemma limiter_inv_count:
  assumes "limiter_inv cfg s"
  shows "limiter_inv cfg (snd (count_usage age s))"
proof -
  obtain f s1 where c: "db_call s = (f, s1)" by force
  with db_call_frame [of s] have "ud_rows s1 = ud_rows s" "ud_next s1 = ud_next s" "ud_now s1 = ud_now s" by auto
  then show ?thesis using limiter_inv_cong [OF assms] by (simp add: count_usage_def c)
qed

lemma limiter_inv_step: "limiter_inv cfg s \<Longrightarrow> limiter_step cfg s s' \<Longrightarrow> limiter_inv cfg s'"
proof (erule limiter_step.cases)
  assume i: "limiter_inv cfg s"
  { fix dt s0 assume "s = s0" "s' = s0\<lparr>ud_now := ud_now s0 + dt\<rparr>" "0 \<le> dt"
    then show ?thesis using i by (intro limiter_inv_mono [OF i]) (auto simp: limiter_inv_def usage_wf_def) }
  { fix s0 assume "s = s0" "s' = snd (canDispatchAuthedLocked cfg s0)"
    moreover obtain r s1 where "canDispatchAuthedLocked cfg s = (r, s1)" by force
    ultimately show ?thesis using can_dispatch_frame limiter_inv_cong [OF i] by auto }
  { fix s0 p a m assume "s = s0" "s' = snd (RecordAuthedDispatch cfg p a m s0)"
    moreover obtain r s1 where r: "recordAuthedDispatchLocked cfg p a m s = (r, s1)" by force
    ultimately show ?thesis
      using limiter_inv_reserve [OF i r] by (simp add: RecordAuthedDispatch_def split: reserve_result.splits) }
  { fix s0 j assume "s = s0" "s' = snd (ReleaseAuthedDispatch j s0)"
    then show ?thesis using i limiter_inv_release [OF i] by (simp add: ReleaseAuthedDispatch_def) }
  { fix s0 names providers excl a m
    assume "s = s0" "s' = snd (pickAndReserveFromCandidates cfg names providers excl a m s0)"
    then show ?thesis using limiter_inv_pick [OF i] by simp }
  { fix s0 assume "s = s0" "s' = snd (WeeklyUsagePct cfg s0)"
    then have "s' = snd (count_usage week s)"
      by (simp add: WeeklyUsagePct_def CountAuthedUsageWeekly_def split: prod.split sum.split)
    then show ?thesis using limiter_inv_count [OF i] by simp }
  { fix s0 assume "s = s0" "s' = snd (IsInHeadroomWarning cfg s0)"
    then have "s' = snd (count_usage week s)"
      by (simp add: IsInHeadroomWarning_def CountAuthedUsageWeekly_def split: prod.split sum.split)
    then show ?thesis using limiter_inv_count [OF i] by simp }
qed

lemma limiter_inv_empty: "limiter_inv cfg (empty_usage faults)"
  by (simp add: limiter_inv_def usage_wf_def empty_usage_def usage_since_def)

interpretation limiter_run: machine "empty_usage faults" "limiter_step cfg" "limiter_inv cfg" for faults cfg
  using limiter_inv_empty limiter_inv_step by unfold_locales

section \<open>Properties\<close>

text \<open>
  C10. The caps hold at all times: in every state that the limiter reaches under a configuration,
  whatever database calls fail on the way, the usage recorded in the last five hours and in the
  last seven days is at most the configured cap (0 for a negative one).
\<close>

theorem limiter_caps_hold:
  assumes "(limiter_step cfg)\<^sup>*\<^sup>* (empty_usage faults) s"
  shows "usage_since window5h s \<le> max 0 (rl_Window5hCap cfg) \<and> usage_since week s \<le> max 0 (rl_WeeklyCap cfg)"
  using limiter_run.inv_reachable [OF assms] by (simp add: limiter_inv_def)

definition sample_limits :: rate_limits where
  "sample_limits = \<lparr>rl_Window5hCap = 3, rl_WeeklyCap = 10, rl_WeeklyHeadroomPct = 80\<rparr>"

definition sample_usage :: usage_db where
  "sample_usage = snd (RecordAuthedDispatch sample_limits ''m'' ''a'' ''b'' (empty_usage []))"

lemma sample_usage_reachable: "(limiter_step sample_limits)\<^sup>*\<^sup>* (empty_usage []) sample_usage"
  unfolding sample_usage_def by (intro r_into_rtranclp limiter_step.recording)

lemma sample_usage_since: "usage_since window5h sample_usage = 1" "usage_since week sample_usage = 1"
  by code_simp+

theorem limiter_caps_hold_witness:
  "usage_since window5h sample_usage = 1 \<and>
   usage_since window5h sample_usage \<le> max 0 (rl_Window5hCap sample_limits)"
  using limiter_caps_hold [OF sample_usage_reachable] sample_usage_since by simp



text \<open>
  The last slot of a window cannot be used: with a five-hour cap of 1 no reservation ever
  succeeds, in any state and whatever fails, although \<open>CanDispatchAuthed\<close> permits a dispatch on an
  empty table.
\<close>

theorem last_slot_unusable:
  assumes "usage_wf s" and "rl_Window5hCap cfg = 1"
  shows "fst (recordAuthedDispatchLocked cfg p a m s) \<noteq> ReserveOK i \<and>
    (0 < rl_WeeklyCap cfg \<longrightarrow> fst (canDispatchAuthedLocked cfg (empty_usage [])) = None)"
proof -
  obtain r s' where r: "recordAuthedDispatchLocked cfg p a m s = (r, s')" by force
  have "0 \<le> usage_since window5h s" by (simp add: usage_since_def)
  then have "r \<noteq> ReserveOK i"
    using record_effect [OF assms(1) r] assms(2) by (auto simp: reserve_effect_def below_caps_def)
  then show ?thesis
    using r assms(2) by (simp add: can_dispatch_no_faults empty_usage_def usage_since_def)
qed

theorem last_slot_unusable_witness:
  "fst (recordAuthedDispatchLocked \<lparr>rl_Window5hCap = 1, rl_WeeklyCap = 9, rl_WeeklyHeadroomPct = 80\<rparr>
     ''m'' ''a'' ''b'' (empty_usage [])) \<noteq> ReserveOK 1"
  using last_slot_unusable [of "empty_usage []" "\<lparr>rl_Window5hCap = 1, rl_WeeklyCap = 9, rl_WeeklyHeadroomPct = 80\<rparr>"]
  by (simp add: usage_wf_def empty_usage_def)

text \<open>
  C16. A picked provider is one of the candidates, configured and not excluded; it carries a
  reservation exactly when it is an authed one, and releasing the reservation restores the usage
  table as it was before the pick.
\<close>

theorem pick_release_roundtrip:
  assumes "usage_wf s" and "pickAndReserveFromCandidates cfg names providers excl a m s = (Picked p name i, s')"
  shows "name \<in> set names \<and> providers name = Some p \<and> \<not> excl (pv_Model p) \<and> (i = 0 \<longleftrightarrow> \<not> pv_Authed p) \<and>
    (is_ok (fst (ReleaseAuthedDispatch i s')) \<longrightarrow> ud_rows (snd (ReleaseAuthedDispatch i s')) = ud_rows s)"
  using assms
proof (induction names arbitrary: s)
  case (Cons n names)
  show ?case
  proof (cases "\<exists>q. providers n = Some q \<and> \<not> excl (pv_Model q) \<and> pv_Authed q")
    case False
    then consider "pickAndReserveFromCandidates cfg names providers excl a m s = (Picked p name i, s')"
      | "providers n = Some p" "\<not> excl (pv_Model p)" "\<not> pv_Authed p" "name = n" "i = 0" "s' = s"
      using Cons.prems(2) by (auto split: option.splits if_splits)
    then show ?thesis
      by cases (use Cons.IH [OF Cons.prems(1)] in \<open>auto simp: ReleaseAuthedDispatch_def\<close>)
  next
    case True
    then obtain q where q: "providers n = Some q" "\<not> excl (pv_Model q)" "pv_Authed q" by blast
    obtain r s1 where r: "recordAuthedDispatchLocked cfg (pv_Model q) a m s = (r, s1)" by force
    note e = record_effect [OF Cons.prems(1) r]
    show ?thesis
    proof (cases "\<exists>j. r = ReserveOK j")
      case True
      then have res: "r = ReserveOK i" "p = q" "name = n" "s' = s1" using Cons.prems(2) q r by auto
      obtain d s2 where d: "DeleteProviderUsage i s1 = (d, s2)" by force
      have "0 < i" and i: "i = ud_next s" and rows: "ud_rows s1 = ud_rows s @ [new_usage s (pv_Model q) a m]"
        using e res(1) Cons.prems(1) by (auto simp: reserve_effect_def usage_wf_def)
      then have "is_ok d \<longrightarrow> ud_rows s2 = ud_rows s"
        using delete_effect [OF d] filter_fresh [OF Cons.prems(1)] by (simp add: new_usage_def)
      then show ?thesis using res q d \<open>0 < i\<close> by (simp add: ReleaseAuthedDispatch_def)
    next
      case False
      then have pick: "pickAndReserveFromCandidates cfg names providers excl a m s1 = (Picked p name i, s')"
        and same: "ud_rows s1 = ud_rows s" "ud_next s1 = ud_next s"
        using Cons.prems(2) q r e by (cases r; simp add: reserve_effect_def)+
      have "usage_wf s1" using Cons.prems(1) same by (simp add: usage_wf_def)
      from Cons.IH [OF this pick] same show ?thesis by simp
    qed
  qed
qed simp


definition sample_provider :: provider where
  "sample_provider = \<lparr>pv_Tier = ''fast'', pv_Authed = True, pv_Enabled = None, pv_Model = ''m'', pv_CLI = ''codex'',
     pv_Reviewer = [], pv_TokenCap = 0, pv_CostInputPerMtok = 0, pv_CostOutputPerMtok = 0\<rparr>"

theorem pick_release_roundtrip_witness:
  "\<exists>s'. pickAndReserveFromCandidates sample_limits [''x'', ''y''] [''y'' \<mapsto> sample_provider] (\<lambda>_. False) ''a'' ''b''
       (empty_usage []) = (Picked sample_provider ''y'' 1, s') \<and>
     ud_rows s' \<noteq> [] \<and> ud_rows (snd (ReleaseAuthedDispatch 1 s')) = []"
proof -
  let ?s = "sample_usage\<lparr>ud_rows := [\<lparr>pu_id = 1, pu_provider = ''m'', pu_agent = ''a'', pu_morsel = ''b'', pu_at = 0\<rparr>]\<rparr>"
  have e: "pickAndReserveFromCandidates sample_limits [''x'', ''y''] [''y'' \<mapsto> sample_provider] (\<lambda>_. False) ''a'' ''b''
      (empty_usage []) = (Picked sample_provider ''y'' 1, ?s)"
    and ok: "is_ok (fst (ReleaseAuthedDispatch 1 ?s))"
    by code_simp+
  have "usage_wf (empty_usage [])" by (simp add: usage_wf_def empty_usage_def)
  from pick_release_roundtrip [OF this e] ok have "ud_rows (snd (ReleaseAuthedDispatch 1 ?s)) = []"
    by (simp add: empty_usage_def)
  with e show ?thesis by (intro exI [of _ ?s]) simp
qed

end
