(* ===== verification/Agent_Cli.thy ===== *)
theory Agent_Cli
  imports "HOL-Library.Word" Rate_Limiter
begin

text \<open>
  Command-line agents, \<open>internal/temporal/agent_cli.go\<close>: the environment and the command line of an
  agent, the choice of agents by tier, the circuit breaker and the failover chain. Running a
  process is outside the model: \<open>runAgent\<close> is an argument that gives the result per agent (a chain
  names an agent once). The persisted blocks are a table from scope and type to a time; the
  process environment is an argument.
\<close>

section \<open>Environment of a command\<close>

definition filterEnv :: "string list \<Rightarrow> string \<Rightarrow> string list" where
  "filterEnv env key = filter (\<lambda>e. \<not> has_prefix e (key @ ''='')) env"

definition expandEnvValue :: "(string \<Rightarrow> string) \<Rightarrow> string \<Rightarrow> string" where
  "expandEnvValue getenv val = (if has_prefix val ''$'' then getenv (drop 1 val) else val)"

definition env_key :: "string \<Rightarrow> string" where
  "env_key e = (case index_byte e (CHR ''='') of None \<Rightarrow> e | Some idx \<Rightarrow> take idx e)"

fun override_base :: "(string \<Rightarrow> string) \<Rightarrow> (string \<times> string) list \<Rightarrow> string list \<Rightarrow> string list \<times> string list" where
  "override_base getenv overrides [] = ([], [])"
| "override_base getenv overrides (e # es) =
     (case override_base getenv overrides es of (result, replaced) \<Rightarrow>
        (case map_of overrides (env_key e) of
           None \<Rightarrow> (e # result, replaced)
         | Some val \<Rightarrow>
             (let v = expandEnvValue getenv val
              in (if v = [] then result else (env_key e @ ''='' @ v) # result, env_key e # replaced))))"

text \<open>\<open>overrides\<close> lists the entries of the map in the order of the traversal.\<close>

definition applyEnvOverrides ::
  "(string \<Rightarrow> string) \<Rightarrow> string list \<Rightarrow> (string \<times> string) list \<Rightarrow> string list" where
  "applyEnvOverrides getenv base overrides =
     (case override_base getenv overrides base of (result, replaced) \<Rightarrow>
        result @ concat (map (\<lambda>(k, v0). let v = expandEnvValue getenv v0
                                        in if k \<notin> set replaced \<and> v \<noteq> [] then [k @ ''='' @ v] else []) overrides))"

section \<open>Exhaustion and the circuit breaker\<close>

definition modelExhaustedPatterns :: "string list" where
  "modelExhaustedPatterns =
     [''usage limit'', ''rate limit'', ''quota exceeded'', ''try again at'', ''rate_limit_exceeded'',
      ''too many requests'', ''capacity'']"

definition IsModelExhausted :: "string \<Rightarrow> bool" where
  "IsModelExhausted output = list_ex (contains_str (to_lower output)) modelExhaustedPatterns"

type_synonym failure_tracker = "string \<Rightarrow> nat"

definition agentCircuitBreakerThreshold :: nat where
  "agentCircuitBreakerThreshold = 3"

definition recordFailure :: "string \<Rightarrow> failure_tracker \<Rightarrow> failure_tracker" where
  "recordFailure agent t = t(agent := t agent + 1)"

definition recordSuccess :: "string \<Rightarrow> failure_tracker \<Rightarrow> failure_tracker" where
  "recordSuccess agent t = t(agent := 0)"

definition isCircuitOpen :: "string \<Rightarrow> failure_tracker \<Rightarrow> bool" where
  "isCircuitOpen agent t = (agentCircuitBreakerThreshold \<le> t agent)"

section \<open>Choice of agents\<close>

definition tier_agents :: "tiers \<Rightarrow> string \<Rightarrow> string list" where
  "tier_agents ts tier =
     (if tier = ''fast'' \<or> tier = [] then ti_Fast ts
      else if tier = ''balanced'' then ti_Balanced ts
      else if tier = ''premium'' then ti_Premium ts else [])"

text \<open>The counters per tier are 64-bit words that wrap around.\<close>

definition ResolveTierAgent :: "tiers \<Rightarrow> string \<Rightarrow> (string \<Rightarrow> 64 word) \<Rightarrow> string \<times> (string \<Rightarrow> 64 word)" where
  "ResolveTierAgent ts rawtier counters =
     (let tier = trim_space (to_lower rawtier); agents = tier_agents ts tier
      in if agents = [] then (''codex'', counters)
         else if length agents = 1 then (agents ! 0, counters)
         else let idx = (counters tier + 1) - 1
              in (agents ! (unat idx mod length agents), counters(tier := counters tier + 1)))"

fun add_unique :: "string list \<Rightarrow> string list \<Rightarrow> string list" where
  "add_unique chain [] = chain"
| "add_unique chain (a # as) = (if a \<in> set chain then add_unique chain as else add_unique (chain @ [a]) as)"

definition EscalationChain :: "tiers \<Rightarrow> string \<Rightarrow> string list" where
  "EscalationChain ts rawtier =
     (let startTier = trim_space (to_lower rawtier);
          chain = (if startTier = ''fast'' \<or> startTier = []
                     then add_unique (add_unique (add_unique [] (ti_Fast ts)) (ti_Balanced ts)) (ti_Premium ts)
                   else if startTier = ''balanced'' then add_unique (add_unique [] (ti_Balanced ts)) (ti_Premium ts)
                   else if startTier = ''premium'' then add_unique [] (ti_Premium ts)
                   else [])
      in if chain = [] then [''codex''] else chain)"

definition ResolveProviderCLI :: "(string \<rightharpoonup> provider) \<Rightarrow> string \<Rightarrow> string \<times> string" where
  "ResolveProviderCLI providers providerKey =
     (case providers providerKey of
        None \<Rightarrow> (''codex'', [])
      | Some p \<Rightarrow> (if pv_CLI p = [] then ''codex'' else pv_CLI p, pv_Model p))"

definition normalizeAgent :: "string \<Rightarrow> string" where
  "normalizeAgent agent =
     (let lower = to_lower (trim_space agent)
      in case find (has_prefix lower) [''gemini'', ''codex'', ''deepseek'', ''claude''] of
           Some prefix \<Rightarrow> prefix | None \<Rightarrow> lower)"

section \<open>Command lines\<close>

record cli_config =
  cc_Cmd :: string
  cc_Args :: "string list"
  cc_ModelFlag :: string
  cc_Env :: "(string \<times> string) list"

record exec_cmd =
  xc_Path :: string
  xc_Args :: "string list"
  xc_Dir :: string
  xc_Env :: "string list option"

definition default_args :: "string \<Rightarrow> string \<Rightarrow> string \<times> string list" where
  "default_args agent model =
     (let with_model = (\<lambda>flag args. if model \<noteq> [] then args @ [flag, model] else args);
          n = normalizeAgent agent
      in if n = ''codex'' then (''codex'', with_model ''-m'' [''exec'', ''--full-auto'', ''--json''])
         else if n = ''gemini'' then (''gemini'', with_model ''--model'' [''-p'', [], ''--yolo'', ''-o'', ''json''])
         else if n = ''deepseek'' then (''deepseek'', with_model ''--model'' [''--json''])
         else if n = ''claude'' then (''claude'', with_model ''--model'' [''--dangerously-skip-permissions''])
         else (''codex'', with_model ''-m'' [''exec'', ''--full-auto'', ''--json'']))"

text \<open>\<open>cli\<close> is the configuration by agent, \<open>None\<close> without a configuration manager.\<close>

definition cliCommandWithModel ::
  "(string \<Rightarrow> string) \<Rightarrow> string list \<Rightarrow> (string \<rightharpoonup> cli_config) option \<Rightarrow> string \<Rightarrow> string \<Rightarrow> string \<Rightarrow> exec_cmd" where
  "cliCommandWithModel getenv environ cli agent workDir model =
     (let hardcoded = (case default_args agent model of (path, args) \<Rightarrow>
                         \<lparr>xc_Path = path, xc_Args = args, xc_Dir = workDir, xc_Env = None\<rparr>)
      in case (case cli of None \<Rightarrow> None | Some c \<Rightarrow> c agent) of
           None \<Rightarrow> hardcoded
         | Some c \<Rightarrow>
             if cc_Cmd c = [] then hardcoded
             else \<lparr>xc_Path = cc_Cmd c,
                   xc_Args = (if model \<noteq> [] \<and> cc_ModelFlag c \<noteq> [] then cc_Args c @ [cc_ModelFlag c, model] else cc_Args c),
                   xc_Dir = workDir,
                   xc_Env = (if cc_Env c \<noteq> [] then Some (applyEnvOverrides getenv environ (cc_Env c)) else None)\<rparr>)"

definition cliReviewCommand :: "string \<Rightarrow> string \<Rightarrow> exec_cmd" where
  "cliReviewCommand agent workDir =
     (let n = normalizeAgent agent;
          (path, args) = (if n = ''codex'' then (''codex'', [''exec'', ''--full-auto''])
                          else if n = ''gemini'' then (''gemini'', [''-p'', [], ''--yolo'', ''-o'', ''json''])
                          else if n = ''deepseek'' then (''deepseek'', [''--json''])
                          else if n = ''claude'' then (''claude'', [''--dangerously-skip-permissions''])
                          else (''codex'', [''exec'', ''--full-auto'']))
      in \<lparr>xc_Path = path, xc_Args = args, xc_Dir = workDir, xc_Env = None\<rparr>)"

section \<open>Failover\<close>

datatype agent_run = RunOk string | RunFailed string bool

text \<open>The text of an alert, with the values it is formatted from, and the emoji of the message.\<close>

datatype alert_detail =
    SkippedOpen string nat
  | AgentFailed string string nat nat nat string
  | CircuitTripped string nat
  | ChainExhausted string "string list" string

datatype alert_emoji = WarningSign | RedCircle | YellowCircle

datatype cli_event =
    Ran string
  | HealthEvent string alert_detail
  | AdminMessage alert_emoji string string string alert_detail

text \<open>Whether there are a store and a message sender with an admin room.\<close>

record alert_sinks =
  as_Store :: bool
  as_Sender :: bool

record cli_state =
  cs_tracker :: failure_tracker
  cs_blocks :: "string \<times> string \<rightharpoonup> int"
  cs_events :: "cli_event list"

datatype failover_error = AllExhausted string | AllCircuitBroken

definition blockDuration :: int where
  "blockDuration = 6 * 3600"

definition alertAgentFailure ::
  "alert_sinks \<Rightarrow> string \<Rightarrow> string \<Rightarrow> string \<Rightarrow> alert_detail \<Rightarrow> cli_state \<Rightarrow> cli_state" where
  "alertAgentFailure sinks agent tier eventType detail s =
     (let emoji = (if eventType = ''circuit_breaker_tripped'' \<or> eventType = ''all_agents_exhausted'' then RedCircle
                   else if eventType = ''model_exhausted'' then YellowCircle else WarningSign)
      in s\<lparr>cs_events := cs_events s @
             (if as_Store sinks then [HealthEvent eventType detail] else []) @
             (if as_Sender sinks then [AdminMessage emoji eventType agent tier detail] else [])\<rparr>)"

definition rehydrate :: "alert_sinks \<Rightarrow> int \<Rightarrow> string \<Rightarrow> cli_state \<Rightarrow> cli_state" where
  "rehydrate sinks now agent s =
     (if as_Store sinks \<and> \<not> isCircuitOpen agent (cs_tracker s)
      then (case cs_blocks s (''agent'', ''exhausted:'' @ agent) of
              None \<Rightarrow> s
            | Some until \<Rightarrow>
                if now < until
                then s\<lparr>cs_tracker := (recordFailure agent ^^ agentCircuitBreakerThreshold) (cs_tracker s)\<rparr>
                else s)
      else s)"

text \<open>\<open>i\<close> is the position of the agent in the chain and \<open>n\<close> the length of the chain.\<close>

definition after_failure ::
  "alert_sinks \<Rightarrow> int \<Rightarrow> string \<Rightarrow> nat \<Rightarrow> nat \<Rightarrow> string \<Rightarrow> string \<Rightarrow> bool \<Rightarrow> cli_state \<Rightarrow> cli_state" where
  "after_failure sinks now tier i n agent err exhausted s0 =
     (let s1 = s0\<lparr>cs_tracker := recordFailure agent (cs_tracker s0)\<rparr>;
          failCount = cs_tracker s1 agent;
          s2 = alertAgentFailure sinks agent tier (if exhausted then ''model_exhausted'' else ''agent_failure'')
                 (AgentFailed agent tier (i + 1) n failCount err) s1
      in if isCircuitOpen agent (cs_tracker s1)
         then let s3 = alertAgentFailure sinks agent tier ''circuit_breaker_tripped'' (CircuitTripped agent failCount) s2
              in if exhausted \<and> as_Store sinks
                 then s3\<lparr>cs_blocks := (cs_blocks s3)((''agent'', ''exhausted:'' @ agent) \<mapsto> now + blockDuration)\<rparr>
                 else s3
         else s2)"

fun failover_loop ::
  "(string \<Rightarrow> agent_run) \<Rightarrow> alert_sinks \<Rightarrow> int \<Rightarrow> string \<Rightarrow> string list \<Rightarrow> nat \<Rightarrow> string list \<Rightarrow> string option \<Rightarrow> cli_state
     \<Rightarrow> (failover_error, string \<times> string) result \<times> cli_state" where
  "failover_loop runAgent sinks now tier full i [] lastErr s =
     (case lastErr of
        Some e \<Rightarrow> (Inl (AllExhausted e),
                   alertAgentFailure sinks ''ALL'' tier ''all_agents_exhausted'' (ChainExhausted tier full e) s)
      | None \<Rightarrow> (Inl AllCircuitBroken, s))"
| "failover_loop runAgent sinks now tier full i (agent # chain) lastErr s =
     (let s1 = rehydrate sinks now agent s
      in if isCircuitOpen agent (cs_tracker s1)
         then failover_loop runAgent sinks now tier full (Suc i) chain lastErr
                (alertAgentFailure sinks agent tier ''circuit_breaker_open''
                   (SkippedOpen agent (cs_tracker s1 agent)) s1)
         else let s2 = s1\<lparr>cs_events := cs_events s1 @ [Ran agent]\<rparr>
              in case runAgent agent of
                   RunOk out \<Rightarrow> (Inr (out, agent), s2\<lparr>cs_tracker := recordSuccess agent (cs_tracker s2)\<rparr>)
                 | RunFailed e exhausted \<Rightarrow>
                     failover_loop runAgent sinks now tier full (Suc i) chain (Some e)
                       (after_failure sinks now tier i (length full) agent e exhausted s2))"

definition runAgentWithFailover ::
  "tiers \<Rightarrow> (string \<Rightarrow> agent_run) \<Rightarrow> alert_sinks \<Rightarrow> int \<Rightarrow> string \<Rightarrow> cli_state
     \<Rightarrow> (failover_error, string \<times> string) result \<times> cli_state" where
  "runAgentWithFailover ts runAgent sinks now tier s =
     failover_loop runAgent sinks now tier (EscalationChain ts tier) 0 (EscalationChain ts tier) None s"

section \<open>Chains\<close>

lemma add_unique_distinct: "distinct chain \<Longrightarrow> distinct (add_unique chain as)"
  by (induction chain as rule: add_unique.induct) auto

lemma add_unique_set: "set (add_unique chain as) = set chain \<union> set as"
  by (induction chain as rule: add_unique.induct) auto

lemma EscalationChain_distinct: "distinct (EscalationChain ts tier)"
  by (simp add: EscalationChain_def Let_def add_unique_distinct)

lemma EscalationChain_nonempty: "EscalationChain ts tier \<noteq> []"
  by (simp add: EscalationChain_def Let_def)

section \<open>The breaker\<close>

lemma recordFailure_funpow: "((recordFailure a ^^ n) t) b = (if b = a then t b + n else t b)"
  by (induction n) (auto simp: recordFailure_def)

lemma rehydrate_tracker:
  "cs_tracker s b \<le> cs_tracker (rehydrate st now a s) b" "cs_events (rehydrate st now a s) = cs_events s"
  by (auto simp: rehydrate_def recordFailure_funpow split: option.split)

lemma alert_frame [simp]:
  "cs_tracker (alertAgentFailure st a tr e d s) = cs_tracker s" "cs_blocks (alertAgentFailure st a tr e d s) = cs_blocks s"
  by (simp_all add: alertAgentFailure_def)

lemma after_failure_tracker: "cs_tracker s b \<le> cs_tracker (after_failure st now tr i n a er ex s) b"
  by (simp add: after_failure_def Let_def recordFailure_def)

text \<open>The runs of an event list.\<close>

fun ran :: "cli_event list \<Rightarrow> string list" where
  "ran [] = []"
| "ran (Ran a # es) = a # ran es"
| "ran (HealthEvent _ _ # es) = ran es"
| "ran (AdminMessage _ _ _ _ _ # es) = ran es"

lemma ran_append [simp]: "ran (xs @ ys) = ran xs @ ran ys"
  by (induction xs rule: ran.induct) auto

lemma ran_frame [simp]:
  "ran (cs_events (alertAgentFailure st a tr e d s)) = ran (cs_events s)"
  "ran (cs_events (after_failure st now tr i n a er ex s)) = ran (cs_events s)"
  by (simp_all add: alertAgentFailure_def after_failure_def Let_def)

definition blocked :: "alert_sinks \<Rightarrow> int \<Rightarrow> cli_state \<Rightarrow> string \<Rightarrow> bool" where
  "blocked st now s a \<longleftrightarrow> isCircuitOpen a (cs_tracker s) \<or>
     (as_Store st \<and> (\<exists>u. cs_blocks s (''agent'', ''exhausted:'' @ a) = Some u \<and> now < u))"

lemma blocked_rehydrate: "isCircuitOpen a (cs_tracker (rehydrate st now a s)) \<longleftrightarrow> blocked st now s a"
  by (auto simp: blocked_def rehydrate_def isCircuitOpen_def recordFailure_funpow split: option.split)

lemma blocked_frame:
  "blocked st now (alertAgentFailure st2 c tr e d s) b = blocked st now s b"
  "blocked st now (s\<lparr>cs_events := evs\<rparr>) b = blocked st now s b"
  by (simp_all add: blocked_def)

lemma blocked_other:
  assumes "b \<noteq> a"
  shows "blocked st now (rehydrate st now a s) b = blocked st now s b"
    "blocked st now (after_failure st now tr i n a er ex s) b = blocked st now s b"
  using assms
  by (auto simp: blocked_def rehydrate_def after_failure_def isCircuitOpen_def recordFailure_funpow recordFailure_def
      Let_def split: option.split)

lemma rehydrate_id: "\<not> blocked st now s a \<Longrightarrow> rehydrate st now a s = s"
  by (auto simp: blocked_def rehydrate_def split: option.split)

text \<open>What a pass over a chain did: the agents it ran, and why it stopped.\<close>

definition pass_ok ::
  "(string \<Rightarrow> agent_run) \<Rightarrow> (string \<Rightarrow> bool) \<Rightarrow> string list \<Rightarrow> (failover_error, string \<times> string) result \<Rightarrow> string list \<Rightarrow> bool" where
  "pass_ok run bl chain r tried \<longleftrightarrow>
     (case r of
        Inr (out, a) \<Rightarrow> (\<exists>before after. chain = before @ a # after \<and>
          tried = filter (\<lambda>b. \<not> bl b) before @ [a] \<and> \<not> bl a \<and> run a = RunOk out \<and>
          (\<forall>b \<in> set before. bl b \<or> (\<exists>e x. run b = RunFailed e x)))
      | Inl _ \<Rightarrow> tried = filter (\<lambda>b. \<not> bl b) chain \<and> (\<forall>b \<in> set chain. bl b \<or> (\<exists>e x. run b = RunFailed e x)))"

lemma pass_ok_cong:
  assumes "\<And>b. b \<in> set chain \<Longrightarrow> bl b = bl' b" and "pass_ok run bl chain r tried"
  shows "pass_ok run bl' chain r tried"
proof (cases r)
  case (Inl e)
  then show ?thesis using assms by (auto simp: pass_ok_def intro: filter_cong)
next
  case (Inr x)
  obtain out a where x: "x = (out, a)" by force
  from assms(2) obtain before after where c: "chain = before @ a # after"
    "tried = filter (\<lambda>b. \<not> bl b) before @ [a]" "\<not> bl a" "run a = RunOk out"
    "\<forall>b \<in> set before. bl b \<or> (\<exists>e x. run b = RunFailed e x)"
    by (auto simp: pass_ok_def Inr x)
  moreover have "filter (\<lambda>b. \<not> bl b) before = filter (\<lambda>b. \<not> bl' b) before"
    using assms(1) c(1) by (intro filter_cong) auto
  ultimately show ?thesis using assms(1) by (auto simp: pass_ok_def Inr x)
qed

lemma pass_ok_Cons:
  assumes "pass_ok run bl chain r tried" and "bl a \<or> (\<exists>e x. run a = RunFailed e x)"
  shows "pass_ok run bl (a # chain) r ((if bl a then [] else [a]) @ tried)"
proof (cases r)
  case (Inl e)
  then show ?thesis using assms by (auto simp: pass_ok_def)
next
  case (Inr x)
  obtain out c where x: "x = (out, c)" by force
  from assms(1) obtain before after where "chain = before @ c # after"
    "tried = filter (\<lambda>b. \<not> bl b) before @ [c]" "\<not> bl c" "run c = RunOk out"
    "\<forall>b \<in> set before. bl b \<or> (\<exists>e x. run b = RunFailed e x)"
    by (auto simp: pass_ok_def Inr x)
  then show ?thesis
    unfolding pass_ok_def Inr x sum.case prod.case
    by (intro exI [of _ "a # before"] exI [of _ after]) (use assms(2) in auto)
qed

lemma failover_loop_spec:
  assumes "failover_loop run st now tr fl i chain lastErr s = (r, s')" and "distinct chain"
  shows "\<exists>tried. ran (cs_events s') = ran (cs_events s) @ tried \<and> pass_ok run (blocked st now s) chain r tried"
  using assms
proof (induction run st now tr fl i chain lastErr s rule: failover_loop.induct)
  case (1 run st now tr fl i lastErr s)
  then show ?case by (auto simp: pass_ok_def split: option.splits)
next
  case (2 run st now tr fl i a chain lastErr s)
  have ne: "b \<noteq> a" if "b \<in> set chain" for b using "2.prems"(2) that by auto
  have d: "distinct chain" using "2.prems"(2) by simp
  show ?case
  proof (cases "blocked st now s a")
    case True
    let ?t = "alertAgentFailure st a tr ''circuit_breaker_open''
      (SkippedOpen a (cs_tracker (rehydrate st now a s) a)) (rehydrate st now a s)"
    have "failover_loop run st now tr fl (Suc i) chain lastErr ?t = (r, s')"
      using "2.prems"(1) True blocked_rehydrate by (simp add: Let_def)
    from "2.IH"(1) [OF refl _ this d] True obtain tried where
      t: "ran (cs_events s') = ran (cs_events ?t) @ tried" "pass_ok run (blocked st now ?t) chain r tried"
      by (auto simp: blocked_rehydrate)
    have "pass_ok run (blocked st now s) chain r tried"
      by (rule pass_ok_cong [OF _ t(2)]) (simp add: ne blocked_other blocked_frame)
    from pass_ok_Cons [OF this, of a] True t(1) show ?thesis by (auto simp: rehydrate_tracker)
  next
    case False
    then have h: "rehydrate st now a s = s" "\<not> isCircuitOpen a (cs_tracker s)"
      by (auto simp: rehydrate_id blocked_def)
    let ?s2 = "s\<lparr>cs_events := cs_events s @ [Ran a]\<rparr>"
    show ?thesis
    proof (cases "run a")
      case (RunOk out)
      then have "r = Inr (out, a)" "ran (cs_events s') = ran (cs_events s) @ [a]"
        using "2.prems"(1) h by (auto simp: Let_def)
      moreover have "pass_ok run (blocked st now s) (a # chain) (Inr (out, a)) [a]"
        unfolding pass_ok_def sum.case prod.case
        by (rule exI [of _ "[]"], rule exI [of _ chain]) (use False RunOk in auto)
      ultimately show ?thesis by blast
    next
      case (RunFailed e x)
      let ?t = "after_failure st now tr i (length fl) a e x ?s2"
      have "failover_loop run st now tr fl (Suc i) chain (Some e) ?t = (r, s')"
        using "2.prems"(1) h RunFailed by (simp add: Let_def)
      from "2.IH"(2) [OF refl _ refl RunFailed _ d] this h obtain tried where
        t: "ran (cs_events s') = ran (cs_events ?t) @ tried" "pass_ok run (blocked st now ?t) chain r tried"
        by auto
      have "pass_ok run (blocked st now s) chain r tried"
        by (rule pass_ok_cong [OF _ t(2)]) (simp add: ne blocked_other blocked_frame)
      from pass_ok_Cons [OF this, of a] False RunFailed t(1) show ?thesis by auto
    qed
  qed
qed

lemma failover_open_stays:
  assumes "failover_loop run st now tr fl i chain lastErr s = (r, s')" and "isCircuitOpen b (cs_tracker s)"
  shows "isCircuitOpen b (cs_tracker s')"
  using assms
proof (induction run st now tr fl i chain lastErr s rule: failover_loop.induct)
  case (1 run st now tr fl i lastErr s)
  then show ?case by (auto split: option.splits)
next
  case (2 run st now tr fl i a chain lastErr s)
  let ?s1 = "rehydrate st now a s"
  have o1: "isCircuitOpen b (cs_tracker ?s1)"
    using "2.prems"(2) rehydrate_tracker(1) [of s b] unfolding isCircuitOpen_def by (meson order_trans)
  show ?case
  proof (cases "isCircuitOpen a (cs_tracker ?s1)")
    case True
    then show ?thesis using 2 o1 by (simp add: Let_def)
  next
    case False
    then have "b \<noteq> a" using o1 by auto
    show ?thesis
    proof (cases "run a")
      case (RunOk out)
      then show ?thesis using "2.prems" False o1 \<open>b \<noteq> a\<close> by (auto simp: Let_def recordSuccess_def isCircuitOpen_def)
    next
      case (RunFailed e x)
      let ?s2 = "?s1\<lparr>cs_events := cs_events ?s1 @ [Ran a]\<rparr>"
      have "isCircuitOpen b (cs_tracker (after_failure st now tr i (length fl) a e x ?s2))"
        using o1 after_failure_tracker [of ?s2 b] unfolding isCircuitOpen_def by (simp add: le_trans)
      then show ?thesis using "2.IH"(2) [OF refl False refl RunFailed] "2.prems"(1) RunFailed False by (simp add: Let_def)
    qed
  qed
qed

section \<open>Properties\<close>

text \<open>
  C29. Failover over the chain of a tier runs, in order, exactly the agents that are not blocked (by an
  open circuit or a persisted block that is still in force) up to the first that succeeds, and
  returns that one; it fails exactly when every agent of the chain is blocked or failed.
\<close>

theorem failover_correct:
  assumes "runAgentWithFailover ts run st now tier s = (r, s')"
  shows "\<exists>tried. ran (cs_events s') = ran (cs_events s) @ tried \<and>
    (case r of
       Inr (out, a) \<Rightarrow> (\<exists>before after. EscalationChain ts tier = before @ a # after \<and>
          tried = filter (\<lambda>b. \<not> blocked st now s b) before @ [a] \<and> \<not> blocked st now s a \<and> run a = RunOk out \<and>
          (\<forall>b \<in> set before. blocked st now s b \<or> (\<exists>e x. run b = RunFailed e x)))
     | Inl _ \<Rightarrow> tried = filter (\<lambda>b. \<not> blocked st now s b) (EscalationChain ts tier) \<and>
          (\<forall>b \<in> set (EscalationChain ts tier). blocked st now s b \<or> (\<exists>e x. run b = RunFailed e x)))"
  using failover_loop_spec [OF assms [unfolded runAgentWithFailover_def] EscalationChain_distinct]
  unfolding pass_ok_def .

definition sample_tiers :: tiers where
  "sample_tiers = \<lparr>ti_Fast = [''gemini'', ''codex''], ti_Balanced = [''codex'', ''claude''], ti_Premium = [''claude'']\<rparr>"

definition sample_sinks :: alert_sinks where
  "sample_sinks = \<lparr>as_Store = True, as_Sender = True\<rparr>"

definition sample_cli :: cli_state where
  "sample_cli = \<lparr>cs_tracker = (\<lambda>a. if a = ''gemini'' then 3 else 0), cs_blocks = Map.empty, cs_events = []\<rparr>"

lemma sample_chain: "EscalationChain sample_tiers ''fast'' = [''gemini'', ''codex'', ''claude'']"
  by code_simp

theorem failover_correct_witness:
  "\<exists>s'. runAgentWithFailover sample_tiers (\<lambda>a. if a = ''claude'' then RunOk ''done'' else RunFailed ''x'' True) sample_sinks 0
     ''fast'' sample_cli = (Inr (''done'', ''claude''), s') \<and> ran (cs_events s') = [''codex'', ''claude'']"
proof -
  let ?run = "\<lambda>a. if a = ''claude'' then RunOk ''done'' else RunFailed ''x'' True"
  obtain r s' where e: "runAgentWithFailover sample_tiers ?run sample_sinks 0 ''fast'' sample_cli = (r, s')" by force
  have b: "blocked sample_sinks 0 sample_cli a \<longleftrightarrow> a = ''gemini''" for a
    by (simp add: blocked_def sample_cli_def isCircuitOpen_def agentCircuitBreakerThreshold_def)
  obtain tried where t: "ran (cs_events s') = ran (cs_events sample_cli) @ tried"
    and p: "pass_ok ?run (blocked sample_sinks 0 sample_cli) [''gemini'', ''codex'', ''claude''] r tried"
    using failover_correct [OF e] unfolding sample_chain pass_ok_def by blast
  have "r = Inr (''done'', ''claude'') \<and> tried = [''codex'', ''claude'']"
    using p unfolding pass_ok_def b by (auto split: sum.splits simp: Cons_eq_append_conv)
  then show ?thesis using e t by (simp add: sample_cli_def)
qed

text \<open>Failover calls at any time, with any outcome of the runs, for any tier.\<close>

inductive failover_step :: "tiers \<Rightarrow> cli_state \<Rightarrow> cli_state \<Rightarrow> bool" for ts where
  call: "failover_step ts s (snd (runAgentWithFailover ts run st now tier s))"

lemma failover_step_open:
  assumes "failover_step ts s s'" and "isCircuitOpen a (cs_tracker s)"
  shows "isCircuitOpen a (cs_tracker s')" and "\<exists>tried. ran (cs_events s') = ran (cs_events s) @ tried \<and> a \<notin> set tried"
proof -
  obtain run st now tier r where e: "runAgentWithFailover ts run st now tier s = (r, s')"
    using assms(1) by (cases rule: failover_step.cases) (metis prod.collapse)
  show "isCircuitOpen a (cs_tracker s')"
    using failover_open_stays [OF e [unfolded runAgentWithFailover_def] assms(2)] .
  obtain tried where t: "ran (cs_events s') = ran (cs_events s) @ tried"
    and p: "pass_ok run (blocked st now s) (EscalationChain ts tier) r tried"
    using failover_loop_spec [OF e [unfolded runAgentWithFailover_def] EscalationChain_distinct] by blast
  have "blocked st now s a" using assms(2) by (simp add: blocked_def)
  then have "a \<notin> set tried" using p by (auto simp: pass_ok_def split: sum.splits)
  with t show "\<exists>tried. ran (cs_events s') = ran (cs_events s) @ tried \<and> a \<notin> set tried" by blast
qed

text \<open>
  An open circuit never closes: once an agent has three consecutive failures, no later sequence
  of failover calls runs it again or closes its circuit, however much time passes.
\<close>

theorem breaker_permanent:
  assumes "(failover_step ts)\<^sup>*\<^sup>* s s'" and "isCircuitOpen a (cs_tracker s)"
  shows "isCircuitOpen a (cs_tracker s') \<and> (\<exists>tried. ran (cs_events s') = ran (cs_events s) @ tried \<and> a \<notin> set tried)"
  using assms(1)
proof (induction rule: rtranclp_induct)
  case base
  then show ?case using assms(2) by simp
next
  case (step t u)
  then obtain tried where t: "isCircuitOpen a (cs_tracker t)" "ran (cs_events t) = ran (cs_events s) @ tried" "a \<notin> set tried"
    by blast
  from failover_step_open [OF step(2) t(1)] t show ?case by auto
qed

theorem breaker_permanent_witness:
  "isCircuitOpen ''gemini'' (cs_tracker sample_cli) \<and>
   isCircuitOpen ''gemini'' (cs_tracker (snd (runAgentWithFailover sample_tiers (\<lambda>_. RunOk ''x'') sample_sinks 0 ''fast'' sample_cli)))"
proof -
  have o: "isCircuitOpen ''gemini'' (cs_tracker sample_cli)"
    by (simp add: isCircuitOpen_def sample_cli_def agentCircuitBreakerThreshold_def)
  have "(failover_step sample_tiers)\<^sup>*\<^sup>* sample_cli
      (snd (runAgentWithFailover sample_tiers (\<lambda>_. RunOk ''x'') sample_sinks 0 ''fast'' sample_cli))"
    by (rule r_into_rtranclp, rule failover_step.call)
  from breaker_permanent [OF this o] o show ?thesis by blast
qed


end
