(* ===== verification/Dispatcher.thy ===== *)
theory Dispatcher
  imports Task_Dag Agent_Workflow Agent_Cli
begin

text \<open>
  The dispatcher of \<open>internal/temporal/workflow_dispatcher.go\<close>: the scan that selects the tasks to start
  and the workflow that starts them.

  \<^item> The configuration is a record; a Go map that the code traverses is the list of its entries in
    the order of the traversal.
  \<^item> What the store and the Temporal server answer is the record \<open>scan_env\<close>: token burn, genomes,
    planner statistics and the lists of running workflows. Times are seconds, durations
    nanoseconds.
  \<^item> The scan changes the task graph (it promotes groomed tasks) and the round-robin counters;
    both are threaded through. Using a store that is not there is the error \<open>NilStore\<close>.
\<close>

section \<open>Configuration and candidates\<close>

record project_config =
  pc_Enabled :: bool
  pc_Workspace :: string
  pc_DoDChecks :: "string list"

record dispatch_config =
  dc_RateLimits :: rate_limits
  dc_MaxConcurrentTotal :: int
  dc_MaxPerTick :: int
  dc_SlowStepThreshold :: int
  dc_PlanningSignalTimeout :: int
  dc_PlanningSessionTimeout :: int
  dc_PlanningStaleBlockThreshold :: int
  dc_EnablePlannerV2 :: bool
  dc_HigherLearning :: bool
  dc_HigherLearningMaxRetries :: int
  dc_HigherLearningMaxHandoffs :: int
  dc_MaxConcurrentPerProject :: int
  dc_ChiefEnabled :: bool
  dc_CrabEnabled :: bool
  dc_Projects :: "(string \<times> project_config) list"
  dc_Providers :: "(string \<times> provider) list"
  dc_Tiers :: tiers

record planner_edge_stat =
  pe_ActionKey :: string
  pe_Visits :: int
  pe_Wins :: int
  pe_TotalReward :: rat
  pe_UpdatedAt :: "int option"

record dispatch_candidate =
  dx_TaskID :: string
  dx_Title :: string
  dx_TaskTitle :: string
  dx_Project :: string
  dx_WorkDir :: string
  dx_Prompt :: string
  dx_Species :: string
  dx_Labels :: "string list"
  dx_Priority :: int
  dx_Provider :: string
  dx_DoDChecks :: "string list"
  dx_SlowStepThreshold :: int
  dx_EstimateMinutes :: int
  dx_PreviousErrors :: "string list"
  dx_Generation :: int
  dx_Complexity :: int
  dx_HasCrabSeal :: bool
  dx_PlannerEdgeStats :: "planner_edge_stat list"

record scan_result =
  sc_Candidates :: "dispatch_candidate list"
  sc_Running :: int
  sc_MaxTotal :: int
  sc_PlanningRunning :: int
  sc_PlanningSignalTimeout :: int
  sc_PlanningSessionTimeout :: int
  sc_Throttled :: bool
  sc_ThrottleReason :: string
  sc_AvailableAgents :: "string list"
  sc_EscalationTiers :: "escalation_tier list"
  sc_EnablePlannerV2 :: bool
  sc_MaxRetriesOverride :: int
  sc_MaxHandoffsOverride :: int

definition empty_scan :: scan_result where
  "empty_scan = \<lparr>sc_Candidates = [], sc_Running = 0, sc_MaxTotal = 0, sc_PlanningRunning = 0,
     sc_PlanningSignalTimeout = 0, sc_PlanningSessionTimeout = 0, sc_Throttled = False, sc_ThrottleReason = [], sc_AvailableAgents = [],
     sc_EscalationTiers = [], sc_EnablePlannerV2 = False, sc_MaxRetriesOverride = 0, sc_MaxHandoffsOverride = 0\<rparr>"

section \<open>Timeouts, labels, prompts\<close>

text \<open>64-bit arithmetic in nanoseconds: the product may wrap around.\<close>

definition workflowTimeout :: "64 word \<Rightarrow> 64 word" where
  "workflowTimeout estimateMinutes =
     (let minTimeout = 30 * 60000000000; maxTimeout = 4 * 3600000000000
      in if estimateMinutes \<le>s 0 then minTimeout
         else let timeout = (estimateMinutes * 3) * 60000000000;
                  timeout1 = (if timeout <s minTimeout then minTimeout else timeout)
              in if maxTimeout <s timeout1 then maxTimeout else timeout1)"

definition hasCandidateLabel :: "string list \<Rightarrow> string \<Rightarrow> bool" where
  "hasCandidateLabel labels rawneedle =
     (let needle = trim_space (to_lower rawneedle)
      in if needle = [] then False else list_ex (\<lambda>l. trim_space (to_lower l) = needle) labels)"

definition isCrabEmittedCandidate :: "dispatch_candidate \<Rightarrow> bool" where
  "isCrabEmittedCandidate c = hasCandidateLabel (dx_Labels c) ''source:crab''"

definition shouldRouteToPlanningCeremony :: "dispatch_candidate \<Rightarrow> bool" where
  "shouldRouteToPlanningCeremony c =
     (if isCrabEmittedCandidate c then False
      else dx_Generation c = 0 \<or> dx_PreviousErrors c \<noteq> [] \<or> 70 < dx_Complexity c)"

definition planningTierForCandidate :: "dispatch_candidate \<Rightarrow> string" where
  "planningTierForCandidate c =
     (if 70 < dx_Complexity c \<or> dx_PreviousErrors c \<noteq> [] then ''premium'' else ''fast'')"

record planning_request =
  pr_Project :: string
  pr_Agent :: string
  pr_Tier :: string
  pr_WorkDir :: string
  pr_SignalTimeout :: int
  pr_SessionTimeout :: int
  pr_SlowStepThreshold :: int
  pr_TraceSessionID :: string
  pr_SeedTaskID :: string
  pr_SeedTaskTitle :: string
  pr_SeedTaskPrompt :: string
  pr_AutoMode :: bool

definition seededPlanningRequestFromCandidate ::
  "dispatch_candidate \<Rightarrow> string \<Rightarrow> int \<Rightarrow> int \<Rightarrow> int \<Rightarrow> planning_request" where
  "seededPlanningRequestFromCandidate c agent slowStep signalTimeout sessionTimeout =
     \<lparr>pr_Project = dx_Project c, pr_Agent = agent, pr_Tier = planningTierForCandidate c, pr_WorkDir = dx_WorkDir c,
      pr_SignalTimeout = (if signalTimeout \<le> 0 then 10 * minute else signalTimeout),
      pr_SessionTimeout = (if sessionTimeout \<le> 0 then 30 * minute else sessionTimeout),
      pr_SlowStepThreshold = slowStep,
      pr_TraceSessionID = ''dispatch-planning-'' @ dx_TaskID c,
      pr_SeedTaskID = dx_TaskID c,
      pr_SeedTaskTitle = (if trim_space (dx_TaskTitle c) = [] then trim_space (dx_Title c) else trim_space (dx_TaskTitle c)),
      pr_SeedTaskPrompt = dx_Prompt c, pr_AutoMode = True\<rparr>"

fun parse_log_lines :: "string list \<Rightarrow> string list \<Rightarrow> string list" where
  "parse_log_lines current [] =
     (let joined = trim_space (join_with nl current) in if joined \<noteq> [] then [joined] else [])"
| "parse_log_lines current (line # lines) =
     (if trim_space line = ''---''
      then (let joined = trim_space (join_with nl current)
            in (if joined \<noteq> [] then [joined] else []) @ parse_log_lines [] lines)
      else parse_log_lines (current @ [line]) lines)"

definition parseTaskErrorLog :: "string \<Rightarrow> string list" where
  "parseTaskErrorLog raw0 =
     (let raw = trim_space raw0
      in if raw = [] then []
         else parse_log_lines [] (split_on (CHR 0x0A) (replace_all raw [CHR 0x0D, CHR 0x0A] [CHR 0x0A])))"

text \<open>The text that \<open>RecordFailureActivity\<close> stores in \<open>error_log\<close>.\<close>

definition failure_scent :: "string list \<Rightarrow> string" where
  "failure_scent failures = join_with (nl @ ''---'' @ nl) failures"

definition RecordFailureActivity ::
  "(string \<Rightarrow> string list option) \<Rightarrow> dag_db option \<Rightarrow> string \<Rightarrow> string list \<Rightarrow> int \<Rightarrow> dag_db option dag_result" where
  "RecordFailureActivity json d taskID failures now =
     (if failures = [] then Inr d
      else case d of None \<Rightarrow> Inr d
        | Some db \<Rightarrow> map_sum id Some (UpdateTask json (Some db) taskID [(''error_log'', VString (failure_scent failures))] now))"

record open_workflow =
  ow_workflowID :: string
  ow_runID :: string
  ow_startTime :: "int option"

definition isStalePlanningWorkflow :: "open_workflow \<Rightarrow> int \<Rightarrow> int \<Rightarrow> bool" where
  "isStalePlanningWorkflow w now staleThreshold =
     (if staleThreshold \<le> 0 then False
      else case ow_startTime w of None \<Rightarrow> False
        | Some start \<Rightarrow> staleThreshold < (now - start) * 1000000000)"

fun last_index :: "string \<Rightarrow> char \<Rightarrow> nat option" where
  "last_index [] b = None"
| "last_index (c # cs) b =
     (case last_index cs b of Some i \<Rightarrow> Some (Suc i) | None \<Rightarrow> if c = b then Some 0 else None)"

definition lane_suffixes :: "string list" where
  "lane_suffixes = [''-direct'', ''-cambrian'', ''-planning'', ''-turtle'']"

definition extractTaskIDFromWorkflowID :: "string \<Rightarrow> string" where
  "extractTaskIDFromWorkflowID rawid =
     (let wfID = trim_space rawid
      in if wfID = [] then []
         else case last_index wfID (CHR ''-'') of
                None \<Rightarrow> wfID
              | Some idx \<Rightarrow>
                  if idx = 0 then wfID
                  else let suffix = drop (idx + 1) wfID
                       in if \<not> list_all is_digit suffix then wfID
                          else if length suffix < 8 then wfID
                          else let taskID = take idx wfID
                               in case find (has_suffix taskID) lane_suffixes of
                                    None \<Rightarrow> taskID | Some suf \<Rightarrow> trim_suffix taskID suf)"

definition isStrategicDeferredTask :: "task \<Rightarrow> bool" where
  "isStrategicDeferredTask t =
     list_ex (\<lambda>label. to_lower (trim_space label) = ''strategy:deferred'') (task_Labels t)"

definition hasCrabSeal :: "task \<Rightarrow> bool" where
  "hasCrabSeal t =
     (if task_Type t = ''morsel'' \<and> task_Acceptance t \<noteq> [] \<and> 0 < task_EstimateMinutes t then True
      else if list_ex (\<lambda>l. trim_space l = ''crab:approved'') (task_Labels t) then True
      else task_Type t = ''task'' \<and> 0 < task_EstimateMinutes t \<and> task_EstimateMinutes t \<le> 120)"

definition buildPrompt :: "task \<Rightarrow> string" where
  "buildPrompt t =
     trim_space (task_Title t @ nl @ nl @
       (if task_Description t \<noteq> [] then task_Description t @ nl @ nl else []) @
       (if task_Acceptance t \<noteq> [] then ''ACCEPTANCE CRITERIA:'' @ nl @ task_Acceptance t @ nl @ nl else []) @
       (if task_Design t \<noteq> [] then ''DESIGN:'' @ nl @ task_Design t @ nl @ nl else []))"

section \<open>Providers\<close>

definition IsEnabled :: "provider \<Rightarrow> bool" where
  "IsEnabled p = (case pv_Enabled p of None \<Rightarrow> True | Some b \<Rightarrow> b)"

type_synonym counters = "string \<Rightarrow> 64 word"

definition resolveProvider :: "dispatch_config \<Rightarrow> counters \<Rightarrow> string \<times> counters" where
  "resolveProvider cfg ctr =
     (if ti_Fast (dc_Tiers cfg) \<noteq> [] then ResolveTierAgent (dc_Tiers cfg) ''fast'' ctr
      else (case dc_Providers cfg of [] \<Rightarrow> [] | (name, _) # _ \<Rightarrow> name, ctr))"

definition resolveProviderForCoding :: "dispatch_config \<Rightarrow> counters \<Rightarrow> string \<times> counters" where
  "resolveProviderForCoding cfg ctr =
     (if ti_Balanced (dc_Tiers cfg) \<noteq> [] then ResolveTierAgent (dc_Tiers cfg) ''balanced'' ctr
      else resolveProvider cfg ctr)"

text \<open>\<open>burn cli\<close>: output tokens of the agent since midnight, \<open>None\<close> when the query fails.\<close>

definition escalation_tier_of ::
  "dispatch_config \<Rightarrow> bool \<Rightarrow> (string \<Rightarrow> int option) \<Rightarrow> string \<Rightarrow> escalation_tier" where
  "escalation_tier_of cfg has_store burn providerKey =
     (let providers = map_of (dc_Providers cfg); (cli, model) = ResolveProviderCLI providers providerKey
      in case providers providerKey of
           None \<Rightarrow> \<lparr>et_ProviderKey = providerKey, et_CLI = cli, et_Model = model, et_Tier = ''fast'',
                    et_Reviewer = [], et_Enabled = True\<rparr>
         | Some prov \<Rightarrow>
             (let capped = (IsEnabled prov \<and> 0 < pv_TokenCap prov \<and> has_store \<and>
                            (case burn cli of None \<Rightarrow> False | Some used \<Rightarrow> pv_TokenCap prov \<le> used))
              in \<lparr>et_ProviderKey = providerKey, et_CLI = cli, et_Model = model,
                  et_Tier = (if pv_Tier prov = [] then ''fast'' else pv_Tier prov),
                  et_Reviewer = pv_Reviewer prov, et_Enabled = IsEnabled prov \<and> \<not> capped\<rparr>))"

definition buildEscalationTiers ::
  "dispatch_config \<Rightarrow> bool \<Rightarrow> (string \<Rightarrow> int option) \<Rightarrow> escalation_tier list" where
  "buildEscalationTiers cfg has_store burn =
     (let startTier = (if ti_Balanced (dc_Tiers cfg) = [] then ''fast'' else ''balanced'')
      in map (escalation_tier_of cfg has_store burn) (EscalationChain (dc_Tiers cfg) startTier))"

definition enabledCLIAgents :: "dispatch_config \<Rightarrow> string list" where
  "enabledCLIAgents cfg =
     add_unique [] (filter (\<lambda>cli. cli \<noteq> []) (map (pv_CLI \<circ> snd) (filter (IsEnabled \<circ> snd) (dc_Providers cfg))))"

definition higherLearningMaxRetries :: "dispatch_config \<Rightarrow> int" where
  "higherLearningMaxRetries cfg = (if dc_HigherLearning cfg then dc_HigherLearningMaxRetries cfg else 0)"

definition higherLearningMaxHandoffs :: "dispatch_config \<Rightarrow> int" where
  "higherLearningMaxHandoffs cfg = (if dc_HigherLearning cfg then dc_HigherLearningMaxHandoffs cfg else 0)"

section \<open>The scan\<close>

record scan_env =
  se_hasStore :: bool
  se_burn5h :: "int option"
  se_burnWeek :: "int option"
  se_open :: "string \<Rightarrow> string + open_workflow list"
  se_planning :: "string + open_workflow list"
  se_now :: int
  se_genome :: "string \<Rightarrow> (bool \<times> int) option"
  se_edgeStats :: "string \<Rightarrow> planner_edge_stat list option"
  se_providerBurn :: "string \<Rightarrow> int option"
  se_expandHome :: "string \<Rightarrow> string"
  se_json :: "string \<Rightarrow> string list option"

datatype scan_error = ListOpenFailed string | NilStore

text \<open>\<open>%.0f\<close> of a percentage: the nearest integer, ties to even. Percentages are exact here.\<close>

definition fmt_pct :: "rat \<Rightarrow> string" where
  "fmt_pct r =
     (let n = \<lfloor>r\<rfloor>; d = r - of_int n
      in show_int (if d < 1 / 2 \<or> d = 1 / 2 \<and> even n then n else n + 1))"

definition gate_5h :: "rate_limits \<Rightarrow> int option \<Rightarrow> string option" where
  "gate_5h rl burn =
     (let cap5h = rl_Window5hCap rl
      in if 0 < cap5h
         then case burn of
                None \<Rightarrow> None
              | Some used \<Rightarrow>
                  if cap5h \<le> used
                  then Some (''5h claude output ceiling: '' @ show_int used @ ''/'' @ show_int cap5h @ '' ('' @
                             fmt_pct (of_int used * 100 / of_int cap5h) @ ''%)'')
                  else None
         else None)"

definition gate_weekly :: "rate_limits \<Rightarrow> int option \<Rightarrow> string option" where
  "gate_weekly rl burn =
     (let weeklyCap = rl_WeeklyCap rl;
          headroom = (if rl_WeeklyHeadroomPct rl \<le> 0 then 20 else rl_WeeklyHeadroomPct rl);
          ceiling = (of_int weeklyCap * of_int (100 - headroom) / 100 :: rat)
      in if 0 < weeklyCap
         then case burn of
                None \<Rightarrow> None
              | Some used \<Rightarrow>
                  if ceiling \<le> of_int used
                  then Some (''weekly claude ceiling: '' @ show_int used @ ''/'' @ show_int weeklyCap @ '' ('' @
                             fmt_pct (of_int used * 100 / of_int weeklyCap) @ ''%, '' @ show_int headroom @
                             ''% headroom reserved)'')
                  else None
         else None)"

text \<open>The token budget gate: the reason why dispatching is throttled, if it is.\<close>

definition budget_gate :: "dispatch_config \<Rightarrow> scan_env \<Rightarrow> string option" where
  "budget_gate cfg env =
     (if se_hasStore env
      then (case gate_5h (dc_RateLimits cfg) (se_burn5h env) of
              Some reason \<Rightarrow> Some reason
            | None \<Rightarrow> gate_weekly (dc_RateLimits cfg) (se_burnWeek env))
      else None)"

definition or_default :: "int \<Rightarrow> int \<Rightarrow> int" where
  "or_default d n = (if n \<le> 0 then d else n)"

record candidate =
  ca_task :: task
  ca_project :: string
  ca_workDir :: string
  ca_deferred :: bool

definition groomed_open :: "task \<Rightarrow> bool" where
  "groomed_open t \<longleftrightarrow> task_Status t = ''open'' \<and> 0 < task_EstimateMinutes t \<and> task_Acceptance t \<noteq> [] \<and>
     task_Type t \<noteq> ''epic'' \<and> task_Type t \<noteq> ''whale''"

fun auto_promote :: "scan_env \<Rightarrow> task list \<Rightarrow> dag_db \<Rightarrow> task list \<times> dag_db" where
  "auto_promote env [] db = ([], db)"
| "auto_promote env (t # ts) db =
     (if groomed_open t
      then (case set_status (se_json env) (Some db) (task_ID t) ''ready'' (se_now env) of
              Inl _ \<Rightarrow> (case auto_promote env ts db of (ts', db') \<Rightarrow> (t # ts', db'))
            | Inr db1 \<Rightarrow> (case auto_promote env ts db1 of (ts', db') \<Rightarrow> (t\<lparr>task_Status := ''ready''\<rparr> # ts', db')))
      else (case auto_promote env ts db of (ts', db') \<Rightarrow> (t # ts', db')))"

definition project_running :: "scan_env \<Rightarrow> string \<Rightarrow> int" where
  "project_running env name = (case se_open env name of Inl _ \<Rightarrow> 0 | Inr ws \<Rightarrow> int (length ws))"

definition project_candidates :: "scan_env \<Rightarrow> string \<Rightarrow> project_config \<Rightarrow> task list \<Rightarrow> candidate list" where
  "project_candidates env name proj all =
     map (\<lambda>t. \<lparr>ca_task = t, ca_project = name,
               ca_workDir = se_expandHome env (trim_space (pc_Workspace proj)),
               ca_deferred = isStrategicDeferredTask t\<rparr>)
       (FilterUnblockedOpen all (Some (BuildDepGraph all)))"

text \<open>\<open>projectRunning\<close> holds 0 for the projects the loop has not reached.\<close>

fun gather ::
  "dispatch_config \<Rightarrow> scan_env \<Rightarrow> int \<Rightarrow> (string \<times> project_config) list \<Rightarrow> dag_db \<Rightarrow> (string \<Rightarrow> int)
     \<Rightarrow> candidate list \<times> dag_db \<times> (string \<Rightarrow> int)" where
  "gather cfg env maxPerProject [] db prun = ([], db, prun)"
| "gather cfg env maxPerProject ((name, proj) # rest) db prun =
     (if \<not> pc_Enabled proj then gather cfg env maxPerProject rest db prun
      else let prun1 = prun(name := project_running env name)
           in if maxPerProject \<le> prun1 name then gather cfg env maxPerProject rest db prun1
              else case ListTasks (Some db) name [] of
                     Inl _ \<Rightarrow> gather cfg env maxPerProject rest db prun1
                   | Inr all \<Rightarrow>
                       (let (all1, db1) = (if \<not> dc_ChiefEnabled cfg \<and> \<not> dc_CrabEnabled cfg then auto_promote env all db
                                          else (all, db));
                            (cs, db2, prun2) = gather cfg env maxPerProject rest db1 prun1
                        in (project_candidates env name proj all1 @ cs, db2, prun2)))"

definition drop_deferred :: "candidate list \<Rightarrow> candidate list" where
  "drop_deferred cs = (if list_ex (\<lambda>c. \<not> ca_deferred c) cs then filter (\<lambda>c. \<not> ca_deferred c) cs else cs)"

definition candidate_less :: "candidate \<Rightarrow> candidate \<Rightarrow> bool" where
  "candidate_less a b =
     (let s = ca_task a; t = ca_task b
      in if task_Priority s \<noteq> task_Priority t then task_Priority s < task_Priority t
         else if (task_ParentID s \<noteq> []) \<noteq> (task_ParentID t \<noteq> []) then task_ParentID s \<noteq> []
         else task_EstimateMinutes s < task_EstimateMinutes t)"

definition dispatch_candidate_of ::
  "dispatch_config \<Rightarrow> scan_env \<Rightarrow> candidate \<Rightarrow> int \<Rightarrow> string \<Rightarrow> dispatch_candidate" where
  "dispatch_candidate_of cfg env c generation provider =
     (let t = ca_task c; prompt = buildPrompt t; species = classifySpecies [] (task_ID t) prompt []
      in \<lparr>dx_TaskID = task_ID t, dx_Title = task_Title t, dx_TaskTitle = task_Title t, dx_Project = ca_project c,
          dx_WorkDir = ca_workDir c, dx_Prompt = prompt, dx_Species = species, dx_Labels = task_Labels t,
          dx_Priority = normalizePriority (task_Priority t), dx_Provider = provider,
          dx_DoDChecks = (case map_of (dc_Projects cfg) (ca_project c) of None \<Rightarrow> [] | Some p \<Rightarrow> pc_DoDChecks p),
          dx_SlowStepThreshold = or_default (2 * minute) (dc_SlowStepThreshold cfg),
          dx_EstimateMinutes = task_EstimateMinutes t,
          dx_PreviousErrors = parseTaskErrorLog (task_ErrorLog t),
          dx_Generation = generation,
          dx_Complexity = ScoreTaskComplexity (task_Title t) prompt (task_Acceptance t) (task_EstimateMinutes t),
          dx_HasCrabSeal = hasCrabSeal t,
          dx_PlannerEdgeStats = (if dc_EnablePlannerV2 cfg \<and> se_hasStore env
                                 then (case se_edgeStats env species of None \<Rightarrow> [] | Some st \<Rightarrow> st) else [])\<rparr>)"

definition species_of :: "candidate \<Rightarrow> string" where
  "species_of c = classifySpecies [] (task_ID (ca_task c)) (buildPrompt (ca_task c)) []"

fun build_candidates ::
  "dispatch_config \<Rightarrow> scan_env \<Rightarrow> int \<Rightarrow> int \<Rightarrow> string set \<Rightarrow> candidate list \<Rightarrow> (string \<Rightarrow> int) \<Rightarrow> counters
     \<Rightarrow> dispatch_candidate list \<Rightarrow> (scan_error, dispatch_candidate list \<times> counters) result" where
  "build_candidates cfg env slots maxPerProject runningSet [] prun ctr acc = Inr (acc, ctr)"
| "build_candidates cfg env slots maxPerProject runningSet (c # cs) prun ctr acc =
     (if slots \<le> int (length acc) then Inr (acc, ctr)
      else if task_ID (ca_task c) \<in> runningSet
        then build_candidates cfg env slots maxPerProject runningSet cs prun ctr acc
      else if maxPerProject \<le> prun (ca_project c)
        then build_candidates cfg env slots maxPerProject runningSet cs prun ctr acc
      else if \<not> se_hasStore env then Inl NilStore
      else let g = se_genome env (species_of c)
           in if ca_project c \<noteq> ''golf-directory'' \<and> (case g of None \<Rightarrow> False | Some (h, _) \<Rightarrow> h)
              then build_candidates cfg env slots maxPerProject runningSet cs prun ctr acc
              else let (provider, ctr1) = resolveProviderForCoding cfg ctr;
                       generation = (case g of None \<Rightarrow> 0 | Some (_, n) \<Rightarrow> n)
                   in build_candidates cfg env slots maxPerProject runningSet cs
                        (prun(ca_project c := prun (ca_project c) + 1)) ctr1
                        (acc @ [dispatch_candidate_of cfg env c generation provider]))"

definition active_planning :: "dispatch_config \<Rightarrow> scan_env \<Rightarrow> open_workflow list" where
  "active_planning cfg env =
     (case se_planning env of Inl _ \<Rightarrow> []
      | Inr ws \<Rightarrow> filter (\<lambda>w. \<not> isStalePlanningWorkflow w (se_now env)
                              (or_default (35 * minute) (dc_PlanningStaleBlockThreshold cfg))) ws)"

definition task_ids_of :: "open_workflow list \<Rightarrow> string set" where
  "task_ids_of ws = (extractTaskIDFromWorkflowID \<circ> ow_workflowID) ` set ws"

definition ScanCandidatesActivity ::
  "dispatch_config \<Rightarrow> scan_env \<Rightarrow> dag_db \<Rightarrow> counters \<Rightarrow> (scan_error, scan_result) result \<times> dag_db \<times> counters" where
  "ScanCandidatesActivity cfg env db ctr =
     (case budget_gate cfg env of
        Some reason \<Rightarrow> (Inr (empty_scan\<lparr>sc_Throttled := True, sc_ThrottleReason := reason\<rparr>), db, ctr)
      | None \<Rightarrow>
      case se_open env [] of
        Inl e \<Rightarrow> (Inl (ListOpenFailed e), db, ctr)
      | Inr openWFs \<Rightarrow>
          (let running = int (length openWFs);
               maxTotal = or_default 3 (dc_MaxConcurrentTotal cfg)
           in if maxTotal \<le> running
              then (Inr (empty_scan\<lparr>sc_Running := running, sc_MaxTotal := maxTotal\<rparr>), db, ctr)
              else let slots = min (maxTotal - running) (or_default 3 (dc_MaxPerTick cfg));
                       planning = active_planning cfg env;
                       runningSet = task_ids_of openWFs \<union> task_ids_of planning;
                       maxPerProject = or_default 3 (dc_MaxConcurrentPerProject cfg);
                       (cs, db1, prun) = gather cfg env maxPerProject (dc_Projects cfg) db (\<lambda>_. 0);
                       sorted = sort_slice candidate_less (drop_deferred cs)
                   in case build_candidates cfg env slots maxPerProject runningSet sorted prun ctr [] of
                        Inl e \<Rightarrow> (Inl e, db1, ctr)
                      | Inr (result, ctr1) \<Rightarrow>
                          (Inr \<lparr>sc_Candidates = result, sc_Running = running, sc_MaxTotal = maxTotal,
                                sc_PlanningRunning = int (length planning),
                                sc_PlanningSignalTimeout = or_default (10 * minute) (dc_PlanningSignalTimeout cfg),
                                sc_PlanningSessionTimeout = or_default (30 * minute) (dc_PlanningSessionTimeout cfg),
                                sc_Throttled = False, sc_ThrottleReason = [], sc_AvailableAgents = enabledCLIAgents cfg,
                                sc_EscalationTiers = buildEscalationTiers cfg (se_hasStore env) (se_providerBurn env),
                                sc_EnablePlannerV2 = dc_EnablePlannerV2 cfg,
                                sc_MaxRetriesOverride = higherLearningMaxRetries cfg,
                                sc_MaxHandoffsOverride = higherLearningMaxHandoffs cfg\<rparr>, db1, ctr1)))"


section \<open>Building the candidates\<close>

lemma dispatch_candidate_of_simps [simp]:
  "dx_TaskID (dispatch_candidate_of cfg env c g p) = task_ID (ca_task c)"
  "dx_Project (dispatch_candidate_of cfg env c g p) = ca_project c"
  "dx_Species (dispatch_candidate_of cfg env c g p) = species_of c"
  by (simp_all add: dispatch_candidate_of_def species_of_def Let_def)

definition project_count :: "string \<Rightarrow> dispatch_candidate list \<Rightarrow> int" where
  "project_count p ds = int (length (filter (\<lambda>d. dx_Project d = p) ds))"

lemma project_count_simps [simp]:
  "project_count p [] = 0"
  "project_count p (d # ds) = (if dx_Project d = p then 1 else 0) + project_count p ds"
  by (simp_all add: project_count_def)

definition hibernates :: "scan_env \<Rightarrow> candidate \<Rightarrow> bool" where
  "hibernates env c \<longleftrightarrow> ca_project c \<noteq> ''golf-directory'' \<and> (\<exists>n. se_genome env (species_of c) = Some (True, n))"

text \<open>What the loop appends: candidates of the list, in its order, none running, within the slots and
  the project cap.\<close>

definition built_from ::
  "dispatch_config \<Rightarrow> scan_env \<Rightarrow> int \<Rightarrow> string set \<Rightarrow> candidate list \<Rightarrow> (string \<Rightarrow> int) \<Rightarrow> dispatch_candidate list \<Rightarrow> bool" where
  "built_from cfg env mp rs cs prun ds \<longleftrightarrow>
     (\<forall>d \<in> set ds. \<exists>c \<in> set cs. \<exists>g p. d = dispatch_candidate_of cfg env c g p \<and>
        task_ID (ca_task c) \<notin> rs \<and> \<not> hibernates env c) \<and>
     (\<forall>p. project_count p ds = 0 \<or> prun p + project_count p ds \<le> mp) \<and>
     (distinct (map (task_ID \<circ> ca_task) cs) \<longrightarrow> distinct (map dx_TaskID ds))"

lemma built_from_skip: "built_from cfg env mp rs cs prun ds \<Longrightarrow> built_from cfg env mp rs (c # cs) prun ds"
  unfolding built_from_def by auto

lemma built_from_take:
  assumes b: "built_from cfg env mp rs cs (prun(ca_project c := prun (ca_project c) + 1)) ds"
    and c: "task_ID (ca_task c) \<notin> rs" "\<not> hibernates env c" "prun (ca_project c) < mp"
  shows "built_from cfg env mp rs (c # cs) prun (dispatch_candidate_of cfg env c g p # ds)"
  unfolding built_from_def
proof (intro conjI allI impI)
  fix q
  have "project_count q ds = 0 \<or> (prun(ca_project c := prun (ca_project c) + 1)) q + project_count q ds \<le> mp"
    using b unfolding built_from_def by blast
  then show "project_count q (dispatch_candidate_of cfg env c g p # ds) = 0 \<or>
      prun q + project_count q (dispatch_candidate_of cfg env c g p # ds) \<le> mp"
    using c(3) by (cases "q = ca_project c") auto
next
  have src: "\<exists>c' \<in> set cs. \<exists>g p. d = dispatch_candidate_of cfg env c' g p \<and>
      task_ID (ca_task c') \<notin> rs \<and> \<not> hibernates env c'" if "d \<in> set ds" for d
    using b that unfolding built_from_def by blast
  then show "\<forall>d \<in> set (dispatch_candidate_of cfg env c g p # ds). \<exists>c' \<in> set (c # cs). \<exists>g p.
      d = dispatch_candidate_of cfg env c' g p \<and> task_ID (ca_task c') \<notin> rs \<and> \<not> hibernates env c'"
    using c(1,2) by (simp add: ball_simps) blast
  assume "distinct (map (task_ID \<circ> ca_task) (c # cs))"
  then have "task_ID (ca_task c) \<notin> (task_ID \<circ> ca_task) ` set cs" "distinct (map dx_TaskID ds)"
    using b unfolding built_from_def by auto
  moreover have "dx_TaskID ` set ds \<subseteq> (task_ID \<circ> ca_task) ` set cs" using src by force
  ultimately show "distinct (map dx_TaskID (dispatch_candidate_of cfg env c g p # ds))" by auto
qed

lemma build_candidates_spec:
  assumes "build_candidates cfg env slots mp rs cs prun ctr acc = Inr (res, ctr')"
  shows "\<exists>ds. res = acc @ ds \<and> built_from cfg env mp rs cs prun ds \<and> (ds = [] \<or> int (length res) \<le> slots)"
  using assms
proof (induction cs arbitrary: prun ctr acc)
  case Nil
  then show ?case by (simp add: built_from_def)
next
  case (Cons c cs)
  let ?rest = "\<lambda>prun ctr acc. build_candidates cfg env slots mp rs cs prun ctr acc"
  obtain p0 ctr0 where r: "resolveProviderForCoding cfg ctr = (p0, ctr0)" by force
  consider (stop) "res = acc"
    | (skip) "?rest prun ctr acc = Inr (res, ctr')"
    | (take) g p ctr1 where "\<not> slots \<le> int (length acc)" "task_ID (ca_task c) \<notin> rs" "prun (ca_project c) < mp"
        "\<not> hibernates env c"
        "?rest (prun(ca_project c := prun (ca_project c) + 1)) ctr1 (acc @ [dispatch_candidate_of cfg env c g p])
           = Inr (res, ctr')"
  proof (cases "slots \<le> int (length acc) \<or> task_ID (ca_task c) \<in> rs \<or> mp \<le> prun (ca_project c) \<or>
      \<not> se_hasStore env \<or> hibernates env c")
    case True
    then have "res = acc \<or> ?rest prun ctr acc = Inr (res, ctr')"
      using Cons.prems by (auto simp: Let_def hibernates_def split: if_splits)
    then show ?thesis using stop skip by blast
  next
    case False
    then have h: "\<not> (ca_project c \<noteq> ''golf-directory'' \<and>
        (case se_genome env (species_of c) of None \<Rightarrow> False | Some (h, _) \<Rightarrow> h))"
      by (auto simp: hibernates_def split: option.splits)
    have "?rest (prun(ca_project c := prun (ca_project c) + 1)) ctr0 (acc @ [dispatch_candidate_of cfg env c
        (case se_genome env (species_of c) of None \<Rightarrow> 0 | Some (_, n) \<Rightarrow> n) p0]) = Inr (res, ctr')"
      using Cons.prems False unfolding build_candidates.simps Let_def if_not_P [OF h] r prod.case by (simp cong: if_cong)
    then show ?thesis using False take by (meson not_le)
  qed
  then show ?case
  proof cases
    case stop
    then show ?thesis by (simp add: built_from_def)
  next
    case skip
    from Cons.IH [OF this] obtain ds where "res = acc @ ds" "built_from cfg env mp rs cs prun ds"
      "ds = [] \<or> int (length res) \<le> slots" by blast
    then show ?thesis by (intro exI [of _ ds] conjI built_from_skip)
  next
    case take
    from Cons.IH [OF take(5)] obtain ds where ds: "res = (acc @ [dispatch_candidate_of cfg env c g p]) @ ds"
      "built_from cfg env mp rs cs (prun(ca_project c := prun (ca_project c) + 1)) ds"
      "ds = [] \<or> int (length res) \<le> slots" by blast
    then have "int (length res) \<le> slots" using take(1) by auto
    with built_from_take [OF ds(2) take(2,4,3)] ds(1) show ?thesis
      by (intro exI [of _ "dispatch_candidate_of cfg env c g p # ds"]) simp
  qed
qed


section \<open>Promotion during the scan\<close>

text \<open>\<open>db'\<close> is \<open>db\<close> with some open tasks made ready.\<close>

definition promoted :: "int \<Rightarrow> dag_db \<Rightarrow> dag_db \<Rightarrow> bool" where
  "promoted now db db' \<longleftrightarrow> dag_inv db' \<and> db_edges db' = db_edges db \<and>
     (\<forall>j. lookup_row db' j = lookup_row db j \<or>
          (\<exists>t. lookup_row db j = Some t \<and> task_Status t = ''open'' \<and>
               lookup_row db' j = Some (t\<lparr>task_Status := ''ready'', task_UpdatedAt := now\<rparr>)))"

lemma promoted_refl: "dag_inv db \<Longrightarrow> promoted now db db"
  by (simp add: promoted_def)

lemma promoted_inv: "promoted now db db' \<Longrightarrow> dag_inv db'"
  by (simp add: promoted_def)

lemma promoted_trans: "promoted now a b \<Longrightarrow> promoted now b c \<Longrightarrow> promoted now a c"
  unfolding promoted_def by (smt (verit) option.inject task.select_convs(4) task.surjective task.update_convs)

lemma promoted_keeps:
  assumes "promoted now db db'" and "lookup_row db i = Some t" and "task_Status t \<noteq> ''open''"
  shows "lookup_row db' i = Some t"
  using assms unfolding promoted_def by (metis option.inject)

lemma promoted_project:
  assumes "promoted now db db'" and "lookup_row db i = Some a" and "lookup_row db' i = Some b"
  shows "task_Project b = task_Project a"
  using assms unfolding promoted_def by (auto dest!: spec [of _ i])

lemma set_ready_eq:
  assumes "dag_inv db" and "lookup_row db i = Some t"
  shows "(\<exists>e. set_status json (Some db) i ''ready'' now = Inl e) \<and> blocking_deps db i \<noteq> [] \<or>
    set_status json (Some db) i ''ready'' now = Inr (promote now i db) \<and> blocking_deps db i = []"
proof (cases "blocking_deps db i = []")
  case True
  then show ?thesis using set_ready_ok [OF assms True] by (simp add: promote_def)
next
  case False
  have "row_ok t" "task_ID t = i" using assms lookup_row_SomeD row_okD by blast+
  then have "trim_space i = i" "i \<noteq> []" by (auto simp: row_ok_def)
  then show ?thesis
    using False ensureReady_ok [of db i]
    by (cases "ensureReadyTransitionUnblocked db i") (auto simp: set_status_eq normalizeTaskStatus_ready)
qed

lemma promoted_promote:
  assumes "dag_inv db" and "lookup_row db i = Some t" and "task_Status t = ''open''"
  shows "promoted now db (promote now i db)"
  using assms by (simp add: promoted_def dag_inv_promote lookup_promote)

text \<open>A listed task and its row agree on what the filter reads.\<close>

definition mirrors :: "dag_db \<Rightarrow> task \<Rightarrow> bool" where
  "mirrors db t \<longleftrightarrow> (\<exists>r. lookup_row db (task_ID t) = Some r \<and> task_Status r = task_Status t \<and>
     task_Type r = task_Type t \<and> task_Project r = task_Project t) \<and>
     task_DependsOn t = succs (db_edges db) (task_ID t)"

lemma mirrors_promote:
  assumes "mirrors db t" and "task_ID t \<noteq> i"
  shows "mirrors (promote now i db) t"
  using assms by (simp add: mirrors_def lookup_promote)

lemma mirrors_promoted:
  assumes "mirrors db t" and "lookup_row db (task_ID t) = Some r" and "task_Status r = ''open''"
  shows "mirrors (promote now (task_ID t) db) (t\<lparr>task_Status := ''ready''\<rparr>)"
  using assms by (auto simp: mirrors_def lookup_promote)

lemma mirrors_other:
  assumes "mirrors db t" and "promoted now db db'" and "task_Status t \<noteq> ''open''"
  shows "mirrors db' t"
proof -
  obtain r where r: "lookup_row db (task_ID t) = Some r" "task_Status r = task_Status t" "task_Type r = task_Type t"
    "task_Project r = task_Project t" using assms(1) by (auto simp: mirrors_def)
  have "lookup_row db' (task_ID t) = Some r" using promoted_keeps [OF assms(2) r(1)] r(2) assms(3) by simp
  then show ?thesis using assms(1,2) r by (simp add: mirrors_def promoted_def)
qed

lemma auto_promote_ids: "auto_promote env ts db = (ts', db') \<Longrightarrow> map task_ID ts' = map task_ID ts"
  by (induction ts arbitrary: ts' db db') (auto split: if_splits sum.splits prod.splits)

lemma auto_promote_frame:
  assumes "auto_promote env ts db = (ts', db')" and "dag_inv db" and "\<forall>t \<in> set ts. mirrors db t"
    and "distinct (map task_ID ts)"
  shows "promoted (se_now env) db db' \<and> (\<forall>t \<in> set ts'. mirrors db' t) \<and>
    (\<forall>t. mirrors db t \<and> task_ID t \<notin> task_ID ` set ts \<longrightarrow> mirrors db' t)"
  using assms
proof (induction ts arbitrary: ts' db)
  case Nil
  then show ?case by (simp add: promoted_refl)
next
  case (Cons t ts)
  obtain r where r: "lookup_row db (task_ID t) = Some r" "task_Status r = task_Status t"
    using Cons.prems(3) by (auto simp: mirrors_def)
  have rest: "promoted (se_now env) db db' \<and> (\<forall>t \<in> set ts'. mirrors db' t) \<and>
    (\<forall>u. mirrors db u \<and> task_ID u \<notin> task_ID ` set (t # ts) \<longrightarrow> mirrors db' u)"
    if e: "auto_promote env ts db1 = (ts1, db')" "ts' = t1 # ts1"
      and p: "promoted (se_now env) db db1" "mirrors db1 t1" "task_ID t1 = task_ID t"
        "\<And>u. mirrors db u \<Longrightarrow> task_ID u \<noteq> task_ID t \<Longrightarrow> mirrors db1 u" for db1 ts1 t1
  proof -
    have ne: "task_ID u \<noteq> task_ID t" if "u \<in> set ts" for u using Cons.prems(4) that by (simp, metis imageI)
    have "\<forall>u \<in> set ts. mirrors db1 u" using Cons.prems(3) p(4) ne by simp
    from Cons.IH [OF e(1) promoted_inv [OF p(1)] this] Cons.prems(4)
    have i: "promoted (se_now env) db1 db'" "\<forall>u \<in> set ts1. mirrors db' u"
      "\<And>u. mirrors db1 u \<Longrightarrow> task_ID u \<notin> task_ID ` set ts \<Longrightarrow> mirrors db' u" by auto
    have "mirrors db' t1" using i(3) [OF p(2)] p(3) Cons.prems(4) by auto
    with i p e(2) promoted_trans show ?thesis by auto
  qed
  show ?case
  proof (cases "groomed_open t \<and> blocking_deps db (task_ID t) = []")
    case True
    then have o: "task_Status r = ''open''" using r(2) by (simp add: groomed_open_def)
    obtain ts1 where "auto_promote env ts (promote (se_now env) (task_ID t) db) = (ts1, db')"
      "ts' = t\<lparr>task_Status := ''ready''\<rparr> # ts1"
      using True Cons.prems(1) set_ready_eq [OF Cons.prems(2) r(1), of "se_json env" "se_now env"]
      by (auto split: prod.splits)
    then show ?thesis
      by (rule rest)
        (use Cons.prems r o in \<open>auto intro: promoted_promote mirrors_promoted mirrors_promote\<close>)
  next
    case False
    then obtain ts1 where "auto_promote env ts db = (ts1, db')" "ts' = t # ts1"
      using Cons.prems(1) set_ready_eq [OF Cons.prems(2) r(1), of "se_json env" "se_now env"]
      by (auto split: prod.splits if_splits sum.splits)
    then show ?thesis
      by (rule rest) (use Cons.prems in \<open>auto intro: promoted_refl\<close>)
  qed
qed

section \<open>Gathering\<close>

lemma ListTasks_mirrors:
  assumes "ListTasks (Some db) name [] = Inr all" and "dag_inv db"
  shows "distinct (map task_ID all) \<and> (\<forall>t \<in> set all. mirrors db t \<and> task_Project t = trim_space name)"
proof -
  let ?rows = "filter (\<lambda>t. task_Project t = trim_space name) (db_tasks db)"
  have all: "all = map (\<lambda>t. t\<lparr>task_DependsOn := succs (db_edges db) (task_ID t)\<rparr>) ?rows"
    using assms(1) by (auto simp: ListTasks_def Let_def normalizeStatusFilters_def attach_deps_succs split: if_splits)
  have "mirrors db (t\<lparr>task_DependsOn := succs (db_edges db) (task_ID t)\<rparr>)" if "t \<in> set (db_tasks db)" for t
    using lookup_row_Some [OF assms(2), of "task_ID t" t] that by (simp add: mirrors_def)
  then show ?thesis
    using assms(2) by (auto simp: all dag_inv_def comp_def distinct_map_filter)
qed

text \<open>What the scan may start: a ready task that is no container and has no unfinished dependency.\<close>

definition startable :: "dag_db \<Rightarrow> string \<Rightarrow> string \<Rightarrow> bool" where
  "startable db project i \<longleftrightarrow>
     (\<exists>r. lookup_row db i = Some r \<and> task_Status r = ''ready'' \<and> task_Type r \<notin> {''epic'', ''whale''} \<and>
          task_Project r = project) \<and>
     (\<forall>d. (i, d) \<in> set (db_edges db) \<longrightarrow> (\<exists>t. lookup_row db d = Some t \<and> isClosedTask (task_Status t)))"

lemma startable_promoted:
  assumes "startable db p i" and "promoted now db db'"
  shows "startable db' p i"
proof -
  have keep: "lookup_row db' j = Some t" if "lookup_row db j = Some t" "task_Status t \<noteq> ''open''" for j t
    using promoted_keeps [OF assms(2)] that .
  have "lookup_row db' d = Some t" if "lookup_row db d = Some t" "isClosedTask (task_Status t)" for d t
    using keep [OF that(1)] that(2) open_ready_not_closed(1) by fastforce
  moreover have "lookup_row db' i = Some r" if "lookup_row db i = Some r" "task_Status r = ''ready''" for r
    using keep [OF that(1)] that(2) by simp
  moreover have "db_edges db' = db_edges db" using assms(2) by (simp add: promoted_def)
  ultimately show ?thesis using assms(1) unfolding startable_def by metis
qed

lemma filter_startable:
  assumes inv: "dag_inv db" and m: "\<forall>t \<in> set ts. mirrors db t \<and> task_Project t = p" and "distinct (map task_ID ts)"
    and t: "t \<in> set (FilterUnblockedOpen ts (Some (BuildDepGraph ts)))"
  shows "startable db p (task_ID t)"
proof -
  have f: "t \<in> set ts" "isDispatchableTask t" "\<not> isContainerTask t" "allDepsClosed t (Some (BuildDepGraph ts))"
    using t by (simp_all add: unblocked.select_iff)
  have mt: "mirrors db t" "task_Project t = p" using m f(1) by auto
  obtain r where r: "lookup_row db (task_ID t) = Some r" "task_Status r = task_Status t" "task_Type r = task_Type t"
    "task_Project r = p" using mt by (auto simp: mirrors_def)
  have ok: "row_ok r" using r(1) inv lookup_row_SomeD row_okD by blast
  have n: "normalizeTaskStatus (task_Status t) = task_Status t" "normalizeTaskType (task_Type t) = task_Type t"
    using ok r by (auto simp: row_ok_def)
  then have s: "to_lower (task_Status t) = task_Status t" "trim_space (task_Status t) = task_Status t"
    "to_lower (task_Type t) = task_Type t" "trim_space (task_Type t) = task_Type t"
    using normalizeTaskStatus_fixed [of "task_Status t"] normalizeTaskType_fixed [of "task_Type t"] by auto
  have "\<exists>u. lookup_row db d = Some u \<and> isClosedTask (task_Status u)" if e: "(task_ID t, d) \<in> set (db_edges db)" for d
  proof -
    obtain v where v: "lookup_row db d = Some v" using edge_row [OF inv e] by blast
    have "row_ok v" "task_ID v = d" using v inv lookup_row_SomeD row_okD by blast+
    then have d: "trim_space d = d" "d \<noteq> []" by (auto simp: row_ok_def)
    have "d \<in> set (task_DependsOn t)" using mt e by (simp add: mirrors_def set_succs)
    then obtain u where u: "u \<in> set ts" "task_ID u = d" "isClosedTask (task_Status u)"
      using allDepsClosed_build [OF assms(3) f(1)] f(4) d by auto
    then show ?thesis using m by (fastforce simp: mirrors_def)
  qed
  then show ?thesis
    using r f s n(1) by (auto simp: startable_def isDispatchableTask_def isContainerTask_def Let_def)
qed

definition enabled_names :: "(string \<times> project_config) list \<Rightarrow> string set" where
  "enabled_names ps = {n. \<exists>proj. (n, proj) \<in> set ps \<and> pc_Enabled proj}"

lemma enabled_names_simps [simp]:
  "enabled_names [] = {}"
  "enabled_names ((n, proj) # ps) = (if pc_Enabled proj then insert n (enabled_names ps) else enabled_names ps)"
  by (auto simp: enabled_names_def)

text \<open>What the scan gathers for one project.\<close>

definition gather_project :: "dispatch_config \<Rightarrow> scan_env \<Rightarrow> string \<Rightarrow> project_config \<Rightarrow> dag_db \<Rightarrow> candidate list \<times> dag_db" where
  "gather_project cfg env name proj db =
     (case ListTasks (Some db) name [] of
        Inl _ \<Rightarrow> ([], db)
      | Inr all \<Rightarrow> (case (if \<not> dc_ChiefEnabled cfg \<and> \<not> dc_CrabEnabled cfg then auto_promote env all db else (all, db)) of
          (all1, db1) \<Rightarrow> (project_candidates env name proj all1, db1)))"

lemma gather_Cons:
  "gather cfg env mp ((name, proj) # rest) db prun =
     (if \<not> pc_Enabled proj then gather cfg env mp rest db prun
      else if mp \<le> project_running env name then gather cfg env mp rest db (prun(name := project_running env name))
      else case gather_project cfg env name proj db of
        (cs1, db1) \<Rightarrow> case gather cfg env mp rest db1 (prun(name := project_running env name)) of
          (cs, db2, prun2) \<Rightarrow> (cs1 @ cs, db2, prun2))"
  by (simp add: gather_project_def Let_def split: sum.split prod.split)

lemma gather_project_spec:
  assumes "gather_project cfg env name proj db = (cs, db')" and inv: "dag_inv db"
  shows "promoted (se_now env) db db' \<and> distinct (map (task_ID \<circ> ca_task) cs) \<and>
    (\<forall>c \<in> set cs. ca_project c = name \<and> startable db' (trim_space name) (task_ID (ca_task c)))"
proof (cases "ListTasks (Some db) name []")
  case (Inl e)
  then show ?thesis using assms by (auto simp: gather_project_def promoted_refl)
next
  case (Inr all)
  have l: "distinct (map task_ID all)" "\<forall>t \<in> set all. mirrors db t \<and> task_Project t = trim_space name"
    using ListTasks_mirrors [OF Inr inv] by auto
  obtain all1 where a: "(if \<not> dc_ChiefEnabled cfg \<and> \<not> dc_CrabEnabled cfg then auto_promote env all db else (all, db))
      = (all1, db')" "cs = project_candidates env name proj all1"
    using assms(1) Inr by (auto simp: gather_project_def split: prod.splits)
  have m: "promoted (se_now env) db db'" "map task_ID all1 = map task_ID all" "\<forall>t \<in> set all1. mirrors db' t"
  proof (atomize(full), cases "\<not> dc_ChiefEnabled cfg \<and> \<not> dc_CrabEnabled cfg")
    case True
    then have "auto_promote env all db = (all1, db')" using a(1) by simp
    with auto_promote_frame [OF this inv _ l(1)] auto_promote_ids [OF this] l(2)
    show "promoted (se_now env) db db' \<and> map task_ID all1 = map task_ID all \<and> (\<forall>t \<in> set all1. mirrors db' t)"
      by blast
  next
    case False
    then have "all1 = all" "db' = db" using a(1) by auto
    then show "promoted (se_now env) db db' \<and> map task_ID all1 = map task_ID all \<and> (\<forall>t \<in> set all1. mirrors db' t)"
      using l(2) inv promoted_refl by blast
  qed
  have d: "distinct (map task_ID all1)" using m(2) l(1) by simp
  have ids: "task_ID ` set all1 = task_ID ` set all" using m(2) by (metis list.set_map)
  have "task_Project t = trim_space name" if t: "t \<in> set all1" for t
  proof -
    obtain u where u: "u \<in> set all" "task_ID u = task_ID t" using t ids by (metis imageE imageI)
    then have "\<exists>r. lookup_row db (task_ID t) = Some r \<and> task_Project r = trim_space name"
      using l(2) by (metis mirrors_def)
    moreover have "\<exists>r. lookup_row db' (task_ID t) = Some r \<and> task_Project r = task_Project t"
      using m(3) t by (auto simp: mirrors_def)
    ultimately show ?thesis using promoted_project [OF m(1)] by metis
  qed
  then have "startable db' (trim_space name) (task_ID t)"
    if "t \<in> set (FilterUnblockedOpen all1 (Some (BuildDepGraph all1)))" for t
    using filter_startable [OF promoted_inv [OF m(1)] _ d that] m(3) by blast
  then show ?thesis
    using m(1) unblocked.select_distinct [OF d] by (auto simp: a(2) project_candidates_def comp_def)
qed

lemma gather_running:
  "gather cfg env mp ps db prun = (cs, db', prun') \<Longrightarrow>
     prun' n = (if n \<in> enabled_names ps then project_running env n else prun n)"
proof (induction ps arbitrary: db prun cs)
  case (Cons p ps)
  obtain name proj where p: "p = (name, proj)" by force
  show ?case
    using Cons.prems Cons.IH unfolding p gather_Cons by (auto split: if_splits prod.splits)
qed simp

lemma gather_spec:
  assumes "gather cfg env mp ps db prun = (cs, db', prun')" and "dag_inv db"
  shows "promoted (se_now env) db db' \<and>
    (\<forall>c \<in> set cs. ca_project c \<in> enabled_names ps \<and> startable db' (trim_space (ca_project c)) (task_ID (ca_task c))) \<and>
    (distinct (map (trim_space \<circ> fst) ps) \<longrightarrow> distinct (map (task_ID \<circ> ca_task) cs))"
  using assms
proof (induction ps arbitrary: db prun cs)
  case Nil
  then show ?case by (simp add: promoted_refl)
next
  case (Cons p ps)
  obtain name proj where p: "p = (name, proj)" by force
  let ?prun = "prun(name := project_running env name)"
  show ?case
  proof (cases "pc_Enabled proj \<and> \<not> mp \<le> project_running env name")
    case False
    then obtain prun1 where "gather cfg env mp ps db prun1 = (cs, db', prun')"
      using Cons.prems(1) unfolding p gather_Cons by (auto split: if_splits)
    from Cons.IH [OF this Cons.prems(2)] show ?thesis by (auto simp: p)
  next
    case True
    obtain cs1 db1 where g: "gather_project cfg env name proj db = (cs1, db1)" by force
    obtain cs2 where r: "gather cfg env mp ps db1 ?prun = (cs2, db', prun')" "cs = cs1 @ cs2"
      using Cons.prems(1) True g unfolding p gather_Cons by (auto split: prod.splits)
    note f = gather_project_spec [OF g Cons.prems(2)]
    have i: "promoted (se_now env) db1 db'"
      "\<And>c. c \<in> set cs2 \<Longrightarrow> ca_project c \<in> enabled_names ps \<and> startable db' (trim_space (ca_project c)) (task_ID (ca_task c))"
      "distinct (map (trim_space \<circ> fst) ps) \<Longrightarrow> distinct (map (task_ID \<circ> ca_task) cs2)"
      using Cons.IH [OF r(1)] f promoted_inv by blast+
    have one: "ca_project c = name \<and> startable db' (trim_space name) (task_ID (ca_task c))" if "c \<in> set cs1" for c
      using f that startable_promoted [OF _ i(1)] by blast
    have "promoted (se_now env) db db'" using f i(1) promoted_trans by blast
    moreover have "distinct (map (task_ID \<circ> ca_task) cs)" if "distinct (map (trim_space \<circ> fst) (p # ps))"
    proof -
      have "task_ID (ca_task c) \<noteq> task_ID (ca_task c')" if cc: "c \<in> set cs1" "c' \<in> set cs2" for c c'
      proof
        assume e: "task_ID (ca_task c) = task_ID (ca_task c')"
        have "trim_space name = trim_space (ca_project c')"
          using one [OF cc(1)] i(2) [OF cc(2)] unfolding startable_def e by (metis option.inject)
        moreover have "ca_project c' \<in> fst ` set ps" using i(2) [OF cc(2)] by (force simp: enabled_names_def)
        ultimately show False
          using \<open>distinct (map (trim_space \<circ> fst) (p # ps))\<close> by (force simp: p)
      qed
      then have "set (map (task_ID \<circ> ca_task) cs1) \<inter> set (map (task_ID \<circ> ca_task) cs2) = {}" by auto
      moreover have "distinct (map (trim_space \<circ> fst) ps)" using that unfolding list.map distinct.simps by blast
      ultimately show ?thesis using f i(3) unfolding r(2) map_append distinct_append by blast
    qed
    moreover have "ca_project c \<in> enabled_names (p # ps) \<and> startable db' (trim_space (ca_project c)) (task_ID (ca_task c))"
      if "c \<in> set cs" for c
      using that one i(2) True by (auto simp: r(2) p)
    ultimately show ?thesis by blast
  qed
qed

section \<open>The result of a scan\<close>

lemma drop_deferred_set: "set (drop_deferred cs) \<subseteq> set cs"
  by (auto simp: drop_deferred_def)

lemma drop_deferred_distinct: "distinct (map f cs) \<Longrightarrow> distinct (map f (drop_deferred cs))"
  by (simp add: drop_deferred_def distinct_map_filter)

text \<open>An unthrottled scan that found a free slot, taken apart.\<close>

lemma scan_cases:
  assumes "ScanCandidatesActivity cfg env db ctr = (Inr r, db', ctr')" and "sc_Candidates r \<noteq> []"
  obtains openWFs cs prun ctr0 where "se_open env [] = Inr openWFs" "sc_Running r = int (length openWFs)"
    "sc_MaxTotal r = or_default 3 (dc_MaxConcurrentTotal cfg)"
    "gather cfg env (or_default 3 (dc_MaxConcurrentPerProject cfg)) (dc_Projects cfg) db (\<lambda>_. 0) = (cs, db', prun)"
    "build_candidates cfg env (min (sc_MaxTotal r - sc_Running r) (or_default 3 (dc_MaxPerTick cfg)))
       (or_default 3 (dc_MaxConcurrentPerProject cfg)) (task_ids_of openWFs \<union> task_ids_of (active_planning cfg env))
       (sort_slice candidate_less (drop_deferred cs)) prun ctr0 [] = Inr (sc_Candidates r, ctr')"
  using assms
  by (auto simp: ScanCandidatesActivity_def Let_def empty_scan_def split: option.splits sum.splits if_splits prod.splits)

lemma scan_spec:
  assumes "ScanCandidatesActivity cfg env db ctr = (Inr r, db', ctr')" and "sc_Candidates r \<noteq> []" and "dag_inv db"
  obtains openWFs cs where "se_open env [] = Inr openWFs" "sc_Running r = int (length openWFs)"
    "sc_MaxTotal r = or_default 3 (dc_MaxConcurrentTotal cfg)"
    "int (length (sc_Candidates r)) \<le> min (sc_MaxTotal r - sc_Running r) (or_default 3 (dc_MaxPerTick cfg))"
    "promoted (se_now env) db db'"
    "\<forall>c \<in> set cs. ca_project c \<in> enabled_names (dc_Projects cfg) \<and>
       startable db' (trim_space (ca_project c)) (task_ID (ca_task c))"
    "distinct (map (trim_space \<circ> fst) (dc_Projects cfg)) \<longrightarrow> distinct (map (task_ID \<circ> ca_task) cs)"
    "built_from cfg env (or_default 3 (dc_MaxConcurrentPerProject cfg))
       (task_ids_of openWFs \<union> task_ids_of (active_planning cfg env)) cs
       (\<lambda>n. if n \<in> enabled_names (dc_Projects cfg) then project_running env n else 0) (sc_Candidates r)"
proof -
  obtain openWFs cs prun ctr0 where s: "se_open env [] = Inr openWFs" "sc_Running r = int (length openWFs)"
    "sc_MaxTotal r = or_default 3 (dc_MaxConcurrentTotal cfg)"
    and g: "gather cfg env (or_default 3 (dc_MaxConcurrentPerProject cfg)) (dc_Projects cfg) db (\<lambda>_. 0) = (cs, db', prun)"
    and b: "build_candidates cfg env (min (sc_MaxTotal r - sc_Running r) (or_default 3 (dc_MaxPerTick cfg)))
       (or_default 3 (dc_MaxConcurrentPerProject cfg)) (task_ids_of openWFs \<union> task_ids_of (active_planning cfg env))
       (sort_slice candidate_less (drop_deferred cs)) prun ctr0 [] = Inr (sc_Candidates r, ctr')"
    using scan_cases [OF assms(1,2)] .
  have "prun = (\<lambda>n. if n \<in> enabled_names (dc_Projects cfg) then project_running env n else 0)"
    using gather_running [OF g] by auto
  note f = gather_spec [OF g assms(3)] build_candidates_spec [OF b, unfolded this append_Nil]
  show ?thesis
  proof (rule that [OF s, of "sort_slice candidate_less (drop_deferred cs)"])
    show "distinct (map (trim_space \<circ> fst) (dc_Projects cfg)) \<longrightarrow>
        distinct (map (task_ID \<circ> ca_task) (sort_slice candidate_less (drop_deferred cs)))"
      using f(1) drop_deferred_distinct by (simp only: distinct_map_sort_slice) blast
    show "\<forall>c \<in> set (sort_slice candidate_less (drop_deferred cs)). ca_project c \<in> enabled_names (dc_Projects cfg) \<and>
        startable db' (trim_space (ca_project c)) (task_ID (ca_task c))"
      using f(1) drop_deferred_set [of cs] by (simp only: set_sort_slice) blast
  qed (use f assms(2) in auto)
qed

section \<open>Workflow identifiers\<close>

lemma last_index_None: "last_index s b = None \<longleftrightarrow> b \<notin> set s"
  by (induction s) (auto split: option.split)

lemma last_index_append: "b \<notin> set ys \<Longrightarrow> last_index (xs @ b # ys) b = Some (length xs)"
  by (induction xs) (auto simp: last_index_None split: option.split)

text \<open>What is left of an id once its time stamp has been taken off.\<close>

lemma extract_stamp:
  assumes "i \<noteq> []" and "\<not> is_space (hd i)" and "10 ^ 7 \<le> now"
  shows "extractTaskIDFromWorkflowID (i @ ''-'' @ show_int now) =
    (case find (has_suffix i) lane_suffixes of None \<Rightarrow> i | Some suf \<Rightarrow> trim_suffix i suf)"
proof -
  define ds where "ds = show_int now"
  have n: "ds = show_nat (nat now)" using assms(3) by (simp add: show_int_def ds_def)
  then have d: "list_all is_digit ds" by (simp add: show_nat_digits)
  have "7 < length ds" unfolding n using assms(3) by (intro show_nat_length) simp
  then have "ds \<noteq> []" by auto
  then have "is_digit (last ds)" using d by (simp add: list_all_iff)
  then have t: "trim_space (i @ ''-'' @ ds) = i @ ''-'' @ ds"
    using assms(1,2) \<open>ds \<noteq> []\<close> digit_not_space by (simp add: trim_space_eq_iff)
  have "CHR ''-'' \<notin> set ds" using d digit_not_dash by (auto simp: list_all_iff)
  then have "last_index (i @ ''-'' @ ds) CHR ''-'' = Some (length i)" by (simp add: last_index_append)
  then show ?thesis
    using assms(1) d t \<open>7 < length ds\<close> by (simp add: extractTaskIDFromWorkflowID_def Let_def flip: ds_def)
qed

lemma extract_dispatched:
  assumes "trim_space i = i" and "i \<noteq> []" and "\<forall>suf \<in> set lane_suffixes. \<not> has_suffix i suf" and "10 ^ 7 \<le> now"
  shows "extractTaskIDFromWorkflowID (i @ ''-'' @ show_int now) = i"
proof -
  have "\<not> is_space (hd i)" using assms(1,2) trim_space_eq_iff by blast
  moreover have "find (has_suffix i) lane_suffixes = None" using assms(3) by (simp add: find_None_iff)
  ultimately show ?thesis using extract_stamp [OF assms(2) _ assms(4)] by simp
qed

section \<open>Error logs\<close>

text \<open>An entry of the log that the separator cannot tear apart.\<close>

definition log_entry :: "string \<Rightarrow> bool" where
  "log_entry f \<longleftrightarrow> f \<noteq> [] \<and> trim_space f = f \<and> CHR 0x0D \<notin> set f \<and>
     list_all (\<lambda>l. trim_space l \<noteq> ''---'') (split_on (CHR 0x0A) f)"

lemma parse_log_entry:
  assumes "list_all (\<lambda>l. trim_space l \<noteq> ''---'') ls"
  shows "parse_log_lines cur (ls @ rest) = parse_log_lines (cur @ ls) rest"
  using assms by (induction ls arbitrary: cur) auto

lemma dashes: "trim_space ''---'' = ''---''" "split_on (CHR 0x0A) ''---'' = [''---'']"
  by code_simp+

lemma split_scent:
  "split_on (CHR 0x0A) (failure_scent (f # g # gs)) =
     split_on (CHR 0x0A) f @ ''---'' # split_on (CHR 0x0A) (failure_scent (g # gs))"
proof -
  have "failure_scent (f # g # gs) = f @ CHR 0x0A # (''---'' @ CHR 0x0A # failure_scent (g # gs))"
    by (simp add: failure_scent_def nl_def)
  then have "split_on (CHR 0x0A) (failure_scent (f # g # gs)) =
      split_on (CHR 0x0A) f @ split_on (CHR 0x0A) ''---'' @ split_on (CHR 0x0A) (failure_scent (g # gs))"
    by (metis split_on_append)
  then show ?thesis unfolding dashes by simp
qed

lemma parse_scent:
  assumes "list_all log_entry fs" and "fs \<noteq> []"
  shows "parse_log_lines [] (split_on (CHR 0x0A) (failure_scent fs)) = fs"
  using assms
proof (induction fs rule: induct_list012)
  case (2 f)
  then have f: "list_all (\<lambda>l. trim_space l \<noteq> ''---'') (split_on (CHR 0x0A) f)" "trim_space f = f" "f \<noteq> []"
    by (simp_all add: log_entry_def)
  then show ?case
    using parse_log_entry [OF f(1), of "[]" "[]"] by (simp add: failure_scent_def nl_def)
next
  case (3 f g gs)
  then have f: "list_all (\<lambda>l. trim_space l \<noteq> ''---'') (split_on (CHR 0x0A) f)" "trim_space f = f" "f \<noteq> []"
    by (simp_all add: log_entry_def)
  show ?case
    using 3 f by (simp add: split_scent parse_log_entry [OF f(1)] dashes nl_def)
qed simp

lemma scent_ends:
  assumes "list_all log_entry fs" and "fs \<noteq> []"
  shows "trim_space (failure_scent fs) = failure_scent fs \<and> failure_scent fs \<noteq> [] \<and> CHR 0x0D \<notin> set (failure_scent fs)"
  using assms
proof (induction fs rule: induct_list012)
  case (2 f)
  then show ?case by (simp add: failure_scent_def log_entry_def)
next
  case (3 f g gs)
  then have r: "failure_scent (g # gs) \<noteq> []" "\<not> is_space (last (failure_scent (g # gs)))"
    "CHR 0x0D \<notin> set (failure_scent (g # gs))" "f \<noteq> []" "\<not> is_space (hd f)" "CHR 0x0D \<notin> set f"
    by (auto simp: log_entry_def trim_space_eq_iff)
  have e: "failure_scent (f # g # gs) = f @ nl @ ''---'' @ nl @ failure_scent (g # gs)"
    by (simp add: failure_scent_def)
  show ?case using r by (simp add: e trim_space_eq_iff nl_def)
qed simp

section \<open>Properties\<close>

text \<open>
  C26. A scan never starts more than it may: the candidates fit the per-tick limit, together with the
  running workflows they stay within the global limit, and together with the running workflows of
  their project within the project limit. Limits that are not positive stand for 3.
\<close>

theorem scan_respects_limits:
  assumes "ScanCandidatesActivity cfg env db ctr = (Inr r, db', ctr')" and "sc_Candidates r \<noteq> []" and "dag_inv db"
  shows "int (length (sc_Candidates r)) \<le> or_default 3 (dc_MaxPerTick cfg) \<and>
    sc_Running r + int (length (sc_Candidates r)) \<le> or_default 3 (dc_MaxConcurrentTotal cfg) \<and>
    (\<forall>c \<in> set (sc_Candidates r).
       project_running env (dx_Project c) + project_count (dx_Project c) (sc_Candidates r)
         \<le> or_default 3 (dc_MaxConcurrentPerProject cfg))"
proof -
  obtain openWFs cs where l: "int (length (sc_Candidates r)) \<le> min (sc_MaxTotal r - sc_Running r) (or_default 3 (dc_MaxPerTick cfg))"
    "sc_MaxTotal r = or_default 3 (dc_MaxConcurrentTotal cfg)"
    and e: "\<forall>c \<in> set cs. ca_project c \<in> enabled_names (dc_Projects cfg) \<and>
       startable db' (trim_space (ca_project c)) (task_ID (ca_task c))"
    and b: "built_from cfg env (or_default 3 (dc_MaxConcurrentPerProject cfg))
       (task_ids_of openWFs \<union> task_ids_of (active_planning cfg env)) cs
       (\<lambda>n. if n \<in> enabled_names (dc_Projects cfg) then project_running env n else 0) (sc_Candidates r)"
    by (rule scan_spec [OF assms]) (rule that; assumption)
  have "project_running env (dx_Project c) + project_count (dx_Project c) (sc_Candidates r)
      \<le> or_default 3 (dc_MaxConcurrentPerProject cfg)" if c: "c \<in> set (sc_Candidates r)" for c
  proof -
    have "dx_Project c \<in> enabled_names (dc_Projects cfg)" using b e c unfolding built_from_def by fastforce
    moreover have "project_count (dx_Project c) (sc_Candidates r) \<noteq> 0"
      using c by (auto simp: project_count_def filter_empty_conv)
    ultimately show ?thesis using b unfolding built_from_def by force
  qed
  then show ?thesis using l by auto
qed

text \<open>A sample: one slot is taken by the workflow of task \<open>a\<close>, task \<open>c\<close> waits for \<open>a\<close>.\<close>

definition sample_config :: dispatch_config where
  "sample_config = \<lparr>dc_RateLimits = \<lparr>rl_Window5hCap = 0, rl_WeeklyCap = 0, rl_WeeklyHeadroomPct = 0\<rparr>,
     dc_MaxConcurrentTotal = 2, dc_MaxPerTick = 0, dc_SlowStepThreshold = 0, dc_PlanningSignalTimeout = 0,
     dc_PlanningSessionTimeout = 0, dc_PlanningStaleBlockThreshold = 0, dc_EnablePlannerV2 = False,
     dc_HigherLearning = False, dc_HigherLearningMaxRetries = 0, dc_HigherLearningMaxHandoffs = 0,
     dc_MaxConcurrentPerProject = 0, dc_ChiefEnabled = True, dc_CrabEnabled = True,
     dc_Projects = [(''p'', \<lparr>pc_Enabled = True, pc_Workspace = ''/w'', pc_DoDChecks = []\<rparr>)], dc_Providers = [],
     dc_Tiers = \<lparr>ti_Fast = [''codex''], ti_Balanced = [], ti_Premium = []\<rparr>\<rparr>"

definition sample_env :: scan_env where
  "sample_env = \<lparr>se_hasStore = True, se_burn5h = None, se_burnWeek = None,
     se_open = (\<lambda>n. Inr (if n = [] then [\<lparr>ow_workflowID = ''a-12345678'', ow_runID = [], ow_startTime = None\<rparr>] else [])), se_planning = Inr [],
     se_now = 0, se_genome = (\<lambda>_. None), se_edgeStats = (\<lambda>_. None), se_providerBurn = (\<lambda>_. None),
     se_expandHome = (\<lambda>s. s), se_json = (\<lambda>_. None)\<rparr>"

definition sample_rows :: dag_db where
  "sample_rows = \<lparr>db_tasks = [sample_task ''a'' ''ready'' 1 [], sample_task ''b'' ''ready'' 2 [], sample_task ''c'' ''ready'' 0 []],
     db_edges = [(''c'', ''a'')]\<rparr>"

lemma sample_rows_inv: "dag_inv sample_rows"
proof -
  have r: "row_ok (sample_task i ''ready'' n [])" if "i \<in> {''a'', ''b'', ''c''}" for i n
    using that sample_norms by (auto simp: row_ok_def sample_task_def trim_space_eq_iff is_space_def)
  have "acyclic {(''c'', ''a'')}"
    by (simp add: acyclic_insert, simp add: acyclic_def)
  moreover have "task_ID (sample_task i st n ds) = i" for i st n ds by (simp add: sample_task_def)
  ultimately show ?thesis by (simp add: dag_inv_def sample_rows_def row_ids_def r)
qed

lemma sample_scan:
  obtains r db' ctr' where "ScanCandidatesActivity sample_config sample_env sample_rows (\<lambda>_. 0) = (Inr r, db', ctr')"
    "map dx_TaskID (sc_Candidates r) = [''b'']" "sc_Candidates r \<noteq> []"
proof -
  have "case ScanCandidatesActivity sample_config sample_env sample_rows (\<lambda>_. 0) of
      (Inr r, db, ctr) \<Rightarrow> map dx_TaskID (sc_Candidates r) = [''b''] | _ \<Rightarrow> False"
    by code_simp
  then show ?thesis using that by (auto split: prod.splits sum.splits)
qed

theorem scan_respects_limits_witness:
  "\<exists>r db' ctr'. ScanCandidatesActivity sample_config sample_env sample_rows (\<lambda>_. 0) = (Inr r, db', ctr') \<and>
     sc_Candidates r \<noteq> [] \<and> sc_Running r + int (length (sc_Candidates r)) \<le> 2"
proof -
  obtain r db' ctr' where s: "ScanCandidatesActivity sample_config sample_env sample_rows (\<lambda>_. 0) = (Inr r, db', ctr')"
    and c: "sc_Candidates r \<noteq> []" using sample_scan by metis
  from scan_respects_limits [OF s c sample_rows_inv]
  have "sc_Running r + int (length (sc_Candidates r)) \<le> or_default 3 (dc_MaxConcurrentTotal sample_config)" by blast
  then have "sc_Running r + int (length (sc_Candidates r)) \<le> 2" by (simp add: or_default_def sample_config_def)
  with s c show ?thesis by blast
qed








end
