(* ===== verification/Dispatch_Tick.thy ===== *)
theory Dispatch_Tick
  imports Dispatcher
begin

text \<open>
  One tick of the dispatcher (\<open>DispatcherWorkflow\<close> and \<open>checkAndSpawnPostMortems\<close> of
  \<open>internal/temporal/workflow_dispatcher.go\<close>), the visibility queries
  (\<open>internal/temporal/search_attributes.go\<close>), the paginated listings, and the search for failed
  workflows with its deduplication through the \<open>health_events\<close> table
  (\<open>internal/store/metrics.go\<close>).

  \<^item> The Temporal server is a function from a query, a page size and a page token to a response; a
    listing follows the tokens and has no bound of its own, so it is a partial function into
    \<open>option\<close>.
  \<^item> A tick is the list of its events: children with the outcome of their start, activities, log
    entries. The results of activities are the record \<open>tick_env\<close>.
\<close>

section \<open>Visibility queries\<close>

definition quoteSearchAttributeValue :: "string \<Rightarrow> string" where
  "quoteSearchAttributeValue value = replace_all value [CHR 0x27] [CHR 0x27, CHR 0x27]"

definition quoted :: "string \<Rightarrow> string" where
  "quoted s = [CHR 0x27] @ s @ [CHR 0x27]"

definition chumRunningStages :: "string list" where
  "chumRunningStages = [''running'', ''plan'', ''gate'', ''execute'', ''review'', ''dod'']"

definition ChumAgentRunningVisibilityQueryForProjectAndAgent :: "string \<Rightarrow> string \<Rightarrow> string" where
  "ChumAgentRunningVisibilityQueryForProjectAndAgent rawproject rawagent =
     (let queryClauses = map (\<lambda>status. ''ChumCurrentStage = '' @ quoted status) chumRunningStages;
          base = ''WorkflowType = '' @ quoted ''ChumAgentWorkflow'' @ '' AND ExecutionStatus = '' @ quoted ''Running'' @
                 '' AND ('' @ join_with '' OR '' queryClauses @ '')'';
          project = trim_space rawproject;
          base1 = (if project \<noteq> [] then base @ '' AND ChumProject = '' @ quoted (quoteSearchAttributeValue project)
                   else base);
          agent = trim_space rawagent
      in if agent \<noteq> [] then base1 @ '' AND ChumAgent = '' @ quoted (quoteSearchAttributeValue agent) else base1)"

definition ChumAgentRunningVisibilityQueryForProject :: "string \<Rightarrow> string" where
  "ChumAgentRunningVisibilityQueryForProject project = ChumAgentRunningVisibilityQueryForProjectAndAgent project []"

definition buildOpenAgentWorkflowQueryForAgent :: "string \<Rightarrow> string \<Rightarrow> string" where
  "buildOpenAgentWorkflowQueryForAgent project agent = ChumAgentRunningVisibilityQueryForProjectAndAgent project agent"

section \<open>Listings\<close>

record wf_exec =
  we_Execution :: "(string \<times> string) option"
  we_StartTime :: "int option"
  we_CloseTime :: "int option"
  we_Project :: "string option"

datatype list_response = ListError string | NilResponse | Page "wf_exec list" string

type_synonym list_client = "string \<Rightarrow> nat \<Rightarrow> string \<Rightarrow> list_response"

fun open_executions :: "wf_exec list \<Rightarrow> open_workflow list" where
  "open_executions [] = []"
| "open_executions (e # es) =
     (case we_Execution e of
        None \<Rightarrow> open_executions es
      | Some (wfID, runID) \<Rightarrow>
          if wfID = [] then open_executions es
          else \<lparr>ow_workflowID = wfID, ow_runID = runID, ow_startTime = we_StartTime e\<rparr> # open_executions es)"

partial_function (option) list_open ::
  "(string \<Rightarrow> list_response) \<Rightarrow> string \<Rightarrow> open_workflow list \<Rightarrow> (string, open_workflow list) result option" where
  "list_open fetch pageToken acc =
     (case fetch pageToken of
        ListError e \<Rightarrow> Some (Inl e)
      | NilResponse \<Rightarrow> Some (Inl ''temporal list workflow returned nil response'')
      | Page execs next \<Rightarrow>
          if next = [] then Some (Inr (acc @ open_executions execs))
          else list_open fetch next (acc @ open_executions execs))"

definition listOpenAgentWorkflowsForAgent ::
  "list_client \<Rightarrow> string \<Rightarrow> string \<Rightarrow> (string, open_workflow list) result option" where
  "listOpenAgentWorkflowsForAgent tc project agent =
     list_open (tc (buildOpenAgentWorkflowQueryForAgent project agent) 200) [] []"

definition listOpenAgentWorkflows :: "list_client \<Rightarrow> string \<Rightarrow> (string, open_workflow list) result option" where
  "listOpenAgentWorkflows tc project = listOpenAgentWorkflowsForAgent tc project []"

definition listOpenExplosionWorkflows :: "list_client \<Rightarrow> (string, open_workflow list) result option" where
  "listOpenExplosionWorkflows tc =
     list_open (tc (''WorkflowType = '' @ quoted ''CambrianExplosionWorkflow'' @ '' AND ExecutionStatus = '' @
                    quoted ''Running'') 200) [] []"

definition listOpenPlanningWorkflows :: "list_client \<Rightarrow> (string, open_workflow list) result option" where
  "listOpenPlanningWorkflows tc =
     list_open (tc (''(WorkflowType = '' @ quoted ''PlanningCeremonyWorkflow'' @ '' OR WorkflowType = '' @
                    quoted ''AutonomousPlanningCeremonyWorkflow'' @ '') AND ExecutionStatus = '' @
                    quoted ''Running'') 200) [] []"

text \<open>The set of workflow ids is the list of ids in the order of the pages. \<open>cutoff\<close> is the formatted time.\<close>

fun workflow_ids :: "wf_exec list \<Rightarrow> string list" where
  "workflow_ids [] = []"
| "workflow_ids (e # es) =
     (case we_Execution e of
        None \<Rightarrow> workflow_ids es
      | Some (wfID, _) \<Rightarrow> if wfID \<noteq> [] then wfID # workflow_ids es else workflow_ids es)"

partial_function (option) list_ids ::
  "(string \<Rightarrow> list_response) \<Rightarrow> string \<Rightarrow> string list \<Rightarrow> (string, string list) result option" where
  "list_ids fetch pageToken ids =
     (case fetch pageToken of
        ListError e \<Rightarrow> Some (Inl e)
      | NilResponse \<Rightarrow> Some (Inr ids)
      | Page execs next \<Rightarrow>
          if next = [] then Some (Inr (ids @ workflow_ids execs)) else list_ids fetch next (ids @ workflow_ids execs))"

definition listRecentlyCompletedWorkflows :: "list_client \<Rightarrow> string \<Rightarrow> (string, string set) result option" where
  "listRecentlyCompletedWorkflows tc cutoff =
     map_option (map_sum id set)
       (list_ids (tc (''WorkflowType = '' @ quoted ''ChumAgentWorkflow'' @ '' AND ExecutionStatus = '' @
                      quoted ''Completed'' @ '' AND CloseTime > '' @ quoted cutoff) 200) [] [])"

section \<open>Health events\<close>

record health_event =
  he_EventType :: string
  he_Details :: string
  he_DispatchID :: int
  he_MorselID :: string
  he_CreatedAt :: int

definition RecordHealthEventWithDispatch ::
  "string \<Rightarrow> string \<Rightarrow> int \<Rightarrow> string \<Rightarrow> int \<Rightarrow> health_event list \<Rightarrow> health_event list" where
  "RecordHealthEventWithDispatch eventType details dispatchID morselID now tbl =
     tbl @ [\<lparr>he_EventType = eventType, he_Details = details,
             he_DispatchID = (if dispatchID < 0 then 0 else dispatchID), he_MorselID = trim_space morselID,
             he_CreatedAt = now\<rparr>]"

definition RecordHealthEvent :: "string \<Rightarrow> string \<Rightarrow> int \<Rightarrow> health_event list \<Rightarrow> health_event list" where
  "RecordHealthEvent eventType details now tbl = RecordHealthEventWithDispatch eventType details 0 [] now tbl"

text \<open>SQLite's \<open>LIKE\<close>: \<open>%\<close> matches any text, \<open>_\<close> any character, letters match in either case.\<close>

fun sql_like :: "string \<Rightarrow> string \<Rightarrow> bool" where
  "sql_like [] s = (s = [])"
| "sql_like (p # ps) [] = (p = CHR ''%'' \<and> sql_like ps [])"
| "sql_like (p # ps) (c # cs) =
     (if p = CHR ''%'' then sql_like ps (c # cs) \<or> sql_like (p # ps) cs
      else (p = CHR ''_'' \<or> lower_char p = lower_char c) \<and> sql_like ps cs)"

definition HasRecentHealthEvent :: "string \<Rightarrow> string \<Rightarrow> int \<Rightarrow> int \<Rightarrow> health_event list \<Rightarrow> bool" where
  "HasRecentHealthEvent eventType detailsSubstring window now tbl =
     list_ex (\<lambda>e. he_EventType e = eventType \<and> sql_like (''%'' @ detailsSubstring @ ''%'') (he_Details e) \<and>
                  now - window \<le> he_CreatedAt e) tbl"

definition CountRecentHealthEvents :: "string \<Rightarrow> int \<Rightarrow> int \<Rightarrow> health_event list \<Rightarrow> nat" where
  "CountRecentHealthEvents eventType window now tbl =
     length (filter (\<lambda>e. he_EventType e = eventType \<and> now - window \<le> he_CreatedAt e) tbl)"

section \<open>Failed workflows\<close>

record failed_workflow =
  fw_WorkflowID :: string
  fw_RunID :: string
  fw_CloseTime :: string
  fw_ErrorMsg :: string
  fw_Project :: string

record failure_context =
  fc_WorkflowID :: string
  fc_RunID :: string
  fc_ErrorMessage :: string
  fc_FailedActivity :: string
  fc_AttemptCount :: int
  fc_TaskID :: string

text \<open>\<open>strings.Trim(s, "\"")\<close>.\<close>

definition trim_quotes :: "string \<Rightarrow> string" where
  "trim_quotes s = rev (dropWhile (\<lambda>c. c = CHR 0x22) (rev (dropWhile (\<lambda>c. c = CHR 0x22) s)))"

text \<open>\<open>investigated\<close> is the test of the store; \<open>fmt\<close> formats a time.\<close>

fun collect_failures ::
  "(int \<Rightarrow> string) \<Rightarrow> (string \<Rightarrow> bool) \<Rightarrow> wf_exec list \<Rightarrow> failed_workflow list \<Rightarrow> failed_workflow list" where
  "collect_failures fmt investigated [] failures = failures"
| "collect_failures fmt investigated (e # es) failures =
     (case we_Execution e of
        None \<Rightarrow> collect_failures fmt investigated es failures
      | Some (wfID, runID) \<Rightarrow>
          if wfID = [] \<or> investigated wfID then collect_failures fmt investigated es failures
          else let failures1 = failures @
                     [\<lparr>fw_WorkflowID = wfID, fw_RunID = runID,
                       fw_CloseTime = (case we_CloseTime e of None \<Rightarrow> [] | Some t \<Rightarrow> fmt t), fw_ErrorMsg = [],
                       fw_Project = (case we_Project e of None \<Rightarrow> [] | Some d \<Rightarrow> trim_quotes d)\<rparr>]
               in if 20 \<le> length failures1 then failures1 else collect_failures fmt investigated es failures1)"

partial_function (option) check_failed_pages ::
  "(int \<Rightarrow> string) \<Rightarrow> (string \<Rightarrow> bool) \<Rightarrow> (string \<Rightarrow> list_response) \<Rightarrow> string \<Rightarrow> failed_workflow list
     \<Rightarrow> (string, failed_workflow list) result option" where
  "check_failed_pages fmt investigated fetch pageToken failures =
     (case fetch pageToken of
        ListError e \<Rightarrow> Some (Inl (''list failed workflows: '' @ e))
      | NilResponse \<Rightarrow> Some (Inr failures)
      | Page execs next \<Rightarrow>
          (let failures1 = collect_failures fmt investigated execs failures
           in if 20 \<le> length failures1 \<or> next = [] then Some (Inr failures1)
              else check_failed_pages fmt investigated fetch next failures1))"

definition CheckFailedWorkflowsActivity ::
  "(int \<Rightarrow> string) \<Rightarrow> list_client \<Rightarrow> health_event list option \<Rightarrow> int
     \<Rightarrow> (string, failed_workflow list) result option" where
  "CheckFailedWorkflowsActivity fmt tc store now =
     check_failed_pages fmt
       (\<lambda>wfID. case store of None \<Rightarrow> False
               | Some tbl \<Rightarrow> HasRecentHealthEvent ''postmortem_started'' wfID (24 * 3600) now tbl)
       (tc (''WorkflowType = '' @ quoted ''ChumAgentWorkflow'' @ '' AND ExecutionStatus = '' @ quoted ''Failed'' @
            '' AND CloseTime > '' @ quoted (fmt (now - 3600))) 50) [] []"

text \<open>The events of a history: reading failed, another event, or a failure with its message and the
  message of its cause.\<close>

datatype history_event = HistoryError | OtherEvent | FailedEvent "(string \<times> string option) option"

fun extractFailureFromHistory :: "history_event list \<Rightarrow> string" where
  "extractFailureFromHistory [] = []"
| "extractFailureFromHistory (HistoryError # es) = []"
| "extractFailureFromHistory (OtherEvent # es) = extractFailureFromHistory es"
| "extractFailureFromHistory (FailedEvent None # es) = extractFailureFromHistory es"
| "extractFailureFromHistory (FailedEvent (Some (msg, cause)) # es) =
     (case cause of None \<Rightarrow> msg | Some c \<Rightarrow> if c \<noteq> [] then msg @ '': '' @ c else msg)"

definition FetchFailureContextActivity ::
  "(string \<Rightarrow> string \<Rightarrow> history_event list) option \<Rightarrow> int \<Rightarrow> failed_workflow \<Rightarrow> health_event list option
     \<Rightarrow> failure_context \<times> health_event list option" where
  "FetchFailureContextActivity tc now fw store =
     (let errMsg = (case tc of None \<Rightarrow> [] | Some h \<Rightarrow> extractFailureFromHistory (h (fw_WorkflowID fw) (fw_RunID fw)))
      in (\<lparr>fc_WorkflowID = fw_WorkflowID fw, fc_RunID = fw_RunID fw,
           fc_ErrorMessage = (if errMsg \<noteq> [] then errMsg else fw_ErrorMsg fw),
           fc_FailedActivity = [], fc_AttemptCount = 0,
           fc_TaskID = extractTaskIDFromWorkflowID (fw_WorkflowID fw)\<rparr>,
          map_option (RecordHealthEvent ''postmortem_started'' (fw_WorkflowID fw) now) store))"

section \<open>The tick\<close>

record planner_v2_request =
  pq_Candidate :: dispatch_candidate
  pq_Task :: task_request
  pq_EscalationTiers :: "escalation_tier list"
  pq_ParentNodeKey :: string

record postmortem_request =
  pm_Failure :: failure_context
  pm_Project :: string
  pm_WorkDir :: string
  pm_Tier :: string

record investigation_request =
  iq_Category :: string
  iq_Title :: string
  iq_Description :: string
  iq_Source :: string
  iq_Project :: string
  iq_Severity :: string

datatype child_request =
    AgentChild task_request
  | PlanningChild planning_request
  | PlannerV2Child planner_v2_request
  | PostMortemChild postmortem_request

record child_start =
  ch_WorkflowID :: string
  ch_Timeout :: "64 word option"
  ch_Request :: child_request
  ch_Started :: bool

datatype tick_event =
    StartChild child_start
  | FileInvestigation investigation_request
  | LogOrganism string string int string
  | NotifyThrottle string
  | CheckFailed
  | FetchContext failed_workflow

text \<open>
  \<open>te_now i\<close> is the workflow time (Unix seconds) when the \<open>i\<close>-th child of a loop is started and
  \<open>te_started i\<close> whether a candidate's child starts; \<open>te_failures\<close> and \<open>te_context\<close> are the results of
  the two activities on failed workflows, \<open>None\<close> for an error.
\<close>

record tick_env =
  te_self :: string
  te_now :: "nat \<Rightarrow> int"
  te_started :: "nat \<Rightarrow> bool"
  te_failures :: "failed_workflow list option"
  te_context :: "failed_workflow \<Rightarrow> failure_context option"
  te_pmStarted :: "nat \<Rightarrow> bool"

definition plannerV2RootNodeKey :: string where
  "plannerV2RootNodeKey = ''dispatch_lane_v2''"

definition tick_request :: "scan_result \<Rightarrow> dispatch_candidate \<Rightarrow> string \<Rightarrow> int \<Rightarrow> task_request" where
  "tick_request result c agent slowStep =
     \<lparr>tr_TaskID = dx_TaskID c, tr_Project = dx_Project c, tr_Prompt = dx_Prompt c, tr_TaskTitle = dx_TaskTitle c,
      tr_Agent = agent, tr_Model = [], tr_Reviewer = [], tr_WorkDir = dx_WorkDir c, tr_Provider = dx_Provider c,
      tr_Priority = normalizePriority (dx_Priority c), tr_DoDChecks = dx_DoDChecks c, tr_SlowStepThreshold = slowStep,
      tr_EscalationChain = sc_EscalationTiers result, tr_MaxRetriesOverride = sc_MaxRetriesOverride result,
      tr_MaxHandoffsOverride = sc_MaxHandoffsOverride result, tr_PreviousErrors = dx_PreviousErrors c,
      tr_ExplosionID = [], tr_TraceSessionID = []\<rparr>"

text \<open>The child of a candidate and whether it is a planning ceremony.\<close>

definition route_candidate ::
  "scan_result \<Rightarrow> bool \<Rightarrow> dispatch_candidate \<Rightarrow> string \<Rightarrow> int \<Rightarrow> child_request \<times> bool" where
  "route_candidate result planningDispatched c agent slowStep =
     (let req = tick_request result c agent slowStep
      in if sc_EnablePlannerV2 result
         then (PlannerV2Child \<lparr>pq_Candidate = c, pq_Task = req, pq_EscalationTiers = sc_EscalationTiers result,
                               pq_ParentNodeKey = plannerV2RootNodeKey\<rparr>, False)
         else if shouldRouteToPlanningCeremony c
         then if 0 < sc_PlanningRunning result \<or> planningDispatched then (AgentChild req, False)
              else (PlanningChild (seededPlanningRequestFromCandidate c agent slowStep
                      (sc_PlanningSignalTimeout result) (sc_PlanningSessionTimeout result)), True)
         else (AgentChild req, False))"

definition slow_step :: "dispatch_candidate \<Rightarrow> int" where
  "slow_step c = (if dx_SlowStepThreshold c \<le> 0 then 2 * minute else dx_SlowStepThreshold c)"

text \<open>The estimate is an \<open>int\<close> of the machine: 64 bits.\<close>

fun dispatch_loop ::
  "scan_result \<Rightarrow> tick_env \<Rightarrow> string list \<Rightarrow> nat \<Rightarrow> dispatch_candidate list \<Rightarrow> bool \<Rightarrow> int
     \<Rightarrow> tick_event list \<times> int" where
  "dispatch_loop result env agents i [] planningDispatched dispatched = ([], dispatched)"
| "dispatch_loop result env agents i (c # cs) planningDispatched dispatched =
     (let slowStep = slow_step c;
          agent = agents ! (i mod length agents);
          (child, requiresPlanning) = route_candidate result planningDispatched c agent slowStep;
          ev = StartChild \<lparr>ch_WorkflowID = dx_TaskID c @ ''-'' @ show_int (te_now env i),
                           ch_Timeout = Some (workflowTimeout (of_int (dx_EstimateMinutes c))),
                           ch_Request = child, ch_Started = te_started env i\<rparr>;
          (evs, n) = (if te_started env i
                      then dispatch_loop result env agents (Suc i) cs (planningDispatched \<or> requiresPlanning) (dispatched + 1)
                      else dispatch_loop result env agents (Suc i) cs planningDispatched dispatched)
      in (ev # evs, n))"

fun postmortem_loop :: "tick_env \<Rightarrow> nat \<Rightarrow> failed_workflow list \<Rightarrow> tick_event list" where
  "postmortem_loop env i [] = []"
| "postmortem_loop env i (fw # fws) =
     FetchContext fw #
     (case te_context env fw of
        None \<Rightarrow> postmortem_loop env (Suc i) fws
      | Some fc \<Rightarrow>
          StartChild \<lparr>ch_WorkflowID = ''postmortem-'' @ fw_WorkflowID fw @ ''-'' @ show_int (te_now env i),
                      ch_Timeout = None,
                      ch_Request = PostMortemChild \<lparr>pm_Failure = fc,
                        pm_Project = (if fw_Project fw = [] then ''chum'' else fw_Project fw), pm_WorkDir = [],
                        pm_Tier = ''fast''\<rparr>,
                      ch_Started = te_pmStarted env i\<rparr> # postmortem_loop env (Suc i) fws)"

definition checkAndSpawnPostMortems :: "tick_env \<Rightarrow> tick_event list" where
  "checkAndSpawnPostMortems env =
     CheckFailed #
     (case te_failures env of
        None \<Rightarrow> []
      | Some failures \<Rightarrow>
          if failures = [] then []
          else postmortem_loop env 0 (if 5 < length failures then take 5 failures else failures))"

definition DispatcherWorkflow :: "(string, scan_result) result \<Rightarrow> tick_env \<Rightarrow> (string, unit) result \<times> tick_event list" where
  "DispatcherWorkflow scan env =
     (case scan of
        Inl err \<Rightarrow>
          (Inl (''scan candidates: '' @ err),
           [FileInvestigation \<lparr>iq_Category = ''dispatcher'',
              iq_Title = ''Dispatcher scan failure: '' @ truncate_str err 80,
              iq_Description = ''ScanCandidatesActivity failed:'' @ nl @ nl @ err, iq_Source = te_self env,
              iq_Project = ''chum'', iq_Severity = ''critical''\<rparr>,
            LogOrganism ''failed'' (''scan failed: '' @ truncate_str err 200) 0 err])
      | Inr result \<Rightarrow>
          if sc_Throttled result
          then (Inr (), [LogOrganism ''throttled'' (sc_ThrottleReason result) 0 [], NotifyThrottle (sc_ThrottleReason result)])
          else if sc_Candidates result = [] then (Inr (), checkAndSpawnPostMortems env)
          else let agents = (if sc_AvailableAgents result = [] then [''codex''] else sc_AvailableAgents result);
                   (evs, dispatched) = dispatch_loop result env agents 0 (sc_Candidates result) False 0
               in (Inr (), evs @ checkAndSpawnPostMortems env @
                     [LogOrganism ''completed'' (show_int dispatched @ '' dispatched, '' @ show_int (sc_Running result) @
                        '' running, '' @ show_nat (length (sc_Candidates result)) @ '' candidates'') dispatched []]))"

section \<open>Timeouts\<close>

text \<open>The timeout is at least 30 minutes and at most 4 hours, also when the product wraps around.\<close>

lemma workflowTimeout_bounds:
  "30 * minute \<le> sint (workflowTimeout e) \<and> sint (workflowTimeout e) \<le> 240 * minute"
proof -
  have c: "sint (30 * 60000000000 :: 64 word) = 30 * minute" "sint (4 * 3600000000000 :: 64 word) = 240 * minute"
    by (simp_all add: minute_def)
  show ?thesis
    unfolding workflowTimeout_def Let_def word_sle_eq word_sless_alt
    by (auto simp: c minute_def split: if_splits)
qed

section \<open>Listings\<close>

text \<open>The pages that follow from a token, up to one without a successor.\<close>

inductive pages_from :: "(string \<Rightarrow> list_response) \<Rightarrow> string \<Rightarrow> wf_exec list list \<Rightarrow> bool" for fetch where
  last_page: "fetch tok = Page es [] \<Longrightarrow> pages_from fetch tok [es]"
| more_pages: "fetch tok = Page es nxt \<Longrightarrow> nxt \<noteq> [] \<Longrightarrow> pages_from fetch nxt ps \<Longrightarrow> pages_from fetch tok (es # ps)"

lemma list_open_pages:
  "pages_from fetch tok ps \<Longrightarrow> list_open fetch tok acc = Some (Inr (acc @ concat (map open_executions ps)))"
  by (induction arbitrary: acc rule: pages_from.induct) (simp_all add: list_open.simps)

lemma open_executions_set:
  "w \<in> set (open_executions es) \<longleftrightarrow>
     (\<exists>e \<in> set es. \<exists>i run. we_Execution e = Some (i, run) \<and> i \<noteq> [] \<and>
        w = \<lparr>ow_workflowID = i, ow_runID = run, ow_startTime = we_StartTime e\<rparr>)"
  by (induction es) (auto split: option.splits)

section \<open>Deduplication of post-mortems\<close>

lemma like_any: "sql_like ''%'' s"
  by (induction s) simp_all

lemma like_skip: "sql_like ps s \<Longrightarrow> sql_like (CHR ''%'' # ps) s"
  by (cases s) simp_all

lemma like_prefix: "sql_like (s @ ''%'') s"
  by (induction s) (auto simp: like_any intro: like_skip)

lemma like_self: "sql_like (''%'' @ s @ ''%'') s"
  using like_skip [OF like_prefix] by simp

lemma collect_failures_spec:
  assumes "length acc < 20"
  shows "length (collect_failures fmt inves es acc) \<le> 20 \<and>
    (\<forall>f \<in> set (collect_failures fmt inves es acc). f \<in> set acc \<or> \<not> inves (fw_WorkflowID f) \<and> fw_WorkflowID f \<noteq> [])"
  using assms
proof (induction es arbitrary: acc)
  case (Cons e es)
  show ?case
  proof (cases "we_Execution e")
    case None
    then show ?thesis using Cons by simp
  next
    case (Some p)
    obtain i run where p: "p = (i, run)" by force
    show ?thesis
    proof (cases "i = [] \<or> inves i")
      case True
      then show ?thesis using Cons Some p by simp
    next
      case False
      define f where "f = \<lparr>fw_WorkflowID = i, fw_RunID = run,
        fw_CloseTime = (case we_CloseTime e of None \<Rightarrow> [] | Some t \<Rightarrow> fmt t), fw_ErrorMsg = [],
        fw_Project = (case we_Project e of None \<Rightarrow> [] | Some d \<Rightarrow> trim_quotes d)\<rparr>"
      have eq: "collect_failures fmt inves (e # es) acc =
          (if 20 \<le> length (acc @ [f]) then acc @ [f] else collect_failures fmt inves es (acc @ [f]))"
        using False Some p by (simp add: f_def Let_def)
      have "fw_WorkflowID f = i" by (simp add: f_def)
      then show ?thesis using Cons.IH [of "acc @ [f]"] Cons.prems False unfolding eq by auto
    qed
  qed
qed simp

lemma check_failed_pages_spec:
  assumes "check_failed_pages fmt inves fetch tok acc = Some r" and "r = Inr fs" and "length acc < 20"
    and "\<forall>f \<in> set acc. \<not> inves (fw_WorkflowID f) \<and> fw_WorkflowID f \<noteq> []"
  shows "length fs \<le> 20 \<and> (\<forall>f \<in> set fs. \<not> inves (fw_WorkflowID f) \<and> fw_WorkflowID f \<noteq> [])"
  using assms(2-)
proof (induction fmt inves fetch tok acc r rule: check_failed_pages.raw_induct)
  case (1 loop fmt inves fetch tok acc r)
  note IH = "1.IH" and body = "1.hyps" and prems = "1.prems"
  show ?case
  proof (cases "fetch tok")
    case (Page es nxt)
    note c = collect_failures_spec [OF prems(2), of fmt inves es]
    show ?thesis
    proof (cases "20 \<le> length (collect_failures fmt inves es acc) \<or> nxt = []")
      case True
      then show ?thesis using body prems c Page by (auto simp: Let_def split: if_splits)
    next
      case False
      then have l: "loop fmt inves fetch nxt (collect_failures fmt inves es acc) = Some r"
        "length (collect_failures fmt inves es acc) < 20"
        using body Page by (simp_all add: Let_def)
      have "\<forall>f \<in> set (collect_failures fmt inves es acc). \<not> inves (fw_WorkflowID f) \<and> fw_WorkflowID f \<noteq> []"
        using prems(3) c by blast
      from IH [OF l(1) prems(1) l(2) this] show ?thesis .
    qed
  qed (use body prems in auto)
qed (rule assms(1))

section \<open>Children of a tick\<close>

definition is_started :: "tick_event \<Rightarrow> bool" where
  "is_started ev = (case ev of StartChild ch \<Rightarrow> ch_Started ch | _ \<Rightarrow> False)"

definition is_planning :: "tick_event \<Rightarrow> bool" where
  "is_planning ev =
     (case ev of StartChild ch \<Rightarrow> (case ch_Request ch of PlanningChild _ \<Rightarrow> True | _ \<Rightarrow> False) | _ \<Rightarrow> False)"

lemma child_simps [simp]:
  "is_started (StartChild ch) = ch_Started ch"
  "is_planning (StartChild ch) = (case ch_Request ch of PlanningChild _ \<Rightarrow> True | _ \<Rightarrow> False)"
  by (simp_all add: is_started_def is_planning_def)

lemma route_planning:
  "route_candidate r pd c agent slow = (child, b) \<Longrightarrow>
     b = (case child of PlanningChild _ \<Rightarrow> True | _ \<Rightarrow> False) \<and>
     (b \<longrightarrow> \<not> sc_EnablePlannerV2 r \<and> shouldRouteToPlanningCeremony c \<and> sc_PlanningRunning r \<le> 0 \<and> \<not> pd)"
  by (auto simp: route_candidate_def Let_def split: if_splits)

lemma dispatch_loop_spec:
  assumes "dispatch_loop r env agents i cs pd n = (evs, m)"
  shows "m = n + int (length (filter is_started evs)) \<and>
    length (filter (\<lambda>e. is_started e \<and> is_planning e) evs)
      \<le> (if pd \<or> 0 < sc_PlanningRunning r \<or> sc_EnablePlannerV2 r then 0 else 1)"
  using assms
proof (induction cs arbitrary: i pd n evs m)
  case (Cons c cs)
  obtain child b where r: "route_candidate r pd c (agents ! (i mod length agents)) (slow_step c) = (child, b)" by force
  note rp = route_planning [OF r]
  let ?ev = "StartChild \<lparr>ch_WorkflowID = dx_TaskID c @ ''-'' @ show_int (te_now env i),
      ch_Timeout = Some (workflowTimeout (of_int (dx_EstimateMinutes c))), ch_Request = child, ch_Started = te_started env i\<rparr>"
  have e: "(case child of PlanningChild _ \<Rightarrow> True | _ \<Rightarrow> False) = b" using rp by simp
  obtain evs1 where l: "dispatch_loop r env agents (Suc i) cs (if te_started env i then pd \<or> b else pd)
      (if te_started env i then n + 1 else n) = (evs1, m)" "evs = ?ev # evs1"
    using Cons.prems r by (auto simp: Let_def split: prod.splits if_splits)
  have c: "is_started ?ev = te_started env i" "is_planning ?ev = b" using e by (simp_all only: child_simps child_start.simps)
  have b: "b \<Longrightarrow> \<not> sc_EnablePlannerV2 r \<and> \<not> 0 < sc_PlanningRunning r \<and> \<not> pd" using rp by linarith
  note IH = Cons.IH [OF l(1)]
  show ?case
  proof (cases "te_started env i")
    case True
    have "length (filter (\<lambda>e. is_started e \<and> is_planning e) evs) =
        (if b then 1 else 0) + length (filter (\<lambda>e. is_started e \<and> is_planning e) evs1)"
      "length (filter is_started evs) = 1 + length (filter is_started evs1)"
      unfolding l(2) filter.simps c using True by simp_all
    then show ?thesis using IH b True by (cases b) (auto split: if_splits)
  next
    case False
    have "filter (\<lambda>e. is_started e \<and> is_planning e) evs = filter (\<lambda>e. is_started e \<and> is_planning e) evs1"
      "filter is_started evs = filter is_started evs1"
      unfolding l(2) filter.simps c using False by simp_all
    then show ?thesis using IH False by simp
  qed
qed simp

lemma dispatch_loop_children:
  assumes "dispatch_loop r env agents i cs pd n = (evs, m)"
  shows "\<exists>chs. evs = map StartChild chs \<and> length chs = length cs \<and>
    (\<forall>k < length cs. \<exists>pd'.
       ch_WorkflowID (chs ! k) = dx_TaskID (cs ! k) @ ''-'' @ show_int (te_now env (i + k)) \<and>
       ch_Timeout (chs ! k) = Some (workflowTimeout (of_int (dx_EstimateMinutes (cs ! k)))) \<and>
       ch_Request (chs ! k) = fst (route_candidate r pd' (cs ! k) (agents ! ((i + k) mod length agents))
         (slow_step (cs ! k))) \<and>
       ch_Started (chs ! k) = te_started env (i + k))"
  using assms
proof (induction cs arbitrary: i pd n evs m)
  case (Cons c cs)
  let ?r = "route_candidate r pd c (agents ! (i mod length agents)) (slow_step c)"
  let ?ch = "\<lparr>ch_WorkflowID = dx_TaskID c @ ''-'' @ show_int (te_now env i),
      ch_Timeout = Some (workflowTimeout (of_int (dx_EstimateMinutes c))), ch_Request = fst ?r, ch_Started = te_started env i\<rparr>"
  obtain evs1 pd1 n1 where l: "dispatch_loop r env agents (Suc i) cs pd1 n1 = (evs1, m)" "evs = StartChild ?ch # evs1"
    using Cons.prems by (auto simp: Let_def split: prod.splits if_splits)
  from Cons.IH [OF l(1)] obtain chs where chs: "evs1 = map StartChild chs" "length chs = length cs"
    and k: "\<And>k. k < length cs \<Longrightarrow> \<exists>pd'.
       ch_WorkflowID (chs ! k) = dx_TaskID (cs ! k) @ ''-'' @ show_int (te_now env (Suc i + k)) \<and>
       ch_Timeout (chs ! k) = Some (workflowTimeout (of_int (dx_EstimateMinutes (cs ! k)))) \<and>
       ch_Request (chs ! k) = fst (route_candidate r pd' (cs ! k) (agents ! ((Suc i + k) mod length agents))
         (slow_step (cs ! k))) \<and>
       ch_Started (chs ! k) = te_started env (Suc i + k)"
    by blast
  show ?case
  proof (intro exI [of _ "?ch # chs"] conjI allI impI)
    fix j assume j: "j < length (c # cs)"
    show "\<exists>pd'. ch_WorkflowID ((?ch # chs) ! j) = dx_TaskID ((c # cs) ! j) @ ''-'' @ show_int (te_now env (i + j)) \<and>
       ch_Timeout ((?ch # chs) ! j) = Some (workflowTimeout (of_int (dx_EstimateMinutes ((c # cs) ! j)))) \<and>
       ch_Request ((?ch # chs) ! j) = fst (route_candidate r pd' ((c # cs) ! j) (agents ! ((i + j) mod length agents))
         (slow_step ((c # cs) ! j))) \<and>
       ch_Started ((?ch # chs) ! j) = te_started env (i + j)"
    proof (cases j)
      case 0
      then show ?thesis by (intro exI [of _ pd]) simp
    next
      case (Suc k')
      then show ?thesis using k [of k'] j by simp
    qed
  qed (simp_all add: l(2) chs)
qed simp


lemma postmortem_loop_started: "length (filter is_started (postmortem_loop env i fws)) \<le> length fws"
proof (induction fws arbitrary: i)
  case (Cons fw fws)
  from Cons.IH [of "Suc i"] show ?case by (simp add: is_started_def split: option.split)
qed simp

lemma postmortems_bound:
  "\<exists>pms. checkAndSpawnPostMortems env = CheckFailed # pms \<and> length (filter is_started pms) \<le> 5"
proof (cases "te_failures env")
  case (Some fs)
  let ?fs = "if 5 < length fs then take 5 fs else fs"
  have "length (filter is_started (postmortem_loop env 0 ?fs)) \<le> length ?fs" by (rule postmortem_loop_started)
  moreover have "length ?fs \<le> 5" by simp
  ultimately have "length (filter is_started (postmortem_loop env 0 ?fs)) \<le> 5" by linarith
  then show ?thesis using Some by (simp add: checkAndSpawnPostMortems_def)
qed (simp add: checkAndSpawnPostMortems_def)

lemma tick_succeeds: "fst (DispatcherWorkflow (Inr r) env) = Inr ()"
  by (simp add: DispatcherWorkflow_def Let_def split: prod.split)

section \<open>Properties\<close>

text \<open>
  C28. A tick that has candidates starts one child per candidate, in order, under the id of its task
  and the current time, with an execution timeout between 30 minutes and 4 hours (whatever the
  estimate, wrap-around included); at most one started child is a planning ceremony, and none is
  while another ceremony runs or the second planner is on. The tick logs the number of children
  that started, and begins at most five post-mortems.
\<close>

theorem tick_routes:
  assumes "DispatcherWorkflow (Inr r) env = (Inr (), evs)" and "\<not> sc_Throttled r" and "sc_Candidates r \<noteq> []"
  shows "\<exists>chs pms details. evs = map StartChild chs @ CheckFailed # pms @
      [LogOrganism ''completed'' details (int (length (filter ch_Started chs))) []] \<and>
    length chs = length (sc_Candidates r) \<and>
    (\<forall>k < length chs. ch_WorkflowID (chs ! k) = dx_TaskID (sc_Candidates r ! k) @ ''-'' @ show_int (te_now env k) \<and>
       (\<exists>t. ch_Timeout (chs ! k) = Some t \<and> 30 * minute \<le> sint t \<and> sint t \<le> 240 * minute)) \<and>
    length (filter (\<lambda>ch. ch_Started ch \<and> is_planning (StartChild ch)) chs)
      \<le> (if 0 < sc_PlanningRunning r \<or> sc_EnablePlannerV2 r then 0 else 1) \<and>
    length (filter is_started pms) \<le> 5"
proof -
  define agents where "agents = (if sc_AvailableAgents r = [] then [''codex''] else sc_AvailableAgents r)"
  obtain levs m where l: "dispatch_loop r env agents 0 (sc_Candidates r) False 0 = (levs, m)" by force
  from dispatch_loop_children [OF l] obtain chs where c: "levs = map StartChild chs" "length chs = length (sc_Candidates r)"
    and k: "\<And>k. k < length (sc_Candidates r) \<Longrightarrow>
       ch_WorkflowID (chs ! k) = dx_TaskID (sc_Candidates r ! k) @ ''-'' @ show_int (te_now env k) \<and>
       ch_Timeout (chs ! k) = Some (workflowTimeout (of_int (dx_EstimateMinutes (sc_Candidates r ! k))))"
    by auto
  have f: "filter P (map StartChild chs) = map StartChild (filter (P \<circ> StartChild) chs)" for P
    by (simp add: filter_map)
  have s: "m = int (length (filter ch_Started chs))"
    "length (filter (\<lambda>ch. ch_Started ch \<and> is_planning (StartChild ch)) chs)
      \<le> (if 0 < sc_PlanningRunning r \<or> sc_EnablePlannerV2 r then 0 else 1)"
    using dispatch_loop_spec [OF l] unfolding c(1) f by (simp_all add: comp_def)
  obtain pms where p: "checkAndSpawnPostMortems env = CheckFailed # pms" "length (filter is_started pms) \<le> 5"
    using postmortems_bound by blast
  show ?thesis
    using assms l c k s p workflowTimeout_bounds
    by (auto simp: DispatcherWorkflow_def Let_def agents_def [symmetric] intro!: exI [of _ chs] exI [of _ pms])
qed

definition sample_candidate :: dispatch_candidate where
  "sample_candidate = \<lparr>dx_TaskID = ''p-1'', dx_Title = ''t'', dx_TaskTitle = ''t'', dx_Project = ''p'', dx_WorkDir = [],
     dx_Prompt = ''t'', dx_Species = ''s'', dx_Labels = [], dx_Priority = 1, dx_Provider = ''codex'', dx_DoDChecks = [],
     dx_SlowStepThreshold = 0, dx_EstimateMinutes = 30, dx_PreviousErrors = [], dx_Generation = 0, dx_Complexity = 10,
     dx_HasCrabSeal = False, dx_PlannerEdgeStats = []\<rparr>"

definition sample_tick :: tick_env where
  "sample_tick = \<lparr>te_self = ''d'', te_now = (\<lambda>_. 5), te_started = (\<lambda>_. True), te_failures = None,
     te_context = (\<lambda>_. None), te_pmStarted = (\<lambda>_. True)\<rparr>"

theorem tick_routes_witness:
  "\<exists>evs. DispatcherWorkflow (Inr (empty_scan\<lparr>sc_Candidates := [sample_candidate, sample_candidate]\<rparr>)) sample_tick = (Inr (), evs) \<and>
     (\<exists>chs rest. evs = map StartChild chs @ rest \<and> length chs = 2 \<and>
        length (filter (\<lambda>ch. ch_Started ch \<and> is_planning (StartChild ch)) chs) \<le> 1)"
proof -
  let ?r = "empty_scan\<lparr>sc_Candidates := [sample_candidate, sample_candidate]\<rparr>"
  obtain evs where e: "DispatcherWorkflow (Inr ?r) sample_tick = (Inr (), evs)"
    using tick_succeeds by (metis prod.collapse)
  have "\<not> sc_Throttled ?r" "sc_Candidates ?r \<noteq> []" by (simp_all add: empty_scan_def)
  from tick_routes [OF e this] e show ?thesis by (auto simp: empty_scan_def)
qed

text \<open>
  C30. A failed workflow gets one post-mortem a day: once its failure context has been fetched, the
  search for failed workflows does not return it for 24 hours, as long as the health events are
  kept; and it never returns more than 20.
\<close>

theorem postmortem_once:
  assumes "FetchFailureContextActivity history t0 fw (Some tbl) = (fc, Some tbl1)" and "set tbl1 \<subseteq> set tbl2"
    and "now \<le> t0 + 24 * 3600" and "CheckFailedWorkflowsActivity fmt tc (Some tbl2) now = Some (Inr fs)"
  shows "fw_WorkflowID fw \<notin> fw_WorkflowID ` set fs \<and> length fs \<le> 20"
proof -
  let ?inves = "\<lambda>wfID. HasRecentHealthEvent ''postmortem_started'' wfID (24 * 3600) now tbl2"
  have "length fs \<le> 20 \<and> (\<forall>f \<in> set fs. \<not> ?inves (fw_WorkflowID f) \<and> fw_WorkflowID f \<noteq> [])"
    using assms(4) by (intro check_failed_pages_spec) (auto simp: CheckFailedWorkflowsActivity_def)
  moreover have "?inves (fw_WorkflowID fw)"
  proof -
    let ?e = "\<lparr>he_EventType = ''postmortem_started'', he_Details = fw_WorkflowID fw, he_DispatchID = 0, he_MorselID = [],
        he_CreatedAt = t0\<rparr>"
    have "?e \<in> set tbl2"
      using assms(1,2) by (auto simp: FetchFailureContextActivity_def RecordHealthEvent_def RecordHealthEventWithDispatch_def Let_def)
    then show ?thesis
      unfolding HasRecentHealthEvent_def list_ex_iff using assms(3) like_self by (intro bexI [of _ ?e]) simp_all
  qed
  ultimately show ?thesis by auto
qed

definition sample_failed :: failed_workflow where
  "sample_failed = \<lparr>fw_WorkflowID = ''w1-1'', fw_RunID = ''r'', fw_CloseTime = [], fw_ErrorMsg = [], fw_Project = []\<rparr>"

definition sample_exec :: "string \<Rightarrow> wf_exec" where
  "sample_exec i = \<lparr>we_Execution = Some (i, ''r''), we_StartTime = None, we_CloseTime = None, we_Project = None\<rparr>"

theorem postmortem_once_witness:
  "\<exists>tbl fs. snd (FetchFailureContextActivity None 0 sample_failed (Some [])) = Some tbl \<and>
     CheckFailedWorkflowsActivity (\<lambda>_. []) (\<lambda>_ _ _. Page [sample_exec ''w1-1'', sample_exec ''w2-1''] []) (Some tbl) 100
       = Some (Inr fs) \<and> map fw_WorkflowID fs = [''w2-1''] \<and> fw_WorkflowID sample_failed \<notin> fw_WorkflowID ` set fs"
proof -
  obtain fc tbl where f: "FetchFailureContextActivity None 0 sample_failed (Some []) = (fc, Some tbl)"
    by (simp add: FetchFailureContextActivity_def Let_def)
  have t: "tbl = [\<lparr>he_EventType = ''postmortem_started'', he_Details = ''w1-1'', he_DispatchID = 0, he_MorselID = [],
      he_CreatedAt = 0\<rparr>]"
    using f by (simp add: FetchFailureContextActivity_def sample_failed_def RecordHealthEvent_def
        RecordHealthEventWithDispatch_def Let_def)
  have like: "sql_like (''%'' @ ''w1-1'' @ ''%'') ''w1-1''" "\<not> sql_like (''%'' @ ''w2-1'' @ ''%'') ''w1-1''" by code_simp+
  obtain fs where c: "CheckFailedWorkflowsActivity (\<lambda>_. []) (\<lambda>_ _ _. Page [sample_exec ''w1-1'', sample_exec ''w2-1''] [])
      (Some tbl) 100 = Some (Inr fs)" "map fw_WorkflowID fs = [''w2-1'']"
    using like by (simp add: CheckFailedWorkflowsActivity_def check_failed_pages.simps sample_exec_def t HasRecentHealthEvent_def)
  from postmortem_once [OF f order_refl _ c(1)] f c show ?thesis by auto
qed

text \<open>The test is a substring match with wildcards, so another workflow can suppress a post-mortem.\<close>

lemma dedup_not_exact:
  "HasRecentHealthEvent ''postmortem_started'' ''w1-12'' 86400 0
     (RecordHealthEvent ''postmortem_started'' ''xw1-123'' 0 [])"
  "HasRecentHealthEvent ''postmortem_started'' ''a_b-1'' 86400 0
     (RecordHealthEvent ''postmortem_started'' ''acb-1'' 0 [])"
  by code_simp+

text \<open>
  Listings lose nothing and end: when the server's pages come to an end, the listing of open
  workflows returns, for the pages in order, every execution that has a workflow id, and nothing
  else. A server whose pages never end keeps it from returning.
\<close>

theorem listing_complete:
  assumes "pages_from (tc (buildOpenAgentWorkflowQueryForAgent project agent) 200) [] ps"
  shows "\<exists>ws. listOpenAgentWorkflowsForAgent tc project agent = Some (Inr ws) \<and>
    (\<forall>w. w \<in> set ws \<longleftrightarrow> (\<exists>es \<in> set ps. \<exists>e \<in> set es. \<exists>i run. we_Execution e = Some (i, run) \<and> i \<noteq> [] \<and>
       w = \<lparr>ow_workflowID = i, ow_runID = run, ow_startTime = we_StartTime e\<rparr>))"
  using list_open_pages [OF assms, of "[]"]
  by (auto simp: listOpenAgentWorkflowsForAgent_def open_executions_set)

theorem listing_complete_witness:
  "\<exists>ws. listOpenAgentWorkflowsForAgent
       (\<lambda>_ _ tok. if tok = [] then Page [sample_exec ''a-1''] ''x'' else Page [sample_exec []] []) ''p'' [] = Some (Inr ws) \<and>
     \<lparr>ow_workflowID = ''a-1'', ow_runID = ''r'', ow_startTime = None\<rparr> \<in> set ws"
proof -
  let ?tc = "\<lambda>(_ :: string) (_ :: nat) tok. if tok = [] then Page [sample_exec ''a-1''] ''x'' else Page [sample_exec []] []"
  have "pages_from (?tc (buildOpenAgentWorkflowQueryForAgent ''p'' []) 200) [] [[sample_exec ''a-1''], [sample_exec []]]"
    by (rule pages_from.more_pages [where nxt = "''x''"]) (simp_all add: pages_from.last_page)
  from listing_complete [where tc = ?tc and project = "''p''" and agent = "[]", OF this] obtain ws where
    "listOpenAgentWorkflowsForAgent ?tc ''p'' [] = Some (Inr ws)"
    "\<lparr>ow_workflowID = ''a-1'', ow_runID = ''r'', ow_startTime = None\<rparr> \<in> set ws"
    by (auto simp: sample_exec_def)
  then show ?thesis by blast
qed

end
