(* ===== verification/Store_Tables.thy ===== *)
theory Store_Tables
  imports Chum_Prelude
begin

text \<open>
  Tables of the store with a primary key: claim leases (\<open>internal/store/claims.go\<close>), the execution
  plan gate (\<open>plan_gate.go\<close>), safety blocks (\<open>safety.go\<close>) and morsel stages (\<open>stages.go\<close>).

  \<^item> A table is the list of its rows in the order of insertion. \<open>INSERT ... ON CONFLICT DO UPDATE\<close>
    is \<open>upsert_row\<close>; \<open>UPDATE\<close> and \<open>DELETE\<close> by key are \<open>modify_row\<close> and \<open>remove_row\<close>.
  \<^item> The locale \<open>keyed_table\<close> is the contract of such a table: it implements a finite map. The
    operations of the store are then compared with operations on maps.
  \<^item> Times are seconds, the resolution of \<open>datetime('now')\<close>; the current time is an argument.
    Calls of the database succeed. JSON coding of metadata is an argument.
\<close>

section \<open>Tables\<close>

definition lookup_by :: "('r \<Rightarrow> 'k) \<Rightarrow> 'r list \<Rightarrow> 'k \<Rightarrow> 'r option" where
  "lookup_by key rows k = find (\<lambda>r. key r = k) rows"

definition upsert_row :: "('r \<Rightarrow> 'k) \<Rightarrow> 'r \<Rightarrow> ('r \<Rightarrow> 'r) \<Rightarrow> 'r list \<Rightarrow> 'r list" where
  "upsert_row key new upd rows =
     (if list_ex (\<lambda>r. key r = key new) rows then update_where (\<lambda>r. key r = key new) upd rows else rows @ [new])"

definition modify_row :: "('r \<Rightarrow> 'k) \<Rightarrow> 'k \<Rightarrow> ('r \<Rightarrow> 'r) \<Rightarrow> 'r list \<Rightarrow> 'r list" where
  "modify_row key k upd rows = update_where (\<lambda>r. key r = k) upd rows"

definition remove_row :: "('r \<Rightarrow> 'k) \<Rightarrow> 'k \<Rightarrow> 'r list \<Rightarrow> 'r list" where
  "remove_row key k rows = filter (\<lambda>r. key r \<noteq> k) rows"

definition unique_keys :: "('r \<Rightarrow> 'k) \<Rightarrow> 'r list \<Rightarrow> bool" where
  "unique_keys key rows \<longleftrightarrow> distinct (map key rows)"

text \<open>The contract: the table is a map from keys to rows.\<close>

locale keyed_table =
  fixes key :: "'r \<Rightarrow> 'k"
    and lookup :: "'t \<Rightarrow> 'k \<Rightarrow> 'r option"
    and upsert :: "'r \<Rightarrow> ('r \<Rightarrow> 'r) \<Rightarrow> 't \<Rightarrow> 't"
    and modify :: "'k \<Rightarrow> ('r \<Rightarrow> 'r) \<Rightarrow> 't \<Rightarrow> 't"
    and remove :: "'k \<Rightarrow> 't \<Rightarrow> 't"
    and ok :: "'t \<Rightarrow> bool"
  assumes lookup_upsert: "ok t \<Longrightarrow> (\<And>r. key (f r) = key r) \<Longrightarrow>
      lookup (upsert new f t) = (lookup t)(key new \<mapsto> (case lookup t (key new) of None \<Rightarrow> new | Some r \<Rightarrow> f r))"
    and lookup_modify: "ok t \<Longrightarrow> (\<And>r. key (f r) = key r) \<Longrightarrow>
      lookup (modify k f t) = (lookup t)(k := map_option f (lookup t k))"
    and lookup_remove: "ok t \<Longrightarrow> lookup (remove k t) = (lookup t)(k := None)"
    and ok_upsert: "ok t \<Longrightarrow> (\<And>r. key (f r) = key r) \<Longrightarrow> ok (upsert new f t)"
    and ok_modify: "ok t \<Longrightarrow> (\<And>r. key (f r) = key r) \<Longrightarrow> ok (modify k f t)"
    and ok_remove: "ok t \<Longrightarrow> ok (remove k t)"
    and lookup_key: "lookup t k = Some r \<Longrightarrow> key r = k"
begin

lemma upsert_frame: "ok t \<Longrightarrow> (\<And>r. key (f r) = key r) \<Longrightarrow> k \<noteq> key new \<Longrightarrow> lookup (upsert new f t) k = lookup t k"
  by (simp add: lookup_upsert)

lemma upsert_twice:
  assumes "ok t" and "\<And>r. key (f r) = key r" and "key (f new) = key new"
  shows "lookup (upsert new f (upsert new f t)) (key new) = map_option f (lookup (upsert new f t) (key new))"
  using assms by (simp add: lookup_upsert ok_upsert split: option.split)

lemma remove_upsert:
  "ok t \<Longrightarrow> (\<And>r. key (f r) = key r) \<Longrightarrow> lookup (remove (key new) (upsert new f t)) = (lookup t)(key new := None)"
  by (simp add: lookup_remove lookup_upsert ok_upsert)

end

lemma lookup_by_update_where:
  assumes "\<And>r. key (f r) = key r"
  shows "lookup_by key (update_where (\<lambda>r. key r = k) f rows) = (lookup_by key rows)(k := map_option f (lookup_by key rows k))"
proof
  fix j
  have "lookup_by key (update_where (\<lambda>r. key r = k) f rows) j =
      map_option (\<lambda>r. if key r = k then f r else r) (lookup_by key rows j)"
    using find_map_key [of key "\<lambda>r. if key r = k then f r else r" j rows] assms
    by (simp add: lookup_by_def update_where_def)
  then show "lookup_by key (update_where (\<lambda>r. key r = k) f rows) j =
      ((lookup_by key rows)(k := map_option f (lookup_by key rows k))) j"
    using find_key_SomeD [of key j rows] by (cases "lookup_by key rows j") (auto simp: lookup_by_def)
qed

lemma lookup_by_append:
  "k \<notin> key ` set rows \<Longrightarrow> key new = k \<Longrightarrow> lookup_by key (rows @ [new]) = (lookup_by key rows)(k \<mapsto> new)"
  by (induction rows) (auto simp: lookup_by_def fun_eq_iff)

lemma lookup_by_None: "lookup_by key rows k = None \<longleftrightarrow> k \<notin> key ` set rows"
  by (simp add: lookup_by_def find_key_None)

lemma lookup_by_set: "unique_keys key rows \<Longrightarrow> lookup_by key rows k = Some r \<longleftrightarrow> r \<in> set rows \<and> key r = k"
  unfolding lookup_by_def unique_keys_def using find_distinct_key [of key rows r] find_key_SomeD [of key k rows r] by auto

interpretation tbl: keyed_table key "lookup_by key" "upsert_row key" "modify_row key" "remove_row key" "unique_keys key" for key
proof
  fix t f new k
  assume k: "\<And>r. key (f r) = key r"
  show "lookup_by key (upsert_row key new f t) =
      (lookup_by key t)(key new \<mapsto> (case lookup_by key t (key new) of None \<Rightarrow> new | Some r \<Rightarrow> f r))"
  proof (cases "lookup_by key t (key new)")
    case None
    then have "key new \<notin> key ` set t" by (simp add: lookup_by_None)
    moreover from this have "\<not> list_ex (\<lambda>r. key r = key new) t" by (simp add: list_ex_iff) (metis imageI)
    ultimately show ?thesis using None by (simp add: upsert_row_def lookup_by_append)
  next
    case (Some r)
    then have "list_ex (\<lambda>r. key r = key new) t" by (auto simp: list_ex_iff lookup_by_def dest: find_key_SomeD)
    then show ?thesis using Some by (simp add: upsert_row_def lookup_by_update_where k)
  qed
  show "lookup_by key (modify_row key k f t) = (lookup_by key t)(k := map_option f (lookup_by key t k))"
    by (simp add: modify_row_def lookup_by_update_where k)
  assume u: "unique_keys key t"
  show "unique_keys key (modify_row key k f t)"
    using u k by (simp add: unique_keys_def modify_row_def map_update_where)
  show "unique_keys key (upsert_row key new f t)"
    using u k by (auto simp: unique_keys_def upsert_row_def map_update_where list_ex_iff)
next
  fix t k
  show "lookup_by key (remove_row key k t) = (lookup_by key t)(k := None)"
    by (induction t) (auto simp: lookup_by_def remove_row_def fun_eq_iff)
  assume "unique_keys key t"
  then show "unique_keys key (remove_row key k t)"
    by (simp add: unique_keys_def remove_row_def distinct_map_filter)
next
  fix t k r
  assume "lookup_by key t k = Some r"
  then show "key r = k" by (auto simp: lookup_by_def dest: find_key_SomeD)
qed

section \<open>Claim leases\<close>

record claim_lease =
  cl_MorselID :: string
  cl_Project :: string
  cl_MorselsDir :: string
  cl_AgentID :: string
  cl_DispatchID :: int
  cl_ClaimedAt :: int
  cl_HeartbeatAt :: int

datatype store_failure =
    MorselIDRequired
  | PlanIDRequired
  | BlockKeyRequired
  | EncodeFailed
  | DecodeFailed
  | StageNotFound string string
  | AmbiguousMorsel string "string list"

definition UpsertClaimLease ::
  "string \<Rightarrow> string \<Rightarrow> string \<Rightarrow> string \<Rightarrow> int \<Rightarrow> claim_lease list \<Rightarrow> (store_failure, claim_lease list) result" where
  "UpsertClaimLease rawid project morselsDir agentID now tbl =
     (let morselID = trim_space rawid
      in if morselID = [] then Inl MorselIDRequired
         else Inr (upsert_row cl_MorselID
                \<lparr>cl_MorselID = morselID, cl_Project = trim_space project, cl_MorselsDir = trim_space morselsDir,
                 cl_AgentID = trim_space agentID, cl_DispatchID = 0, cl_ClaimedAt = now, cl_HeartbeatAt = now\<rparr>
                (\<lambda>r. r\<lparr>cl_Project := trim_space project, cl_MorselsDir := trim_space morselsDir,
                       cl_AgentID := trim_space agentID, cl_HeartbeatAt := now\<rparr>) tbl))"

definition AttachDispatchToClaimLease ::
  "string \<Rightarrow> int \<Rightarrow> int \<Rightarrow> claim_lease list \<Rightarrow> (store_failure, claim_lease list) result" where
  "AttachDispatchToClaimLease rawid dispatchID now tbl =
     (let morselID = trim_space rawid
      in if morselID = [] then Inl MorselIDRequired
         else Inr (modify_row cl_MorselID morselID (\<lambda>r. r\<lparr>cl_DispatchID := dispatchID, cl_HeartbeatAt := now\<rparr>) tbl))"

definition HeartbeatClaimLease :: "string \<Rightarrow> int \<Rightarrow> claim_lease list \<Rightarrow> (store_failure, claim_lease list) result" where
  "HeartbeatClaimLease rawid now tbl =
     (let morselID = trim_space rawid
      in if morselID = [] then Inr tbl
         else Inr (modify_row cl_MorselID morselID (\<lambda>r. r\<lparr>cl_HeartbeatAt := now\<rparr>) tbl))"

definition DeleteClaimLease :: "string \<Rightarrow> claim_lease list \<Rightarrow> (store_failure, claim_lease list) result" where
  "DeleteClaimLease rawid tbl =
     (let morselID = trim_space rawid in if morselID = [] then Inr tbl else Inr (remove_row cl_MorselID morselID tbl))"

definition GetClaimLease :: "string \<Rightarrow> claim_lease list \<Rightarrow> claim_lease option" where
  "GetClaimLease rawid tbl =
     (let morselID = trim_space rawid
      in if morselID = [] then None
         else case filter (\<lambda>r. cl_MorselID r = morselID) tbl of [] \<Rightarrow> None | lease # _ \<Rightarrow> Some lease)"

definition heartbeat_less :: "claim_lease \<Rightarrow> claim_lease \<Rightarrow> bool" where
  "heartbeat_less a b = (cl_HeartbeatAt a < cl_HeartbeatAt b)"

definition ListClaimLeases :: "claim_lease list \<Rightarrow> claim_lease list" where
  "ListClaimLeases tbl = sort_slice heartbeat_less tbl"

text \<open>\<open>ttl\<close> in seconds.\<close>

definition GetExpiredClaimLeases :: "int \<Rightarrow> int \<Rightarrow> claim_lease list \<Rightarrow> claim_lease list" where
  "GetExpiredClaimLeases ttl now tbl =
     (if ttl \<le> 0 then [] else sort_slice heartbeat_less (filter (\<lambda>r. cl_HeartbeatAt r < now - ttl) tbl))"

section \<open>The execution plan gate\<close>

record gate_row =
  gr_ActivePlanID :: string
  gr_ApprovedBy :: string
  gr_ApprovedAt :: "int option"
  gr_ActivatedAt :: "int option"
  gr_UpdatedAt :: int

record execution_plan_gate =
  pg_PlanID :: string
  pg_ApprovedBy :: string
  pg_ApprovedAt :: int
  pg_ActivatedAt :: int
  pg_UpdatedAt :: int

text \<open>The table has at most the row with id 1.\<close>

definition SetActiveApprovedPlan ::
  "string \<Rightarrow> string \<Rightarrow> int \<Rightarrow> gate_row option \<Rightarrow> (store_failure, gate_row option) result" where
  "SetActiveApprovedPlan rawplan rawby now tbl =
     (let planID = trim_space rawplan; approvedBy = trim_space rawby
      in if planID = [] then Inl PlanIDRequired
         else Inr (Some \<lparr>gr_ActivePlanID = planID, gr_ApprovedBy = (if approvedBy = [] then ''manual'' else approvedBy),
                         gr_ApprovedAt = Some now, gr_ActivatedAt = Some now, gr_UpdatedAt = now\<rparr>))"

definition ClearActiveApprovedPlan :: "int \<Rightarrow> gate_row option \<Rightarrow> gate_row option" where
  "ClearActiveApprovedPlan now tbl =
     Some \<lparr>gr_ActivePlanID = [], gr_ApprovedBy = [], gr_ApprovedAt = None, gr_ActivatedAt = None, gr_UpdatedAt = now\<rparr>"

definition GetActiveApprovedPlan :: "gate_row option \<Rightarrow> execution_plan_gate option" where
  "GetActiveApprovedPlan tbl =
     (case tbl of
        None \<Rightarrow> None
      | Some row \<Rightarrow>
          (let planID = trim_space (gr_ActivePlanID row)
           in case gr_ApprovedAt row of
                None \<Rightarrow> None
              | Some approvedAt \<Rightarrow>
                  if planID = [] then None
                  else Some \<lparr>pg_PlanID = planID, pg_ApprovedBy = trim_space (gr_ApprovedBy row), pg_ApprovedAt = approvedAt,
                             pg_ActivatedAt = (case gr_ActivatedAt row of None \<Rightarrow> approvedAt | Some t \<Rightarrow> t),
                             pg_UpdatedAt = gr_UpdatedAt row\<rparr>))"

definition HasActiveApprovedPlan :: "gate_row option \<Rightarrow> bool \<times> execution_plan_gate option" where
  "HasActiveApprovedPlan tbl = (let plan = GetActiveApprovedPlan tbl in (plan \<noteq> None, plan))"

section \<open>Safety blocks\<close>

record block_row =
  br_Scope :: string
  br_BlockType :: string
  br_BlockedUntil :: int
  br_Reason :: string
  br_Metadata :: string
  br_CreatedAt :: int
  br_UpdatedAt :: int

record 'm safety_block =
  sb_Scope :: string
  sb_BlockType :: string
  sb_BlockedUntil :: int
  sb_Reason :: string
  sb_Metadata :: 'm
  sb_CreatedAt :: int
  sb_UpdatedAt :: int

definition block_key :: "block_row \<Rightarrow> string \<times> string" where
  "block_key r = (br_Scope r, br_BlockType r)"

text \<open>\<open>decode\<close> parses the stored metadata, \<open>none\<close> is the empty map.\<close>

definition block_of_row :: "(string \<Rightarrow> 'm option) \<Rightarrow> 'm \<Rightarrow> block_row \<Rightarrow> (store_failure, 'm safety_block) result" where
  "block_of_row decode none r =
     (case (if trim_space (br_Metadata r) \<noteq> [] then decode (br_Metadata r) else Some none) of
        None \<Rightarrow> Inl DecodeFailed
      | Some meta \<Rightarrow> Inr \<lparr>sb_Scope = br_Scope r, sb_BlockType = br_BlockType r, sb_BlockedUntil = br_BlockedUntil r,
                          sb_Reason = br_Reason r, sb_Metadata = meta, sb_CreatedAt = br_CreatedAt r,
                          sb_UpdatedAt = br_UpdatedAt r\<rparr>)"

definition GetBlock ::
  "(string \<Rightarrow> 'm option) \<Rightarrow> 'm \<Rightarrow> string \<Rightarrow> string \<Rightarrow> block_row list \<Rightarrow> (store_failure, 'm safety_block option) result" where
  "GetBlock decode none rawscope rawtype tbl =
     (let scope = trim_space rawscope; blockType = trim_space rawtype
      in if scope = [] \<or> blockType = [] then Inr None
         else case lookup_by block_key tbl (scope, blockType) of
                None \<Rightarrow> Inr None
              | Some r \<Rightarrow> map_sum id Some (block_of_row decode none r))"

text \<open>A zero time is \<open>None\<close>; \<open>nil\<close> metadata is \<open>None\<close>.\<close>

definition SetBlockWithMetadata ::
  "('m \<Rightarrow> string option) \<Rightarrow> 'm \<Rightarrow> string \<Rightarrow> string \<Rightarrow> int option \<Rightarrow> string \<Rightarrow> 'm option \<Rightarrow> int \<Rightarrow> block_row list
     \<Rightarrow> (store_failure, block_row list) result" where
  "SetBlockWithMetadata encode none rawscope rawtype blockedUntil rawreason metadata now tbl =
     (let scope = trim_space rawscope; blockType = trim_space rawtype; reason = trim_space rawreason;
          until = (case blockedUntil of None \<Rightarrow> now | Some t \<Rightarrow> t)
      in if scope = [] \<or> blockType = [] then Inl BlockKeyRequired
         else case encode (case metadata of None \<Rightarrow> none | Some m \<Rightarrow> m) of
                None \<Rightarrow> Inl EncodeFailed
              | Some json \<Rightarrow>
                  Inr (upsert_row block_key
                    \<lparr>br_Scope = scope, br_BlockType = blockType, br_BlockedUntil = until, br_Reason = reason,
                     br_Metadata = json, br_CreatedAt = now, br_UpdatedAt = now\<rparr>
                    (\<lambda>r. r\<lparr>br_BlockedUntil := until, br_Reason := reason, br_Metadata := json, br_CreatedAt := now,
                           br_UpdatedAt := now\<rparr>) tbl))"

definition SetBlock ::
  "('m \<Rightarrow> string option) \<Rightarrow> 'm \<Rightarrow> string \<Rightarrow> string \<Rightarrow> int option \<Rightarrow> string \<Rightarrow> int \<Rightarrow> block_row list
     \<Rightarrow> (store_failure, block_row list) result" where
  "SetBlock encode none scope blockType blockedUntil reason now tbl =
     SetBlockWithMetadata encode none scope blockType blockedUntil reason None now tbl"

definition RemoveBlock :: "string \<Rightarrow> string \<Rightarrow> block_row list \<Rightarrow> block_row list" where
  "RemoveBlock rawscope rawtype tbl =
     (let scope = trim_space rawscope; blockType = trim_space rawtype
      in if scope = [] \<or> blockType = [] then tbl else remove_row block_key (scope, blockType) tbl)"

definition block_less :: "block_row \<Rightarrow> block_row \<Rightarrow> bool" where
  "block_less a b = (if br_BlockType a \<noteq> br_BlockType b then br_BlockType a < br_BlockType b else br_Scope a < br_Scope b)"

fun decode_blocks ::
  "(string \<Rightarrow> 'm option) \<Rightarrow> 'm \<Rightarrow> block_row list \<Rightarrow> (store_failure, 'm safety_block list) result" where
  "decode_blocks decode none [] = Inr []"
| "decode_blocks decode none (r # rs) =
     (case block_of_row decode none r of
        Inl e \<Rightarrow> Inl e
      | Inr b \<Rightarrow> map_sum id (\<lambda>bs. b # bs) (decode_blocks decode none rs))"

definition GetActiveBlocks ::
  "(string \<Rightarrow> 'm option) \<Rightarrow> 'm \<Rightarrow> int \<Rightarrow> block_row list \<Rightarrow> (store_failure, 'm safety_block list) result" where
  "GetActiveBlocks decode none now tbl =
     decode_blocks decode none (sort_slice block_less (filter (\<lambda>r. now < br_BlockedUntil r) tbl))"

definition GetBlockCountsByType :: "int \<Rightarrow> block_row list \<Rightarrow> (string \<rightharpoonup> nat)" where
  "GetBlockCountsByType now tbl =
     (\<lambda>t. let n = length (filter (\<lambda>r. now < br_BlockedUntil r \<and> br_BlockType r = t) tbl) in if n = 0 then None else Some n)"

definition IsMorselValidating ::
  "(string \<Rightarrow> 'm option) \<Rightarrow> 'm \<Rightarrow> string \<Rightarrow> int \<Rightarrow> block_row list \<Rightarrow> (store_failure, bool) result" where
  "IsMorselValidating decode none morselID now tbl =
     map_sum id (\<lambda>b. case b of None \<Rightarrow> False | Some block \<Rightarrow> now < sb_BlockedUntil block)
       (GetBlock decode none (trim_space morselID) ''morsel_validating'' tbl)"

definition SetMorselValidating ::
  "('m \<Rightarrow> string option) \<Rightarrow> 'm \<Rightarrow> string \<Rightarrow> int option \<Rightarrow> int \<Rightarrow> block_row list \<Rightarrow> (store_failure, block_row list) result" where
  "SetMorselValidating encode none morselID until now tbl =
     SetBlock encode none (trim_space morselID) ''morsel_validating'' until ''morsel validating'' now tbl"

definition ClearMorselValidating :: "string \<Rightarrow> block_row list \<Rightarrow> block_row list" where
  "ClearMorselValidating morselID tbl = RemoveBlock (trim_space morselID) ''morsel_validating'' tbl"

section \<open>Morsel stages\<close>

record stage_entry =
  en_Stage :: string
  en_Status :: string
  en_StartedAt :: int
  en_CompletedAt :: "int option"
  en_DispatchID :: int

record morsel_stage =
  ms_ID :: int
  ms_Project :: string
  ms_MorselID :: string
  ms_Workflow :: string
  ms_CurrentStage :: string
  ms_StageIndex :: int
  ms_TotalStages :: int
  ms_StageHistory :: "stage_entry list"
  ms_CreatedAt :: int
  ms_UpdatedAt :: int

text \<open>A row, with the text of the history column, and the table with the counter of its ids.\<close>

record stage_row =
  sr_ID :: int
  sr_Project :: string
  sr_MorselID :: string
  sr_Workflow :: string
  sr_CurrentStage :: string
  sr_StageIndex :: int
  sr_TotalStages :: int
  sr_HistoryJSON :: string
  sr_CreatedAt :: int
  sr_UpdatedAt :: int

record stage_table =
  st_rows :: "stage_row list"
  st_next :: int

definition stage_key :: "stage_row \<Rightarrow> string \<times> string" where
  "stage_key r = (sr_Project r, sr_MorselID r)"

text \<open>Reading a row scans the history column into a variable that is not used.\<close>

definition stage_of_row :: "stage_row \<Rightarrow> morsel_stage" where
  "stage_of_row r =
     \<lparr>ms_ID = sr_ID r, ms_Project = sr_Project r, ms_MorselID = sr_MorselID r, ms_Workflow = sr_Workflow r,
      ms_CurrentStage = sr_CurrentStage r, ms_StageIndex = sr_StageIndex r, ms_TotalStages = sr_TotalStages r,
      ms_StageHistory = [], ms_CreatedAt = sr_CreatedAt r, ms_UpdatedAt = sr_UpdatedAt r\<rparr>"

definition GetMorselStage :: "string \<Rightarrow> string \<Rightarrow> stage_table \<Rightarrow> (store_failure, morsel_stage) result" where
  "GetMorselStage project morselID tbl =
     (case lookup_by stage_key (st_rows tbl) (project, morselID) of
        None \<Rightarrow> Inl (StageNotFound project morselID)
      | Some r \<Rightarrow> Inr (stage_of_row r))"

definition UpsertMorselStage :: "morsel_stage \<Rightarrow> int \<Rightarrow> stage_table \<Rightarrow> stage_table" where
  "UpsertMorselStage stage now tbl =
     (let k = (ms_Project stage, ms_MorselID stage)
      in \<lparr>st_rows = upsert_row stage_key
            \<lparr>sr_ID = st_next tbl, sr_Project = ms_Project stage, sr_MorselID = ms_MorselID stage,
             sr_Workflow = ms_Workflow stage, sr_CurrentStage = ms_CurrentStage stage, sr_StageIndex = ms_StageIndex stage,
             sr_TotalStages = ms_TotalStages stage, sr_HistoryJSON = ''[]'', sr_CreatedAt = now, sr_UpdatedAt = now\<rparr>
            (\<lambda>r. r\<lparr>sr_Workflow := ms_Workflow stage, sr_CurrentStage := ms_CurrentStage stage,
                   sr_StageIndex := ms_StageIndex stage, sr_TotalStages := ms_TotalStages stage,
                   sr_HistoryJSON := ''[]'', sr_UpdatedAt := now\<rparr>) (st_rows tbl),
          st_next = (if lookup_by stage_key (st_rows tbl) k = None then st_next tbl + 1 else st_next tbl)\<rparr>)"

definition UpdateMorselStageProgress ::
  "string \<Rightarrow> string \<Rightarrow> string \<Rightarrow> int \<Rightarrow> int \<Rightarrow> int \<Rightarrow> int \<Rightarrow> stage_table \<Rightarrow> stage_table" where
  "UpdateMorselStageProgress project morselID newStage stageIndex totalStages dispatchID now tbl =
     tbl\<lparr>st_rows := modify_row stage_key (project, morselID)
           (\<lambda>r. r\<lparr>sr_CurrentStage := newStage, sr_StageIndex := stageIndex, sr_TotalStages := totalStages,
                  sr_UpdatedAt := now\<rparr>) (st_rows tbl)\<rparr>"

definition ListMorselStagesForProject :: "string \<Rightarrow> stage_table \<Rightarrow> morsel_stage list" where
  "ListMorselStagesForProject project tbl =
     map stage_of_row (sort_slice (\<lambda>a b. sr_UpdatedAt b < sr_UpdatedAt a)
       (filter (\<lambda>r. sr_Project r = project) (st_rows tbl)))"

definition DeleteMorselStage :: "string \<Rightarrow> string \<Rightarrow> stage_table \<Rightarrow> (store_failure, stage_table) result" where
  "DeleteMorselStage project morselID tbl =
     (let rows = remove_row stage_key (project, morselID) (st_rows tbl)
      in if length rows = length (st_rows tbl) then Inl (StageNotFound project morselID)
         else Inr (tbl\<lparr>st_rows := rows\<rparr>))"

definition GetMorselStagesByMorselIDOnly :: "string \<Rightarrow> stage_table \<Rightarrow> (store_failure, morsel_stage list) result" where
  "GetMorselStagesByMorselIDOnly morselID tbl =
     (let stages = filter (\<lambda>r. sr_MorselID r = morselID) (st_rows tbl);
          projectsSeen = remdups (map sr_Project stages)
      in if 1 < length projectsSeen then Inl (AmbiguousMorsel morselID projectsSeen)
         else Inr (map stage_of_row stages))"

section \<open>Leases as a map\<close>

text \<open>The operations that change the leases, each at a time.\<close>

datatype lease_op =
    Claim string string string string int
  | Attach string int int
  | Heartbeat string int
  | Release string

definition or_else :: "'a \<Rightarrow> ('e, 'a) result \<Rightarrow> 'a" where
  "or_else old r = (case r of Inl _ \<Rightarrow> old | Inr new \<Rightarrow> new)"

fun lease_step :: "lease_op \<Rightarrow> claim_lease list \<Rightarrow> claim_lease list" where
  "lease_step (Claim i p d a now) tbl = or_else tbl (UpsertClaimLease i p d a now tbl)"
| "lease_step (Attach i n now) tbl = or_else tbl (AttachDispatchToClaimLease i n now tbl)"
| "lease_step (Heartbeat i now) tbl = or_else tbl (HeartbeatClaimLease i now tbl)"
| "lease_step (Release i) tbl = or_else tbl (DeleteClaimLease i tbl)"

text \<open>
  What they mean: one lease per morsel. A claim by anybody takes the lease over, keeping the time of
  the first claim and the attached dispatch; nothing happens for a blank morsel id.
\<close>

fun lease_spec :: "lease_op \<Rightarrow> (string \<rightharpoonup> claim_lease) \<Rightarrow> (string \<rightharpoonup> claim_lease)" where
  "lease_spec (Claim i p d a now) m =
     (let j = trim_space i
      in if j = [] then m
         else m(j \<mapsto> \<lparr>cl_MorselID = j, cl_Project = trim_space p, cl_MorselsDir = trim_space d, cl_AgentID = trim_space a,
                      cl_DispatchID = (case m j of None \<Rightarrow> 0 | Some l \<Rightarrow> cl_DispatchID l),
                      cl_ClaimedAt = (case m j of None \<Rightarrow> now | Some l \<Rightarrow> cl_ClaimedAt l), cl_HeartbeatAt = now\<rparr>))"
| "lease_spec (Attach i n now) m =
     (let j = trim_space i
      in if j = [] then m else m(j := map_option (\<lambda>l. l\<lparr>cl_DispatchID := n, cl_HeartbeatAt := now\<rparr>) (m j)))"
| "lease_spec (Heartbeat i now) m =
     (let j = trim_space i in if j = [] then m else m(j := map_option (\<lambda>l. l\<lparr>cl_HeartbeatAt := now\<rparr>) (m j)))"
| "lease_spec (Release i) m = (let j = trim_space i in if j = [] then m else m(j := None))"

lemma lease_step_unique: "unique_keys cl_MorselID tbl \<Longrightarrow> unique_keys cl_MorselID (lease_step op tbl)"
  by (cases op)
    (simp_all add: or_else_def UpsertClaimLease_def AttachDispatchToClaimLease_def HeartbeatClaimLease_def
      DeleteClaimLease_def Let_def tbl.ok_upsert tbl.ok_modify tbl.ok_remove)

lemma lease_step_refines:
  assumes "unique_keys cl_MorselID tbl"
  shows "lookup_by cl_MorselID (lease_step op tbl) = lease_spec op (lookup_by cl_MorselID tbl)"
proof (cases op)
  case (Claim i p d a now)
  have "lookup_by cl_MorselID tbl j = Some l \<Longrightarrow> cl_MorselID l = j" for j l by (rule tbl.lookup_key)
  then show ?thesis
    using assms
    by (auto simp: Claim or_else_def UpsertClaimLease_def Let_def tbl.lookup_upsert fun_eq_iff split: option.split)
qed (use assms in \<open>simp_all add: or_else_def AttachDispatchToClaimLease_def HeartbeatClaimLease_def
      DeleteClaimLease_def Let_def tbl.lookup_modify tbl.lookup_remove\<close>)

lemma lease_run_refines:
  assumes "unique_keys cl_MorselID tbl"
  shows "unique_keys cl_MorselID (fold lease_step ops tbl) \<and>
    lookup_by cl_MorselID (fold lease_step ops tbl) = fold lease_spec ops (lookup_by cl_MorselID tbl)"
  using assms
  by (induction ops arbitrary: tbl) (simp_all add: lease_step_unique lease_step_refines)

lemma GetClaimLease_lookup:
  "trim_space i \<noteq> [] \<Longrightarrow> GetClaimLease i tbl = lookup_by cl_MorselID tbl (trim_space i)"
  by (induction tbl) (auto simp: GetClaimLease_def lookup_by_def Let_def split: list.splits if_splits)

interpretation heartbeat_order: slice_order heartbeat_less
  by unfold_locales (auto simp: heartbeat_less_def)

section \<open>Blocks as a map\<close>

lemma block_update_key [simp]: "block_key (r\<lparr>br_BlockedUntil := u, br_Reason := x, br_Metadata := j, br_CreatedAt := c, br_UpdatedAt := d\<rparr>) = block_key r"
  by (simp add: block_key_def)

lemma SetBlock_lookup:
  assumes "SetBlockWithMetadata encode none scope ty until reason meta now tbl = Inr tbl'" and "unique_keys block_key tbl"
  shows "unique_keys block_key tbl' \<and>
    (\<exists>json. encode (case meta of None \<Rightarrow> none | Some m \<Rightarrow> m) = Some json \<and> trim_space scope \<noteq> [] \<and> trim_space ty \<noteq> [] \<and>
       lookup_by block_key tbl' = (lookup_by block_key tbl)((trim_space scope, trim_space ty) \<mapsto>
         \<lparr>br_Scope = trim_space scope, br_BlockType = trim_space ty,
          br_BlockedUntil = (case until of None \<Rightarrow> now | Some t \<Rightarrow> t), br_Reason = trim_space reason,
          br_Metadata = json, br_CreatedAt = now, br_UpdatedAt = now\<rparr>))"
proof -
  obtain json where j: "encode (case meta of None \<Rightarrow> none | Some m \<Rightarrow> m) = Some json"
    "trim_space scope \<noteq> []" "trim_space ty \<noteq> []"
    using assms(1) by (auto simp: SetBlockWithMetadata_def Let_def split: if_splits option.splits)
  define new where "new = \<lparr>br_Scope = trim_space scope, br_BlockType = trim_space ty,
      br_BlockedUntil = (case until of None \<Rightarrow> now | Some t \<Rightarrow> t), br_Reason = trim_space reason, br_Metadata = json,
      br_CreatedAt = now, br_UpdatedAt = now\<rparr>"
  define f :: "block_row \<Rightarrow> block_row" where "f = (\<lambda>r. r\<lparr>br_BlockedUntil := (case until of None \<Rightarrow> now | Some t \<Rightarrow> t), br_Reason := trim_space reason,
      br_Metadata := json, br_CreatedAt := now, br_UpdatedAt := now\<rparr>)"
  have t: "tbl' = upsert_row block_key new f tbl"
    using assms(1) j by (simp add: SetBlockWithMetadata_def Let_def new_def f_def)
  have k: "block_key new = (trim_space scope, trim_space ty)" "\<And>r. block_key (f r) = block_key r"
    by (simp_all add: new_def f_def block_key_def)
  have "(case lookup_by block_key tbl (block_key new) of None \<Rightarrow> new | Some r \<Rightarrow> f r) = new"
  proof (cases "lookup_by block_key tbl (block_key new)")
    case (Some r)
    then have "block_key r = block_key new" by (rule tbl.lookup_key)
    then show ?thesis using Some by (cases r) (simp add: f_def new_def block_key_def)
  qed simp
  then have "lookup_by block_key tbl' = (lookup_by block_key tbl)((trim_space scope, trim_space ty) \<mapsto> new)"
    unfolding t using tbl.lookup_upsert [OF assms(2), of f new] k by simp
  then show ?thesis
    using j assms(2) k(2) unfolding t new_def by (simp add: tbl.ok_upsert)
qed

section \<open>Properties\<close>




text \<open>A claim does not exclude: a second agent that claims a held morsel becomes its holder.\<close>

lemma claim_not_exclusive:
  "map_option cl_AgentID (GetClaimLease ''m'' (fold lease_step [Claim ''m'' ''p'' ''d'' ''a'' 1, Claim ''m'' ''p'' ''d'' ''b'' 2] []))
     = Some ''b''"
  by code_simp

end
