(* ===== verification/Mcts.thy ===== *)
theory Mcts
  imports Store_Tables Complex_Main
begin

text \<open>
  The planner statistics of \<open>internal/store/mcts.go\<close>: nodes, edges, rollouts and one row of
  statistics per parent node, species and action. Recording a rollout is one transaction over the
  four tables. Rewards, costs and durations are exact numbers; database calls succeed.
\<close>

section \<open>Tables\<close>

record mcts_edge_stat =
  me_ParentNodeKey :: string
  me_Species :: string
  me_ActionKey :: string
  me_Visits :: int
  me_Wins :: int
  me_TotalReward :: rat
  me_TotalCostUSD :: rat
  me_TotalDurationS :: rat
  me_LastOutcome :: string
  me_UpdatedAt :: int

record mcts_rollout =
  ro_TaskID :: string
  ro_Project :: string
  ro_Species :: string
  ro_ParentNodeKey :: string
  ro_ActionKey :: string
  ro_Outcome :: string
  ro_Reward :: rat
  ro_CostUSD :: rat
  ro_DurationS :: rat
  ro_MetadataJSON :: string

record mcts_node =
  nd_NodeKey :: string
  nd_NodeType :: string
  nd_UpdatedAt :: int

record mcts_edge =
  ed_ParentNodeKey :: string
  ed_ChildNodeKey :: string
  ed_ActionKey :: string

record mcts_db =
  mc_nodes :: "mcts_node list"
  mc_edges :: "mcts_edge list"
  mc_rollouts :: "mcts_rollout list"
  mc_stats :: "mcts_edge_stat list"

definition empty_mcts :: mcts_db where
  "empty_mcts = \<lparr>mc_nodes = [], mc_edges = [], mc_rollouts = [], mc_stats = []\<rparr>"

datatype mcts_error = ParentNodeKeyRequired | ActionKeyRequired

definition stat_key :: "mcts_edge_stat \<Rightarrow> string \<times> string \<times> string" where
  "stat_key r = (me_ParentNodeKey r, me_Species r, me_ActionKey r)"

definition edge_key :: "mcts_edge \<Rightarrow> string \<times> string" where
  "edge_key e = (ed_ParentNodeKey e, ed_ActionKey e)"

section \<open>Operations\<close>

definition normalizeMCTSSpecies :: "string \<Rightarrow> string" where
  "normalizeMCTSSpecies species = (let s = trim_space species in if s = [] then ''*'' else s)"

definition mctsChildNodeKey :: "string \<Rightarrow> string \<Rightarrow> string" where
  "mctsChildNodeKey parentNodeKey actionKey = parentNodeKey @ ''::'' @ actionKey"

definition upsert_node :: "string \<Rightarrow> string \<Rightarrow> int \<Rightarrow> mcts_node list \<Rightarrow> mcts_node list" where
  "upsert_node k ty now = upsert_row nd_NodeKey \<lparr>nd_NodeKey = k, nd_NodeType = ty, nd_UpdatedAt = now\<rparr>
     (\<lambda>r. r\<lparr>nd_UpdatedAt := now\<rparr>)"

definition ensureMCTSGraph :: "string \<Rightarrow> string \<Rightarrow> int \<Rightarrow> mcts_db \<Rightarrow> mcts_db" where
  "ensureMCTSGraph parentNodeKey actionKey now db =
     (let childNodeKey = mctsChildNodeKey parentNodeKey actionKey
      in db\<lparr>mc_nodes := upsert_node childNodeKey ''action'' now (upsert_node parentNodeKey ''root'' now (mc_nodes db)),
            mc_edges := upsert_row edge_key
              \<lparr>ed_ParentNodeKey = parentNodeKey, ed_ChildNodeKey = childNodeKey, ed_ActionKey = actionKey\<rparr>
              (\<lambda>r. r\<lparr>ed_ChildNodeKey := childNodeKey\<rparr>) (mc_edges db)\<rparr>)"

definition clamp0 :: "rat \<Rightarrow> rat" where
  "clamp0 x = (if x < 0 then 0 else x)"

definition UpsertMCTSEdgeStat :: "mcts_edge_stat \<Rightarrow> int \<Rightarrow> mcts_db \<Rightarrow> (mcts_error, mcts_db) result" where
  "UpsertMCTSEdgeStat stat now db =
     (let parent = trim_space (me_ParentNodeKey stat); action = trim_space (me_ActionKey stat);
          species = normalizeMCTSSpecies (me_Species stat); lastOutcome = trim_space (me_LastOutcome stat);
          visits = (if me_Visits stat < 0 then 0 else me_Visits stat);
          wins0 = (if me_Wins stat < 0 then 0 else me_Wins stat);
          wins = (if visits < wins0 then visits else wins0);
          totalCost = clamp0 (me_TotalCostUSD stat); totalDuration = clamp0 (me_TotalDurationS stat)
      in if parent = [] then Inl ParentNodeKeyRequired
         else if action = [] then Inl ActionKeyRequired
         else let db1 = ensureMCTSGraph parent action now db
              in Inr (db1\<lparr>mc_stats := upsert_row stat_key
                   \<lparr>me_ParentNodeKey = parent, me_Species = species, me_ActionKey = action, me_Visits = visits,
                    me_Wins = wins, me_TotalReward = me_TotalReward stat, me_TotalCostUSD = totalCost,
                    me_TotalDurationS = totalDuration, me_LastOutcome = lastOutcome, me_UpdatedAt = now\<rparr>
                   (\<lambda>r. r\<lparr>me_Visits := visits, me_Wins := wins, me_TotalReward := me_TotalReward stat,
                          me_TotalCostUSD := totalCost, me_TotalDurationS := totalDuration,
                          me_LastOutcome := lastOutcome, me_UpdatedAt := now\<rparr>) (mc_stats db1)\<rparr>))"

definition stat_less :: "mcts_edge_stat \<Rightarrow> mcts_edge_stat \<Rightarrow> bool" where
  "stat_less a b =
     (if me_Visits a \<noteq> me_Visits b then me_Visits b < me_Visits a
      else if me_TotalReward a \<noteq> me_TotalReward b then me_TotalReward b < me_TotalReward a
      else me_ActionKey a < me_ActionKey b)"

definition ListMCTSEdgeStats :: "string \<Rightarrow> string \<Rightarrow> int \<Rightarrow> mcts_db \<Rightarrow> mcts_edge_stat list" where
  "ListMCTSEdgeStats parentNodeKey rawspecies rawlimit db =
     (let parent = trim_space parentNodeKey; species = trim_space rawspecies;
          limit0 = (if rawlimit \<le> 0 then 32 else rawlimit); limit = (if 500 < limit0 then 500 else limit0)
      in if parent = [] then []
         else take (nat limit) (sort_slice stat_less
                (filter (\<lambda>r. me_ParentNodeKey r = parent \<and>
                             (species = [] \<or> me_Species r = normalizeMCTSSpecies species)) (mc_stats db))))"

definition is_win :: "rat \<Rightarrow> string \<Rightarrow> bool" where
  "is_win reward outcome \<longleftrightarrow> 0 < reward \<or> to_lower outcome = ''success'' \<or> to_lower outcome = ''started''"

text \<open>The row that is stored for a rollout.\<close>

definition clean_rollout :: "mcts_rollout \<Rightarrow> mcts_rollout" where
  "clean_rollout r =
     \<lparr>ro_TaskID = trim_space (ro_TaskID r), ro_Project = trim_space (ro_Project r),
      ro_Species = normalizeMCTSSpecies (ro_Species r), ro_ParentNodeKey = trim_space (ro_ParentNodeKey r),
      ro_ActionKey = trim_space (ro_ActionKey r),
      ro_Outcome = (if trim_space (ro_Outcome r) = [] then ''unknown'' else trim_space (ro_Outcome r)),
      ro_Reward = ro_Reward r, ro_CostUSD = clamp0 (ro_CostUSD r), ro_DurationS = clamp0 (ro_DurationS r),
      ro_MetadataJSON = (if trim_space (ro_MetadataJSON r) = [] then ''{}'' else trim_space (ro_MetadataJSON r))\<rparr>"

definition add_rollout :: "mcts_rollout \<Rightarrow> int \<Rightarrow> mcts_edge_stat list \<Rightarrow> mcts_edge_stat list" where
  "add_rollout c now =
     (let win = (if is_win (ro_Reward c) (ro_Outcome c) then 1 else 0)
      in upsert_row stat_key
           \<lparr>me_ParentNodeKey = ro_ParentNodeKey c, me_Species = ro_Species c, me_ActionKey = ro_ActionKey c, me_Visits = 1,
            me_Wins = win, me_TotalReward = ro_Reward c, me_TotalCostUSD = ro_CostUSD c,
            me_TotalDurationS = ro_DurationS c, me_LastOutcome = ro_Outcome c, me_UpdatedAt = now\<rparr>
           (\<lambda>r. r\<lparr>me_Visits := me_Visits r + 1, me_Wins := me_Wins r + win,
                  me_TotalReward := me_TotalReward r + ro_Reward c, me_TotalCostUSD := me_TotalCostUSD r + ro_CostUSD c,
                  me_TotalDurationS := me_TotalDurationS r + ro_DurationS c, me_LastOutcome := ro_Outcome c,
                  me_UpdatedAt := now\<rparr>))"

text \<open>The id of a rollout is its position in the table, counted from 1: rollouts are never deleted.\<close>

definition RecordMCTSRollout :: "mcts_rollout \<Rightarrow> int \<Rightarrow> mcts_db \<Rightarrow> (mcts_error, int \<times> mcts_db) result" where
  "RecordMCTSRollout rollout now db =
     (let c = clean_rollout rollout
      in if ro_ParentNodeKey c = [] then Inl ParentNodeKeyRequired
         else if ro_ActionKey c = [] then Inl ActionKeyRequired
         else let db1 = ensureMCTSGraph (ro_ParentNodeKey c) (ro_ActionKey c) now db;
                  db2 = db1\<lparr>mc_rollouts := mc_rollouts db1 @ [c]\<rparr>
              in Inr (int (length (mc_rollouts db2)), db2\<lparr>mc_stats := add_rollout c now (mc_stats db2)\<rparr>))"

section \<open>The statistics summarise the rollouts\<close>

definition rollouts_of :: "mcts_db \<Rightarrow> string \<times> string \<times> string \<Rightarrow> mcts_rollout list" where
  "rollouts_of db k = filter (\<lambda>c. (ro_ParentNodeKey c, ro_Species c, ro_ActionKey c) = k) (mc_rollouts db)"

definition sums_up :: "mcts_edge_stat \<Rightarrow> mcts_rollout list \<Rightarrow> bool" where
  "sums_up st rs \<longleftrightarrow> rs \<noteq> [] \<and> me_Visits st = int (length rs) \<and>
     me_Wins st = int (length (filter (\<lambda>c. is_win (ro_Reward c) (ro_Outcome c)) rs)) \<and>
     me_TotalReward st = sum_list (map ro_Reward rs) \<and> me_TotalCostUSD st = sum_list (map ro_CostUSD rs) \<and>
     me_TotalDurationS st = sum_list (map ro_DurationS rs) \<and> me_LastOutcome st = ro_Outcome (last rs)"

text \<open>Rows are unique per key, every statistic sums up the rollouts of its key and every key with a
  rollout has one, and each rollout has its edge and nodes.\<close>

definition mcts_inv :: "mcts_db \<Rightarrow> bool" where
  "mcts_inv db \<longleftrightarrow> unique_keys stat_key (mc_stats db) \<and> unique_keys edge_key (mc_edges db) \<and>
     unique_keys nd_NodeKey (mc_nodes db) \<and>
     (\<forall>k. case lookup_by stat_key (mc_stats db) k of
            None \<Rightarrow> rollouts_of db k = [] | Some st \<Rightarrow> sums_up st (rollouts_of db k)) \<and>
     (\<forall>c \<in> set (mc_rollouts db).
        (\<exists>e. lookup_by edge_key (mc_edges db) (ro_ParentNodeKey c, ro_ActionKey c) = Some e \<and>
             ed_ChildNodeKey e = mctsChildNodeKey (ro_ParentNodeKey c) (ro_ActionKey c) \<and>
             lookup_by nd_NodeKey (mc_nodes db) (ed_ChildNodeKey e) \<noteq> None) \<and>
        lookup_by nd_NodeKey (mc_nodes db) (ro_ParentNodeKey c) \<noteq> None)"

inductive mcts_step :: "mcts_db \<Rightarrow> mcts_db \<Rightarrow> bool" where
  rollout: "RecordMCTSRollout r now db = Inr (i, db') \<Longrightarrow> mcts_step db db'"

inductive_cases mcts_stepE [elim]: "mcts_step db db'"

lemma upsert_node_unique: "unique_keys nd_NodeKey ns \<Longrightarrow> unique_keys nd_NodeKey (upsert_node k ty now ns)"
  by (simp add: upsert_node_def tbl.ok_upsert)

lemma upsert_node_lookup:
  "unique_keys nd_NodeKey ns \<Longrightarrow>
     lookup_by nd_NodeKey (upsert_node k ty now ns) j = None \<longleftrightarrow> j \<noteq> k \<and> lookup_by nd_NodeKey ns j = None"
  by (simp add: upsert_node_def tbl.lookup_upsert)

lemma ensureMCTSGraph_frame [simp]:
  "mc_rollouts (ensureMCTSGraph p a now db) = mc_rollouts db" "mc_stats (ensureMCTSGraph p a now db) = mc_stats db"
  by (simp_all add: ensureMCTSGraph_def Let_def)

lemma ensureMCTSGraph_nodes:
  assumes "unique_keys nd_NodeKey (mc_nodes db)"
  shows "unique_keys nd_NodeKey (mc_nodes (ensureMCTSGraph p a now db))"
    and "lookup_by nd_NodeKey (mc_nodes (ensureMCTSGraph p a now db)) j = None \<longleftrightarrow>
      j \<noteq> p \<and> j \<noteq> mctsChildNodeKey p a \<and> lookup_by nd_NodeKey (mc_nodes db) j = None"
  using assms by (auto simp: ensureMCTSGraph_def Let_def upsert_node_unique upsert_node_lookup)

lemma ensureMCTSGraph_edges:
  assumes "unique_keys edge_key (mc_edges db)"
  shows "unique_keys edge_key (mc_edges (ensureMCTSGraph p a now db))"
    and "lookup_by edge_key (mc_edges (ensureMCTSGraph p a now db)) = (lookup_by edge_key (mc_edges db))((p, a) \<mapsto>
      \<lparr>ed_ParentNodeKey = p, ed_ChildNodeKey = mctsChildNodeKey p a, ed_ActionKey = a\<rparr>)"
proof -
  let ?new = "\<lparr>ed_ParentNodeKey = p, ed_ChildNodeKey = mctsChildNodeKey p a, ed_ActionKey = a\<rparr>"
  let ?f = "\<lambda>r :: mcts_edge. r\<lparr>ed_ChildNodeKey := mctsChildNodeKey p a\<rparr>"
  have k: "edge_key ?new = (p, a)" "\<And>r. edge_key (?f r) = edge_key r" by (simp_all add: edge_key_def)
  have e: "mc_edges (ensureMCTSGraph p a now db) = upsert_row edge_key ?new ?f (mc_edges db)"
    by (simp add: ensureMCTSGraph_def Let_def)
  show "unique_keys edge_key (mc_edges (ensureMCTSGraph p a now db))"
    unfolding e using assms k(2) by (rule tbl.ok_upsert)
  have "(case lookup_by edge_key (mc_edges db) (p, a) of None \<Rightarrow> ?new | Some r \<Rightarrow> ?f r) = ?new"
  proof (cases "lookup_by edge_key (mc_edges db) (p, a)")
    case (Some r)
    then have "edge_key r = (p, a)" by (rule tbl.lookup_key)
    then show ?thesis using Some by (cases r) (simp add: edge_key_def)
  qed simp
  then show "lookup_by edge_key (mc_edges (ensureMCTSGraph p a now db)) = (lookup_by edge_key (mc_edges db))((p, a) \<mapsto> ?new)"
    unfolding e using tbl.lookup_upsert [where key = edge_key and f = ?f and new = ?new, OF assms k(2)] k(1) by simp
qed

lemma add_rollout_sums:
  assumes "unique_keys stat_key sts"
    and "\<And>k. case lookup_by stat_key sts k of
           None \<Rightarrow> filter (\<lambda>c. (ro_ParentNodeKey c, ro_Species c, ro_ActionKey c) = k) rs = []
         | Some st \<Rightarrow> sums_up st (filter (\<lambda>c. (ro_ParentNodeKey c, ro_Species c, ro_ActionKey c) = k) rs)"
  shows "unique_keys stat_key (add_rollout c now sts)"
    and "case lookup_by stat_key (add_rollout c now sts) k of
           None \<Rightarrow> filter (\<lambda>c. (ro_ParentNodeKey c, ro_Species c, ro_ActionKey c) = k) (rs @ [c]) = []
         | Some st \<Rightarrow> sums_up st (filter (\<lambda>c. (ro_ParentNodeKey c, ro_Species c, ro_ActionKey c) = k) (rs @ [c]))"
proof -
  define w :: int where "w = (if is_win (ro_Reward c) (ro_Outcome c) then 1 else 0)"
  define new where "new = \<lparr>me_ParentNodeKey = ro_ParentNodeKey c, me_Species = ro_Species c, me_ActionKey = ro_ActionKey c,
      me_Visits = 1, me_Wins = w, me_TotalReward = ro_Reward c, me_TotalCostUSD = ro_CostUSD c,
      me_TotalDurationS = ro_DurationS c, me_LastOutcome = ro_Outcome c, me_UpdatedAt = now\<rparr>"
  define f :: "mcts_edge_stat \<Rightarrow> mcts_edge_stat" where "f = (\<lambda>r. r\<lparr>me_Visits := me_Visits r + 1, me_Wins := me_Wins r + w,
      me_TotalReward := me_TotalReward r + ro_Reward c, me_TotalCostUSD := me_TotalCostUSD r + ro_CostUSD c,
      me_TotalDurationS := me_TotalDurationS r + ro_DurationS c, me_LastOutcome := ro_Outcome c, me_UpdatedAt := now\<rparr>)"
  have a: "add_rollout c now = upsert_row stat_key new f"
    by (simp add: add_rollout_def new_def f_def w_def Let_def)
  have k: "\<And>r. stat_key (f r) = stat_key r" "stat_key new = (ro_ParentNodeKey c, ro_Species c, ro_ActionKey c)"
    by (simp_all add: stat_key_def f_def new_def)
  show "unique_keys stat_key (add_rollout c now sts)" unfolding a using assms(1) k(1) by (rule tbl.ok_upsert)
  let ?l = "lookup_by stat_key sts"
  have l: "lookup_by stat_key (add_rollout c now sts) = ?l(stat_key new \<mapsto> (case ?l (stat_key new) of None \<Rightarrow> new | Some r \<Rightarrow> f r))"
    unfolding a by (rule tbl.lookup_upsert [OF assms(1) k(1)])
  have n: "sums_up new [c]" by (simp add: sums_up_def new_def w_def)
  have s: "sums_up (f st) (xs @ [c])" if "sums_up st xs" for st xs
    using that by (simp add: sums_up_def f_def w_def)
  show "case lookup_by stat_key (add_rollout c now sts) k of
      None \<Rightarrow> filter (\<lambda>c. (ro_ParentNodeKey c, ro_Species c, ro_ActionKey c) = k) (rs @ [c]) = []
    | Some st \<Rightarrow> sums_up st (filter (\<lambda>c. (ro_ParentNodeKey c, ro_Species c, ro_ActionKey c) = k) (rs @ [c]))"
  proof (cases "k = stat_key new")
    case True
    then show ?thesis
      using assms(2) [of k] n s unfolding l by (cases "?l k") (simp_all add: k(2))
  next
    case False
    then have f: "filter (\<lambda>c. (ro_ParentNodeKey c, ro_Species c, ro_ActionKey c) = k) (rs @ [c]) =
        filter (\<lambda>c. (ro_ParentNodeKey c, ro_Species c, ro_ActionKey c) = k) rs" by (auto simp: k(2))
    show ?thesis using assms(2) [of k] False unfolding l f by simp
  qed
qed

lemma mcts_inv_empty: "mcts_inv empty_mcts"
  by (simp add: mcts_inv_def empty_mcts_def unique_keys_def lookup_by_def rollouts_of_def)

lemma mcts_inv_step:
  assumes "mcts_inv db" and "mcts_step db db'"
  shows "mcts_inv db'"
proof -
  obtain r now i where "RecordMCTSRollout r now db = Inr (i, db')" using assms(2) by (rule mcts_stepE)
  then obtain c where c: "ro_ParentNodeKey c \<noteq> []" "ro_ActionKey c \<noteq> []"
    "db' = (ensureMCTSGraph (ro_ParentNodeKey c) (ro_ActionKey c) now db)
       \<lparr>mc_rollouts := mc_rollouts db @ [c], mc_stats := add_rollout c now (mc_stats db)\<rparr>"
    by (auto simp: RecordMCTSRollout_def Let_def split: if_splits)
  let ?p = "ro_ParentNodeKey c" and ?a = "ro_ActionKey c"
  let ?g = "ensureMCTSGraph ?p ?a now db"
  have db': "mc_nodes db' = mc_nodes ?g" "mc_edges db' = mc_edges ?g" "mc_rollouts db' = mc_rollouts db @ [c]"
    "mc_stats db' = add_rollout c now (mc_stats db)" by (simp_all add: c(3))
  have u: "unique_keys stat_key (mc_stats db)" "unique_keys edge_key (mc_edges db)" "unique_keys nd_NodeKey (mc_nodes db)"
    using assms(1) by (simp_all add: mcts_inv_def)
  have sums: "case lookup_by stat_key (mc_stats db) k of
      None \<Rightarrow> filter (\<lambda>c. (ro_ParentNodeKey c, ro_Species c, ro_ActionKey c) = k) (mc_rollouts db) = []
    | Some st \<Rightarrow> sums_up st (filter (\<lambda>c. (ro_ParentNodeKey c, ro_Species c, ro_ActionKey c) = k) (mc_rollouts db))" for k
    using assms(1) unfolding mcts_inv_def rollouts_of_def by blast
  note add = add_rollout_sums [OF u(1) sums]
  note nodes = ensureMCTSGraph_nodes [OF u(3)] and edges = ensureMCTSGraph_edges [OF u(2)]
  have graph: "(\<exists>e. lookup_by edge_key (mc_edges ?g) (ro_ParentNodeKey d, ro_ActionKey d) = Some e \<and>
      ed_ChildNodeKey e = mctsChildNodeKey (ro_ParentNodeKey d) (ro_ActionKey d) \<and>
      lookup_by nd_NodeKey (mc_nodes ?g) (ed_ChildNodeKey e) \<noteq> None) \<and>
      lookup_by nd_NodeKey (mc_nodes ?g) (ro_ParentNodeKey d) \<noteq> None"
    if d: "d \<in> set (mc_rollouts db @ [c])" for d
  proof (cases "(ro_ParentNodeKey d, ro_ActionKey d) = (?p, ?a)")
    case True
    then show ?thesis by (simp add: edges(2) nodes(2))
  next
    case False
    then have "d \<in> set (mc_rollouts db)" using d by auto
    then obtain e where e: "lookup_by edge_key (mc_edges db) (ro_ParentNodeKey d, ro_ActionKey d) = Some e"
      "ed_ChildNodeKey e = mctsChildNodeKey (ro_ParentNodeKey d) (ro_ActionKey d)"
      "lookup_by nd_NodeKey (mc_nodes db) (ed_ChildNodeKey e) \<noteq> None"
      "lookup_by nd_NodeKey (mc_nodes db) (ro_ParentNodeKey d) \<noteq> None"
      using assms(1) unfolding mcts_inv_def by blast
    have "lookup_by edge_key (mc_edges ?g) (ro_ParentNodeKey d, ro_ActionKey d) = Some e"
      using e(1) False by (auto simp: edges(2))
    moreover have "lookup_by nd_NodeKey (mc_nodes ?g) (ed_ChildNodeKey e) \<noteq> None"
      "lookup_by nd_NodeKey (mc_nodes ?g) (ro_ParentNodeKey d) \<noteq> None"
      unfolding nodes(2) using e(3,4) by simp_all
    ultimately show ?thesis using e(2) by blast
  qed
  show ?thesis
    unfolding mcts_inv_def rollouts_of_def db'
  proof (intro conjI allI)
    show "\<forall>d \<in> set (mc_rollouts db @ [c]).
      (\<exists>e. lookup_by edge_key (mc_edges ?g) (ro_ParentNodeKey d, ro_ActionKey d) = Some e \<and>
        ed_ChildNodeKey e = mctsChildNodeKey (ro_ParentNodeKey d) (ro_ActionKey d) \<and>
        lookup_by nd_NodeKey (mc_nodes ?g) (ed_ChildNodeKey e) \<noteq> None) \<and>
      lookup_by nd_NodeKey (mc_nodes ?g) (ro_ParentNodeKey d) \<noteq> None"
      by (rule ballI) (rule graph)
  qed (rule add(1) edges(1) nodes(1) add(2))+
qed

interpretation mcts_run: machine empty_mcts mcts_step mcts_inv
  using mcts_inv_empty mcts_inv_step by unfold_locales

section \<open>Properties\<close>

text \<open>
  C35. The planner statistics never drift: after any sequence of recorded rollouts the row of a
  parent, species and action counts exactly the rollouts stored for it, with their wins, rewards,
  costs and durations summed up and the outcome of the last one, there is a row exactly when there
  is such a rollout, and every rollout has its edge and both nodes.
\<close>

theorem mcts_stats_exact:
  assumes "mcts_step\<^sup>*\<^sup>* empty_mcts db"
  shows "mcts_inv db"
  using assms by (rule mcts_run.inv_reachable)

definition sample_rollout :: mcts_rollout where
  "sample_rollout = \<lparr>ro_TaskID = ''t'', ro_Project = ''p'', ro_Species = [], ro_ParentNodeKey = ''n'', ro_ActionKey = ''direct'',
     ro_Outcome = ''started'', ro_Reward = 1, ro_CostUSD = -1, ro_DurationS = 2, ro_MetadataJSON = []\<rparr>"

theorem mcts_stats_exact_witness:
  "\<exists>db. mcts_step\<^sup>*\<^sup>* empty_mcts db \<and> length (mc_rollouts db) = 2 \<and>
     (\<exists>st. lookup_by stat_key (mc_stats db) (''n'', ''*'', ''direct'') = Some st \<and> sums_up st (mc_rollouts db))"
proof -
  have t: "clean_rollout sample_rollout = \<lparr>ro_TaskID = ''t'', ro_Project = ''p'', ro_Species = ''*'', ro_ParentNodeKey = ''n'',
      ro_ActionKey = ''direct'', ro_Outcome = ''started'', ro_Reward = 1, ro_CostUSD = 0, ro_DurationS = 2, ro_MetadataJSON = ''{}''\<rparr>"
    by code_simp
  obtain i1 db1 where r1: "RecordMCTSRollout sample_rollout 0 empty_mcts = Inr (i1, db1)" "mc_rollouts db1 = [clean_rollout sample_rollout]"
    by (simp add: RecordMCTSRollout_def t Let_def empty_mcts_def)
  obtain i2 db2 where r2: "RecordMCTSRollout sample_rollout 1 db1 = Inr (i2, db2)"
    "mc_rollouts db2 = [clean_rollout sample_rollout, clean_rollout sample_rollout]"
    using r1(2) by (simp add: RecordMCTSRollout_def t Let_def)
  have s: "mcts_step\<^sup>*\<^sup>* empty_mcts db2"
    using mcts_step.rollout [OF r1(1)] mcts_step.rollout [OF r2(1)] by (meson converse_rtranclp_into_rtranclp rtranclp.rtrancl_refl)
  have "case lookup_by stat_key (mc_stats db2) (''n'', ''*'', ''direct'') of
      None \<Rightarrow> rollouts_of db2 (''n'', ''*'', ''direct'') = []
    | Some st \<Rightarrow> sums_up st (rollouts_of db2 (''n'', ''*'', ''direct''))"
    using mcts_stats_exact [OF s] unfolding mcts_inv_def by blast
  moreover have "rollouts_of db2 (''n'', ''*'', ''direct'') = mc_rollouts db2" by (simp add: rollouts_of_def r2(2) t)
  ultimately show ?thesis using s r2(2) by (auto split: option.splits)
qed


end
