(* ===== verification/Planner.thy ===== *)
theory Planner
  imports Dispatch_Tick Mcts
begin

text \<open>
  The second planner: the selection of a branch by UCT (\<open>internal/planner/primitives.go\<close>) and the
  workflow that chooses a lane for a task and starts it
  (\<open>internal/temporal/workflow_planner_v2.go\<close>).

  \<^item> Floating-point numbers are real numbers, with the infinities that the code uses as scores;
    rounding and \<open>NaN\<close> are not modelled. Priors, rewards and durations are rationals.
  \<^item> The priors are a Go map; the order in which its keys are traversed is an argument.
  \<^item> Times and ages are seconds; a zero time is \<open>None\<close>.
\<close>

section \<open>UCT\<close>

record arm =
  ar_Key :: string
  ar_Visits :: int
  ar_TotalReward :: real
  ar_Prior :: real
  ar_LastSeen :: "int option"

datatype score = NegInf | Fin real | PosInf

fun score_less :: "score \<Rightarrow> score \<Rightarrow> bool" where
  "score_less _ NegInf = False"
| "score_less NegInf _ = True"
| "score_less PosInf _ = False"
| "score_less (Fin x) (Fin y) = (x < y)"
| "score_less (Fin x) PosInf = True"

record selection =
  sl_Index :: int
  sl_Key :: string
  sl_Score :: score

definition uctScore :: "arm \<Rightarrow> int \<Rightarrow> real \<Rightarrow> score" where
  "uctScore a rawTotal exploration =
     (let visits = ar_Visits a
      in if visits \<le> 0 then PosInf
         else let totalVisits = (if rawTotal < visits then visits else rawTotal);
                  exploit = ar_TotalReward a / real_of_int visits;
                  explore = exploration * sqrt (ln (real_of_int (totalVisits + 1)) / real_of_int visits)
              in Fin (exploit + explore + ar_Prior a))"

text \<open>The state of the loop: the best selection, its prior and its key.\<close>

record uct_best =
  ub_best :: selection
  ub_prior :: score
  ub_key :: string

definition uct_step :: "int \<Rightarrow> real \<Rightarrow> nat \<Rightarrow> arm \<Rightarrow> uct_best \<Rightarrow> uct_best" where
  "uct_step totalVisits exploration i a b =
     (let score = uctScore a totalVisits exploration; prior = Fin (ar_Prior a); key = ar_Key a; best = ub_best b
      in if score_less (sl_Score best) score \<or>
            (score = sl_Score best \<and>
             (score_less (ub_prior b) prior \<or> (prior = ub_prior b \<and> (sl_Index best < 0 \<or> key < ub_key b))))
         then \<lparr>ub_best = \<lparr>sl_Index = int i, sl_Key = key, sl_Score = score\<rparr>, ub_prior = prior, ub_key = key\<rparr>
         else b)"

fun uct_loop :: "int \<Rightarrow> real \<Rightarrow> nat \<Rightarrow> arm list \<Rightarrow> uct_best \<Rightarrow> uct_best" where
  "uct_loop totalVisits exploration i [] b = b"
| "uct_loop totalVisits exploration i (a # as) b =
     uct_loop totalVisits exploration (Suc i) as (uct_step totalVisits exploration i a b)"

definition total_visits :: "arm list \<Rightarrow> int" where
  "total_visits arms = sum_list (map (\<lambda>a. if 0 < ar_Visits a then ar_Visits a else 0) arms)"

definition SelectUCT :: "arm list \<Rightarrow> real \<Rightarrow> selection option" where
  "SelectUCT arms rawExploration =
     (if arms = [] then None
      else let exploration = (if rawExploration < 0 then 0 else rawExploration)
           in Some (ub_best (uct_loop (total_visits arms) exploration 0 arms
                \<lparr>ub_best = \<lparr>sl_Index = - 1, sl_Key = [], sl_Score = NegInf\<rparr>, ub_prior = NegInf, ub_key = []\<rparr>)))"

definition DecayByAge :: "real \<Rightarrow> int \<Rightarrow> int \<Rightarrow> real" where
  "DecayByAge value age halfLife =
     (if value = 0 \<or> age \<le> 0 \<or> halfLife \<le> 0 then value
      else value * (1 / 2) powr (real_of_int age / real_of_int halfLife))"

definition keep_arm :: "int \<Rightarrow> int \<Rightarrow> int \<Rightarrow> arm \<Rightarrow> bool" where
  "keep_arm now minVisits staleAfter a =
     (let visits = (if ar_Visits a < 0 then 0 else ar_Visits a)
      in visits = 0 \<or> minVisits \<le> visits \<or>
         (case ar_LastSeen a of None \<Rightarrow> True | Some t \<Rightarrow> now - t \<le> staleAfter))"

definition PruneStaleArms :: "arm list \<Rightarrow> int \<Rightarrow> int \<Rightarrow> int \<Rightarrow> arm list" where
  "PruneStaleArms arms now rawMin staleAfter =
     (if arms = [] then []
      else let minVisits = (if rawMin < 0 then 0 else rawMin)
           in if staleAfter \<le> 0 then arms else filter (keep_arm now minVisits staleAfter) arms)"

section \<open>Lanes\<close>

definition plannerV2LaneDirect :: string where "plannerV2LaneDirect = ''direct''"

definition plannerV2LanePlanning :: string where "plannerV2LanePlanning = ''planning''"

type_synonym lane_priors = "rat \<times> rat"

text \<open>The prior of the direct lane and the prior of the planning lane.\<close>

definition plannerV2LanePriors :: "dispatch_candidate \<Rightarrow> lane_priors" where
  "plannerV2LanePriors c =
     (let bump = (\<lambda>cond (dd, dp) (d, p). if cond then (d + dd, p + dp) else (d, p))
      in bump (70 < dx_Complexity c) (- 3 / 10, 8 / 10)
        (bump (dx_PreviousErrors c \<noteq> []) (- 2 / 10, 1)
          (bump (dx_Generation c = 0) (- 3 / 10, 12 / 10)
            (bump (0 < dx_Generation c \<and> dx_Complexity c < 50 \<and> dx_PreviousErrors c = []) (7 / 10, 0)
              (bump (isCrabEmittedCandidate c) (3, - 1) (8 / 10, 2 / 10))))))"

definition prior_of :: "lane_priors \<Rightarrow> string \<Rightarrow> rat" where
  "prior_of ps lane = (if lane = plannerV2LaneDirect then fst ps else snd ps)"

definition normalizePlannerV2LaneKey :: "string \<Rightarrow> string" where
  "normalizePlannerV2LaneKey action =
     (let a = trim_space action
      in if a = ''turtle'' then plannerV2LanePlanning else if a = ''cambrian'' then plannerV2LanePlanning else a)"

definition plannerV2RewardHalfLife :: int where "plannerV2RewardHalfLife = 72 * 3600"

definition stat_age :: "int \<Rightarrow> int option \<Rightarrow> int" where
  "stat_age now updatedAt = (case updatedAt of None \<Rightarrow> 0 | Some t \<Rightarrow> if t < now then now - t else 0)"

definition apply_stat :: "int \<Rightarrow> planner_edge_stat \<Rightarrow> arm list \<Rightarrow> arm list" where
  "apply_stat now st arms =
     (let action = normalizePlannerV2LaneKey (pe_ActionKey st)
      in update_where (\<lambda>a. ar_Key a = action)
           (\<lambda>a. a\<lparr>ar_Visits := pe_Visits st,
                  ar_TotalReward := DecayByAge (of_rat (pe_TotalReward st)) (stat_age now (pe_UpdatedAt st)) plannerV2RewardHalfLife,
                  ar_LastSeen := pe_UpdatedAt st\<rparr>) arms)"

definition lane_arms :: "string list \<Rightarrow> dispatch_candidate \<Rightarrow> int \<Rightarrow> arm list" where
  "lane_arms order c now =
     fold (apply_stat now) (dx_PlannerEdgeStats c)
       (map (\<lambda>action. \<lparr>ar_Key = action, ar_Visits = 0, ar_TotalReward = 0,
                       ar_Prior = of_rat (prior_of (plannerV2LanePriors c) action), ar_LastSeen = None\<rparr>) order)"

text \<open>\<open>order\<close> lists the keys of the priors in the order of the traversal.\<close>

definition selectPlannerV2Lane :: "string list \<Rightarrow> planner_v2_request \<Rightarrow> int \<Rightarrow> string \<times> score \<times> lane_priors" where
  "selectPlannerV2Lane order req now =
     (let c = pq_Candidate req; priors = plannerV2LanePriors c
      in if isCrabEmittedCandidate c then (plannerV2LaneDirect, Fin 0, priors)
         else let filtered = PruneStaleArms (lane_arms order c now) now 2 (14 * 24 * 3600)
              in if filtered = [] then (plannerV2LaneDirect, Fin 0, priors)
                 else case SelectUCT filtered (12 / 10) of
                        None \<Rightarrow> (plannerV2LaneDirect, Fin 0, priors)
                      | Some s \<Rightarrow> if sl_Key s = [] then (plannerV2LaneDirect, Fin 0, priors)
                                 else (sl_Key s, sl_Score s, priors))"

section \<open>The workflow\<close>

record planner_outcome =
  po_TaskID :: string
  po_Project :: string
  po_Species :: string
  po_ParentNodeKey :: string
  po_SelectedAction :: string
  po_Outcome :: string
  po_Reward :: rat
  po_DurationS :: rat
  po_ChildWorkflow :: string
  po_MetadataJSON :: string

datatype planner_event = LaneChild child_start | RecordOutcome planner_outcome

text \<open>
  The time of the start, how long the start of the child took, whether it started (with the id of the
  execution), and the JSON text of reward and priors, if they can be encoded.
\<close>

record planner_env =
  pv_now :: int
  pv_duration :: rat
  pv_order :: "string list"
  pv_start :: "(string, string) result"
  pv_marshal :: "rat \<Rightarrow> lane_priors \<Rightarrow> string option"

definition recordPlannerOutcome ::
  "planner_env \<Rightarrow> planner_v2_request \<Rightarrow> string \<Rightarrow> string \<Rightarrow> string \<Rightarrow> rat \<Rightarrow> string \<Rightarrow> lane_priors \<Rightarrow> planner_event" where
  "recordPlannerOutcome env req parentNodeKey selectedLane outcome reward childWorkflowID priors =
     (let c = pq_Candidate req
      in RecordOutcome \<lparr>po_TaskID = dx_TaskID c, po_Project = dx_Project c, po_Species = dx_Species c,
           po_ParentNodeKey = parentNodeKey, po_SelectedAction = selectedLane, po_Outcome = outcome,
           po_Reward = reward, po_DurationS = pv_duration env, po_ChildWorkflow = childWorkflowID,
           po_MetadataJSON = (case pv_marshal env reward priors of None \<Rightarrow> ''{}'' | Some s \<Rightarrow> s)\<rparr>)"

definition PlannerV2Workflow :: "planner_v2_request \<Rightarrow> planner_env \<Rightarrow> (string, unit) result \<times> planner_event list" where
  "PlannerV2Workflow req env =
     (let c = pq_Candidate req;
          parent0 = trim_space (pq_ParentNodeKey req);
          parentNodeKey = (if parent0 = [] then plannerV2RootNodeKey else parent0);
          (lane0, _, priors) = selectPlannerV2Lane (pv_order env) req (pv_now env);
          wfID = dx_TaskID c @ ''-'' @ lane0 @ ''-'' @ show_int (pv_now env);
          (selectedLane, request) =
            (if lane0 = plannerV2LanePlanning
             then (lane0, PlanningChild (seededPlanningRequestFromCandidate c (tr_Agent (pq_Task req)) (slow_step c)
                                           (10 * minute) (30 * minute)))
             else (plannerV2LaneDirect, AgentChild (pq_Task req)));
          child = LaneChild \<lparr>ch_WorkflowID = wfID, ch_Timeout = Some (workflowTimeout (of_int (dx_EstimateMinutes c))),
                             ch_Request = request, ch_Started = is_ok (pv_start env)\<rparr>
      in case pv_start env of
           Inl err \<Rightarrow>
             (Inl (''planner v2 start child lane='' @ selectedLane @ '': '' @ err),
              [child, recordPlannerOutcome env req parentNodeKey selectedLane ''start_failed'' 0 [] priors])
         | Inr childID \<Rightarrow>
             (Inr (), [child, recordPlannerOutcome env req parentNodeKey selectedLane ''started'' 1 childID priors]))"

datatype record_error = SelectedActionRequired | RolloutFailed mcts_error

definition RecordPlannerOutcomeActivity ::
  "planner_outcome \<Rightarrow> int \<Rightarrow> mcts_db option \<Rightarrow> (record_error, mcts_db option) result" where
  "RecordPlannerOutcomeActivity outcome now store =
     (case store of
        None \<Rightarrow> Inr None
      | Some db \<Rightarrow>
          (let parent0 = trim_space (po_ParentNodeKey outcome);
               parentNodeKey = (if parent0 = [] then plannerV2RootNodeKey else parent0);
               action = trim_space (po_SelectedAction outcome)
           in if action = [] then Inl SelectedActionRequired
              else case RecordMCTSRollout
                     \<lparr>ro_TaskID = trim_space (po_TaskID outcome), ro_Project = trim_space (po_Project outcome),
                      ro_Species = trim_space (po_Species outcome), ro_ParentNodeKey = parentNodeKey, ro_ActionKey = action,
                      ro_Outcome = trim_space (po_Outcome outcome), ro_Reward = po_Reward outcome, ro_CostUSD = 0,
                      ro_DurationS = po_DurationS outcome, ro_MetadataJSON = trim_space (po_MetadataJSON outcome)\<rparr> now db of
                     Inl e \<Rightarrow> Inl (RolloutFailed e)
                   | Inr (_, db') \<Rightarrow> Inr (Some db')))"

section \<open>The best arm\<close>

lemma score_less_irrefl [simp]: "\<not> score_less a a"
  by (cases a) auto

lemma score_less_trans: "score_less a b \<Longrightarrow> score_less b c \<Longrightarrow> score_less a c"
  by (cases a; cases b; cases c) auto

lemma score_less_total: "score_less a b \<or> a = b \<or> score_less b a"
  by (cases a; cases b) auto

text \<open>The order of the choice: by score, then by prior, then by the smaller key.\<close>

definition better :: "int \<Rightarrow> real \<Rightarrow> arm \<Rightarrow> arm \<Rightarrow> bool" where
  "better tv ex a b \<longleftrightarrow> score_less (uctScore b tv ex) (uctScore a tv ex) \<or>
     (uctScore a tv ex = uctScore b tv ex \<and>
      (ar_Prior b < ar_Prior a \<or> (ar_Prior a = ar_Prior b \<and> ar_Key a < ar_Key b)))"

lemma not_better:
  "\<not> better tv ex a b \<longleftrightarrow> score_less (uctScore a tv ex) (uctScore b tv ex) \<or>
     (uctScore a tv ex = uctScore b tv ex \<and>
      (ar_Prior a < ar_Prior b \<or> (ar_Prior a = ar_Prior b \<and> \<not> ar_Key a < ar_Key b)))"
  unfolding better_def
  using score_less_total [of "uctScore a tv ex" "uctScore b tv ex"] score_less_trans [of "uctScore a tv ex" "uctScore b tv ex" "uctScore a tv ex"]
  by auto

interpretation arm_order: slice_order "better tv ex" for tv ex
proof
  fix x y z
  show "\<not> better tv ex x x" by (simp add: better_def)
  show "better tv ex x z" if "better tv ex x y" "better tv ex y z"
    using that score_less_trans [of "uctScore z tv ex" "uctScore y tv ex" "uctScore x tv ex"]
    unfolding better_def by auto
  have "\<not> better tv ex x z" if "\<not> better tv ex x y" "\<not> better tv ex y z"
    using that score_less_trans [of "uctScore x tv ex" "uctScore y tv ex" "uctScore z tv ex"]
    unfolding not_better by (auto simp: not_less)
  then show "better tv ex x y \<or> better tv ex y z" if "better tv ex x z" using that by blast
qed

lemma better_total: "ar_Key a \<noteq> ar_Key b \<Longrightarrow> better tv ex a b \<or> better tv ex b a"
  unfolding better_def using score_less_total [of "uctScore a tv ex" "uctScore b tv ex"] by force

definition picked :: "int \<Rightarrow> real \<Rightarrow> nat \<Rightarrow> arm \<Rightarrow> uct_best" where
  "picked tv ex i a =
     \<lparr>ub_best = \<lparr>sl_Index = int i, sl_Key = ar_Key a, sl_Score = uctScore a tv ex\<rparr>, ub_prior = Fin (ar_Prior a),
      ub_key = ar_Key a\<rparr>"

lemma uct_step_picked:
  "uct_step tv ex i a (picked tv ex j b) = (if better tv ex a b then picked tv ex i a else picked tv ex j b)"
  by (auto simp: uct_step_def picked_def better_def Let_def)

lemma uct_step_first:
  "uct_step tv ex i a \<lparr>ub_best = \<lparr>sl_Index = - 1, sl_Key = [], sl_Score = NegInf\<rparr>, ub_prior = NegInf, ub_key = []\<rparr>
     = picked tv ex i a"
  by (simp add: uct_step_def picked_def Let_def uctScore_def)

lemma uct_loop_picked:
  "\<exists>k c. uct_loop tv ex i as (picked tv ex j a) = picked tv ex k c \<and>
     (k = j \<and> c = a \<or> i \<le> k \<and> k < i + length as \<and> c = as ! (k - i)) \<and>
     (\<forall>b \<in> insert a (set as). \<not> better tv ex b c)"
proof (induction as arbitrary: i j a)
  case Nil
  show ?case by (rule exI [of _ j], rule exI [of _ a]) (simp add: arm_order.lt_irrefl)
next
  case (Cons b bs)
  show ?case
  proof (cases "better tv ex b a")
    case True
    from Cons.IH [of "Suc i" i b] obtain k c where
      e: "uct_loop tv ex (Suc i) bs (picked tv ex i b) = picked tv ex k c"
      and p: "k = i \<and> c = b \<or> Suc i \<le> k \<and> k < Suc i + length bs \<and> c = bs ! (k - Suc i)"
      and m: "\<forall>d \<in> insert b (set bs). \<not> better tv ex d c" by blast
    have "\<not> better tv ex a b" using True by (rule arm_order.lt_asym)
    moreover have "\<not> better tv ex b c" using m by simp
    ultimately have "\<not> better tv ex a c" using arm_order.lt_split [of tv ex a c b] by blast
    moreover have "i \<le> k \<and> k < i + length (b # bs) \<and> c = (b # bs) ! (k - i)"
      using p by (auto simp: Suc_diff_Suc nth_Cons')
    ultimately show ?thesis using e m True by (auto simp: uct_step_picked)
  next
    case False
    from Cons.IH [of "Suc i" j a] obtain k c where
      e: "uct_loop tv ex (Suc i) bs (picked tv ex j a) = picked tv ex k c"
      and p: "k = j \<and> c = a \<or> Suc i \<le> k \<and> k < Suc i + length bs \<and> c = bs ! (k - Suc i)"
      and m: "\<forall>d \<in> insert a (set bs). \<not> better tv ex d c" by blast
    have "\<not> better tv ex a c" using m by simp
    then have "\<not> better tv ex b c" using False arm_order.lt_split [of tv ex b c a] by blast
    moreover have "k = j \<and> c = a \<or> i \<le> k \<and> k < i + length (b # bs) \<and> c = (b # bs) ! (k - i)"
      using p by (auto simp: Suc_diff_Suc nth_Cons')
    ultimately show ?thesis using e m False by (auto simp: uct_step_picked)
  qed
qed

lemma SelectUCT_best:
  assumes "arms \<noteq> []"
  shows "\<exists>k < length arms. SelectUCT arms ex = Some \<lparr>sl_Index = int k, sl_Key = ar_Key (arms ! k),
      sl_Score = uctScore (arms ! k) (total_visits arms) (max 0 ex)\<rparr> \<and>
    (\<forall>b \<in> set arms. \<not> better (total_visits arms) (max 0 ex) b (arms ! k))"
proof -
  obtain a as where a: "arms = a # as" using assms by (cases arms) auto
  define tv e where "tv = total_visits arms" and "e = max 0 ex"
  have m: "(if ex < 0 then 0 else ex) = e" by (simp add: e_def)
  from uct_loop_picked [of tv e 1 as 0 a] obtain k c where
    l: "uct_loop tv e 1 as (picked tv e 0 a) = picked tv e k c"
    and p: "k = 0 \<and> c = a \<or> 1 \<le> k \<and> k < 1 + length as \<and> c = as ! (k - 1)"
    and b: "\<forall>b \<in> insert a (set as). \<not> better tv e b c" by blast
  have "SelectUCT arms ex = Some (ub_best (picked tv e k c))"
    using l unfolding tv_def by (simp add: SelectUCT_def Let_def m a uct_step_first)
  moreover have "k < length arms" "c = arms ! k" using p by (auto simp: a nth_Cons')
  ultimately show ?thesis using b by (auto simp: picked_def a tv_def e_def)
qed

lemma total_visits_mset: "mset arms = mset arms' \<Longrightarrow> total_visits arms = total_visits arms'"
  by (simp add: total_visits_def flip: sum_mset_sum_list)

lemma select_uct_arm:
  assumes "arms \<noteq> []" and "distinct (map ar_Key arms)"
  obtains a where "a \<in> set arms"
    and "\<And>b. b \<in> set arms \<Longrightarrow> b \<noteq> a \<Longrightarrow> better (total_visits arms) (max 0 ex) a b"
    and "\<And>arms'. mset arms' = mset arms \<Longrightarrow> \<exists>k < length arms'. arms' ! k = a \<and>
      SelectUCT arms' ex = Some \<lparr>sl_Index = int k, sl_Key = ar_Key a, sl_Score = uctScore a (total_visits arms) (max 0 ex)\<rparr>"
proof -
  let ?tv = "total_visits arms" and ?e = "max 0 ex"
  from SelectUCT_best [OF assms(1), of ex] obtain k where k: "k < length arms"
    and best: "\<forall>b \<in> set arms. \<not> better ?tv ?e b (arms ! k)" by blast
  let ?a = "arms ! k"
  have beats: "better ?tv ?e ?a b" if "b \<in> set arms" "b \<noteq> ?a" for b
  proof -
    have "ar_Key b \<noteq> ar_Key ?a"
      using that k assms(2) by (auto simp: distinct_map dest: inj_onD)
    then show ?thesis using best that(1) better_total by blast
  qed
  show thesis
  proof
    show "?a \<in> set arms" using k by simp
    show "better ?tv ?e ?a b" if "b \<in> set arms" "b \<noteq> ?a" for b using that by (rule beats)
    fix arms' :: "arm list"
    assume m: "mset arms' = mset arms"
    then have ne: "arms' \<noteq> []" and s: "set arms' = set arms" and tv: "total_visits arms' = ?tv"
      using assms(1) by (auto dest: mset_eq_setD total_visits_mset)
    from SelectUCT_best [OF ne, of ex] obtain k' where k': "k' < length arms'"
      and sel: "SelectUCT arms' ex = Some \<lparr>sl_Index = int k', sl_Key = ar_Key (arms' ! k'),
          sl_Score = uctScore (arms' ! k') ?tv ?e\<rparr>"
      and best': "\<forall>b \<in> set arms. \<not> better ?tv ?e b (arms' ! k')" by (auto simp: tv s)
    have "arms' ! k' \<in> set arms" using k' s by (metis nth_mem)
    then have "arms' ! k' = ?a" using beats best' k by (metis nth_mem)
    then show "\<exists>k < length arms'. arms' ! k = ?a \<and>
        SelectUCT arms' ex = Some \<lparr>sl_Index = int k, sl_Key = ar_Key ?a, sl_Score = uctScore ?a ?tv ?e\<rparr>"
      using k' sel by auto
  qed
qed

section \<open>Lanes do not depend on the order of the map\<close>

definition stat_arm :: "int \<Rightarrow> dispatch_candidate \<Rightarrow> string \<Rightarrow> arm" where
  "stat_arm now c action = hd (lane_arms [action] c now)"

lemma fold_update_where_map:
  "fold (apply_stat now) sts (map f order) = map (\<lambda>k. hd (fold (apply_stat now) sts [f k])) order"
proof (induction sts arbitrary: f)
  case (Cons st sts)
  obtain g where g: "apply_stat now st = map g"
    by (rule that [of "\<lambda>a. hd (apply_stat now st [a])"]) (simp add: fun_eq_iff apply_stat_def update_where_def Let_def)
  show ?case using Cons.IH [of "g \<circ> f"] by (simp add: g comp_def)
qed simp

lemma lane_arms_map: "lane_arms order c now = map (stat_arm now c) order"
  by (simp add: lane_arms_def stat_arm_def fold_update_where_map)

lemma lane_arms_keys: "map ar_Key (lane_arms order c now) = order"
proof -
  have "map ar_Key (fold (apply_stat now) sts arms) = map ar_Key arms" for sts arms
    by (induction sts arbitrary: arms) (simp_all add: apply_stat_def Let_def map_update_where)
  then show ?thesis by (simp add: lane_arms_def comp_def)
qed


definition lane_order :: "string list \<Rightarrow> bool" where
  "lane_order order \<longleftrightarrow> mset order = {#plannerV2LaneDirect, plannerV2LanePlanning#}"

lemma lane_names: "plannerV2LaneDirect \<noteq> plannerV2LanePlanning" "plannerV2LaneDirect \<noteq> []" "plannerV2LanePlanning \<noteq> []"
  by code_simp+

lemma filter_distinct_map: "distinct (map f xs) \<Longrightarrow> distinct (map f (filter P xs))"
  by (induction xs) auto

lemma lane_order_set: "lane_order order \<Longrightarrow> set order = {plannerV2LaneDirect, plannerV2LanePlanning}"
  unfolding lane_order_def by (metis set_mset_mset set_mset_add_mset_insert set_mset_empty)

definition kept_lanes :: "string list \<Rightarrow> dispatch_candidate \<Rightarrow> int \<Rightarrow> arm list" where
  "kept_lanes order c now = filter (keep_arm now 2 1209600) (lane_arms order c now)"

lemma selectPlannerV2Lane_eq:
  "selectPlannerV2Lane order req now =
     (let c = pq_Candidate req; dflt = (plannerV2LaneDirect, Fin 0, plannerV2LanePriors c)
      in if isCrabEmittedCandidate c \<or> kept_lanes order c now = [] then dflt
         else case SelectUCT (kept_lanes order c now) (6 / 5) of
                None \<Rightarrow> dflt
              | Some s \<Rightarrow> if sl_Key s = [] then dflt else (sl_Key s, sl_Score s, plannerV2LanePriors c))"
  by (simp add: selectPlannerV2Lane_def PruneStaleArms_def kept_lanes_def Let_def)

lemma selectPlannerV2Lane_cases:
  assumes "lane_order order"
  shows "(\<exists>sc. selectPlannerV2Lane order req now = (plannerV2LaneDirect, sc, plannerV2LanePriors (pq_Candidate req))) \<or>
    \<not> isCrabEmittedCandidate (pq_Candidate req) \<and>
    (\<exists>sc. selectPlannerV2Lane order req now = (plannerV2LanePlanning, sc, plannerV2LanePriors (pq_Candidate req)))"
proof -
  let ?c = "pq_Candidate req"
  let ?fs = "kept_lanes order ?c now"
  consider "isCrabEmittedCandidate ?c" | "\<not> isCrabEmittedCandidate ?c" "?fs = []" | "\<not> isCrabEmittedCandidate ?c" "?fs \<noteq> []" by blast
  then show ?thesis
  proof cases
    case 3
    from SelectUCT_best [OF 3(2), of "6 / 5"] obtain k where k: "k < length ?fs"
      and s: "SelectUCT ?fs (6 / 5) = Some \<lparr>sl_Index = int k, sl_Key = ar_Key (?fs ! k),
        sl_Score = uctScore (?fs ! k) (total_visits ?fs) (max 0 (6 / 5))\<rparr>" by blast
    have "?fs ! k \<in> set (lane_arms order ?c now)" using nth_mem [OF k] by (simp add: kept_lanes_def)
    then have "ar_Key (?fs ! k) \<in> set (map ar_Key (lane_arms order ?c now))" by simp
    then have "ar_Key (?fs ! k) \<in> {plannerV2LaneDirect, plannerV2LanePlanning}"
      by (simp only: lane_arms_keys lane_order_set [OF assms])
    then show ?thesis
      using 3 s lane_names by (auto simp: selectPlannerV2Lane_eq Let_def)
  qed (simp_all add: selectPlannerV2Lane_eq Let_def)
qed

lemma selectPlannerV2Lane_order:
  assumes "lane_order order" and "lane_order order'"
  shows "selectPlannerV2Lane order req now = selectPlannerV2Lane order' req now"
proof -
  let ?c = "pq_Candidate req"
  let ?fs = "\<lambda>order. kept_lanes order ?c now"
  have "mset order' = mset order" using assms by (simp add: lane_order_def)
  then have m: "mset (?fs order') = mset (?fs order)"
    unfolding kept_lanes_def lane_arms_map mset_filter mset_map by (rule arg_cong)
  have d: "distinct (map ar_Key (?fs order))"
  proof -
    have "distinct order"
      using assms(1) lane_names(1) unfolding lane_order_def
      by (metis distinct.simps(2) distinct_singleton mset.simps mset_eq_imp_distinct_iff singleton_iff list.set(1,2))
    then show ?thesis unfolding kept_lanes_def by (intro filter_distinct_map) (simp add: lane_arms_keys)
  qed
  show ?thesis
  proof (cases "?fs order = []")
    case True
    then have "?fs order' = []" using m by simp
    with True show ?thesis by (simp add: selectPlannerV2Lane_eq Let_def)
  next
    case False
    obtain a k k' where "SelectUCT (?fs order) (6 / 5) = Some \<lparr>sl_Index = int k, sl_Key = ar_Key a,
        sl_Score = uctScore a (total_visits (?fs order)) (max 0 (6 / 5))\<rparr>"
      and "SelectUCT (?fs order') (6 / 5) = Some \<lparr>sl_Index = int k', sl_Key = ar_Key a,
        sl_Score = uctScore a (total_visits (?fs order)) (max 0 (6 / 5))\<rparr>"
      using select_uct_arm [OF False d, of "6 / 5"] m by metis
    moreover have "?fs order' \<noteq> []" using False m by (metis mset_zero_iff)
    ultimately show ?thesis
      using False by (simp add: selectPlannerV2Lane_eq Let_def)
  qed
qed


section \<open>Properties\<close>

text \<open>
  C34. The choice of the bandit is the best arm and does not depend on the order of the arms: among
  arms with distinct keys one beats all others by UCT score, then prior, then smaller key, and every
  arrangement of the arms makes \<open>SelectUCT\<close> return that arm, with its index in the arrangement.
\<close>

theorem select_uct_best:
  assumes "arms \<noteq> []" and "distinct (map ar_Key arms)"
  shows "\<exists>a \<in> set arms. (\<forall>b \<in> set arms. b \<noteq> a \<longrightarrow> better (total_visits arms) (max 0 ex) a b) \<and>
    (\<forall>arms'. mset arms' = mset arms \<longrightarrow>
       (\<exists>k < length arms'. arms' ! k = a \<and>
          SelectUCT arms' ex = Some \<lparr>sl_Index = int k, sl_Key = ar_Key a, sl_Score = uctScore a (total_visits arms) (max 0 ex)\<rparr>))"
  using select_uct_arm [OF assms, of ex] by metis

definition sample_arm :: "string \<Rightarrow> int \<Rightarrow> real \<Rightarrow> real \<Rightarrow> arm" where
  "sample_arm k v r p = \<lparr>ar_Key = k, ar_Visits = v, ar_TotalReward = r, ar_Prior = p, ar_LastSeen = None\<rparr>"

theorem select_uct_best_witness:
  "\<exists>k. map_option sl_Key (SelectUCT [sample_arm ''b'' 0 0 1, sample_arm ''a'' 2 1 0] 1) = Some k \<and>
       map_option sl_Key (SelectUCT [sample_arm ''a'' 2 1 0, sample_arm ''b'' 0 0 1] 1) = Some k"
proof -
  let ?arms = "[sample_arm ''b'' 0 0 1, sample_arm ''a'' 2 1 0]"
  have "?arms \<noteq> []" "distinct (map ar_Key ?arms)" by (simp_all add: sample_arm_def)
  from select_uct_best [OF this, of 1] obtain a where
    a: "\<And>arms'. mset arms' = mset ?arms \<Longrightarrow> \<exists>k. SelectUCT arms' 1 = Some \<lparr>sl_Index = int k, sl_Key = ar_Key a,
        sl_Score = uctScore a (total_visits ?arms) (max 0 1)\<rparr>" by blast
  have "mset [sample_arm ''a'' 2 1 0, sample_arm ''b'' 0 0 1] = mset ?arms" by simp
  from a [OF refl] a [OF this] show ?thesis by auto
qed

lemma extract_lane:
  assumes "trim_space i = i" and "i \<noteq> []" and "lane = plannerV2LaneDirect \<or> lane = plannerV2LanePlanning" and "10 ^ 7 \<le> now"
  shows "extractTaskIDFromWorkflowID (i @ ''-'' @ lane @ ''-'' @ show_int now) = i"
proof -
  have "\<not> is_space (hd i)" using assms(1,2) trim_space_eq_iff by blast
  then have "extractTaskIDFromWorkflowID ((i @ ''-'' @ lane) @ ''-'' @ show_int now) =
      (case find (has_suffix (i @ ''-'' @ lane)) lane_suffixes of
         None \<Rightarrow> i @ ''-'' @ lane | Some suf \<Rightarrow> trim_suffix (i @ ''-'' @ lane) suf)"
    using assms(2,4) by (intro extract_stamp) simp_all
  moreover have "find (has_suffix (i @ ''-'' @ lane)) lane_suffixes = Some (''-'' @ lane)"
  proof (rule disjE [OF assms(3)])
    assume "lane = plannerV2LaneDirect"
    then show ?thesis by (simp add: lane_suffixes_def has_suffix_def has_prefix_def plannerV2LaneDirect_def)
  next
    assume "lane = plannerV2LanePlanning"
    then show ?thesis by (simp add: lane_suffixes_def has_suffix_def has_prefix_def plannerV2LanePlanning_def)
  qed
  moreover have "trim_suffix (i @ ''-'' @ lane) (''-'' @ lane) = i"
    using has_suffix_append [of i "''-'' @ lane"] by (simp add: trim_suffix_def)
  ultimately show ?thesis by simp
qed

text \<open>
  C33. A run of the planner uses one of the two lanes: whatever the order in which the priors are
  traversed, it starts one child, a planning ceremony in the planning lane and the coding workflow of the
  task in the direct lane, never a ceremony for a task emitted by the decomposition, under an id from
  which the task's id can be read back; and it records exactly one outcome for that lane, with reward 1
  when the child started and 0, with an error for the caller, when it did not.
\<close>

theorem planner_lane:
  assumes "lane_order (pv_order env)" and "lane_order order"
    and "trim_space (dx_TaskID (pq_Candidate req)) = dx_TaskID (pq_Candidate req)" and "dx_TaskID (pq_Candidate req) \<noteq> []"
    and "10 ^ 7 \<le> pv_now env"
  shows "\<exists>lane child out. snd (PlannerV2Workflow req env) = [LaneChild child, RecordOutcome out] \<and>
    lane = fst (selectPlannerV2Lane order req (pv_now env)) \<and> po_SelectedAction out = lane \<and>
    (if lane = plannerV2LanePlanning
     then \<not> isCrabEmittedCandidate (pq_Candidate req) \<and> (\<exists>p. ch_Request child = PlanningChild p)
     else lane = plannerV2LaneDirect \<and> ch_Request child = AgentChild (pq_Task req)) \<and>
    extractTaskIDFromWorkflowID (ch_WorkflowID child) = dx_TaskID (pq_Candidate req) \<and>
    ch_Started child = is_ok (pv_start env) \<and> is_ok (fst (PlannerV2Workflow req env)) = is_ok (pv_start env) \<and>
    po_TaskID out = dx_TaskID (pq_Candidate req) \<and> po_Reward out = (if is_ok (pv_start env) then 1 else 0)"
proof -
  let ?lane = "fst (selectPlannerV2Lane order req (pv_now env))"
  have o: "selectPlannerV2Lane (pv_order env) req (pv_now env) = selectPlannerV2Lane order req (pv_now env)"
    using assms(1,2) by (rule selectPlannerV2Lane_order)
  have l: "?lane = plannerV2LaneDirect \<or> ?lane = plannerV2LanePlanning \<and> \<not> isCrabEmittedCandidate (pq_Candidate req)"
    using selectPlannerV2Lane_cases [OF assms(2), of req "pv_now env"] by auto
  have x: "extractTaskIDFromWorkflowID (dx_TaskID (pq_Candidate req) @ ''-'' @ ?lane @ ''-'' @ show_int (pv_now env))
      = dx_TaskID (pq_Candidate req)"
    using assms(3-5) l by (intro extract_lane) auto
  show ?thesis
    using l x lane_names(1)
    by (cases "pv_start env") (auto simp: PlannerV2Workflow_def recordPlannerOutcome_def o Let_def split: prod.splits)
qed


definition sample_planner_req :: planner_v2_request where
  "sample_planner_req = \<lparr>pq_Candidate = sample_candidate, pq_Task = sample_request, pq_EscalationTiers = [], pq_ParentNodeKey = []\<rparr>"

definition sample_planner_env :: planner_env where
  "sample_planner_env = \<lparr>pv_now = 1700000000, pv_duration = 1, pv_order = [plannerV2LanePlanning, plannerV2LaneDirect],
     pv_start = Inl ''queue full'', pv_marshal = (\<lambda>_ _. None)\<rparr>"

theorem planner_lane_witness:
  "\<exists>child out. snd (PlannerV2Workflow sample_planner_req sample_planner_env) = [LaneChild child, RecordOutcome out] \<and>
     po_SelectedAction out = fst (selectPlannerV2Lane [plannerV2LaneDirect, plannerV2LanePlanning] sample_planner_req 1700000000) \<and>
     extractTaskIDFromWorkflowID (ch_WorkflowID child) = ''p-1'' \<and> po_Reward out = 0"
proof -
  have o: "lane_order (pv_order sample_planner_env)" "lane_order [plannerV2LaneDirect, plannerV2LanePlanning]"
    by (simp_all add: lane_order_def sample_planner_env_def)
  have t: "dx_TaskID (pq_Candidate sample_planner_req) = ''p-1''"
    by (simp add: sample_planner_req_def sample_candidate_def)
  have i: "trim_space ''p-1'' = ''p-1''" by code_simp
  from planner_lane [OF o, of sample_planner_req, unfolded t] i show ?thesis
    by (auto simp: sample_planner_env_def)
qed

text \<open>
  What a run reports is accepted and counted: recording its outcome adds one rollout for the parent
  node, the species and the lane, so that the next candidate sees one visit more.
\<close>

lemma planner_feedback:
  assumes "lane_order (pv_order env)" and "RecordOutcome out \<in> set (snd (PlannerV2Workflow req env))"
  shows "\<exists>db' c. RecordPlannerOutcomeActivity out now (Some db) = Inr (Some db') \<and> mcts_step db db' \<and>
    mc_rollouts db' = mc_rollouts db @ [c] \<and> ro_ActionKey c = po_SelectedAction out \<and> ro_Reward c = po_Reward out"
proof -
  have root: "trim_space plannerV2RootNodeKey \<noteq> []" by code_simp
  have l: "po_SelectedAction out \<in> {plannerV2LaneDirect, plannerV2LanePlanning}" and p: "trim_space (po_ParentNodeKey out) \<noteq> []"
    using assms(2) root selectPlannerV2Lane_cases [OF assms(1), of req "pv_now env"]
    by (auto simp: PlannerV2Workflow_def recordPlannerOutcome_def Let_def split: prod.splits sum.splits if_splits)
  have t: "trim_space plannerV2LaneDirect = plannerV2LaneDirect" "trim_space plannerV2LanePlanning = plannerV2LanePlanning"
    by code_simp+
  have a: "trim_space (po_SelectedAction out) = po_SelectedAction out" "po_SelectedAction out \<noteq> []"
    using l t lane_names by auto
  define r where "r = \<lparr>ro_TaskID = trim_space (po_TaskID out), ro_Project = trim_space (po_Project out),
      ro_Species = trim_space (po_Species out), ro_ParentNodeKey = trim_space (po_ParentNodeKey out), ro_ActionKey = po_SelectedAction out,
      ro_Outcome = trim_space (po_Outcome out), ro_Reward = po_Reward out, ro_CostUSD = 0,
      ro_DurationS = po_DurationS out, ro_MetadataJSON = trim_space (po_MetadataJSON out)\<rparr>"
  have k: "ro_ParentNodeKey (clean_rollout r) \<noteq> []" "ro_ActionKey (clean_rollout r) = po_SelectedAction out"
      "ro_Reward (clean_rollout r) = po_Reward out"
    using a p by (simp_all add: clean_rollout_def r_def)
  obtain i db' where m: "RecordMCTSRollout r now db = Inr (i, db')" and rs: "mc_rollouts db' = mc_rollouts db @ [clean_rollout r]"
    using k(1,2) a(2) by (simp add: RecordMCTSRollout_def Let_def)
  have "RecordPlannerOutcomeActivity out now (Some db) = Inr (Some db')"
    using m p a by (simp add: RecordPlannerOutcomeActivity_def r_def Let_def)
  then show ?thesis using mcts_step.rollout [OF m] rs k by blast
qed

end
