(* ===== verification/Genomes.thy ===== *)
theory Genomes
  imports Dispatcher Store_Tables
begin

text \<open>
  The evolutionary memory of \<open>internal/store/genomes.go\<close>, with the activities on it
  (\<open>internal/temporal/genome_activities.go\<close>) and \<open>CreateEmptyGenome\<close> of
  \<open>internal/store/paleontology.go\<close>.

  \<^item> A row of the table \<open>genomes\<close> is a record; its four JSON columns are the lists they encode.
  \<^item> \<open>reads t\<close> is what parsing the driver's text of the stored time \<open>t\<close> with the layout of \<open>GetGenome\<close>
    gives: the driver is not part of the sources, and a text in another layout is an error.
  \<^item> Costs are rationals. Times are seconds; a zero or null time is \<open>None\<close>.
\<close>

section \<open>Genomes\<close>

record genome_entry =
  ge_Pattern :: string
  ge_Reason :: string
  ge_Alternative :: string
  ge_Count :: int
  ge_Generation :: int
  ge_Files :: "string list"
  ge_Agent :: string

record provider_gene =
  pn_Provider :: string
  pn_Successes :: int
  pn_Failures :: int
  pn_TotalCost :: rat
  pn_Generation :: int

record genome =
  gn_Species :: string
  gn_ParentSpecies :: string
  gn_Patterns :: "genome_entry list"
  gn_Antibodies :: "genome_entry list"
  gn_Fossils :: "genome_entry list"
  gn_ProviderGenes :: "provider_gene list"
  gn_Generation :: int
  gn_Successes :: int
  gn_Failures :: int
  gn_TotalCostUSD :: rat
  gn_Hibernating :: bool
  gn_LastEvolved :: "int option"
  gn_CreatedAt :: "int option"

definition FossilThreshold :: int where "FossilThreshold = 3"

text \<open>Both \<open>Fitness\<close> methods compute the same function of successes, failures and cost.\<close>

definition fitness :: "int \<Rightarrow> int \<Rightarrow> rat \<Rightarrow> rat" where
  "fitness successes failures cost =
     (let total = successes + failures
      in if total = 0 then 0
         else let successRate = of_int successes / of_int total;
                  costPerAttempt = cost / of_int total
              in if costPerAttempt = 0 then successRate * 1000 else successRate / costPerAttempt)"

definition ProviderFitness :: "provider_gene \<Rightarrow> rat" where
  "ProviderFitness pg = fitness (pn_Successes pg) (pn_Failures pg) (pn_TotalCost pg)"

definition GenomeFitness :: "genome \<Rightarrow> rat" where
  "GenomeFitness g = fitness (gn_Successes g) (gn_Failures g) (gn_TotalCostUSD g)"

definition FittestProvider :: "genome \<Rightarrow> provider_gene option" where
  "FittestProvider g =
     fold (\<lambda>pg best. case best of
                       None \<Rightarrow> Some pg
                     | Some b \<Rightarrow> if ProviderFitness b < ProviderFitness pg then Some pg else Some b)
       (gn_ProviderGenes g) None"

definition empty_genome :: "string \<Rightarrow> genome" where
  "empty_genome species =
     \<lparr>gn_Species = species, gn_ParentSpecies = [], gn_Patterns = [], gn_Antibodies = [], gn_Fossils = [],
      gn_ProviderGenes = [], gn_Generation = 0, gn_Successes = 0, gn_Failures = 0, gn_TotalCostUSD = 0,
      gn_Hibernating = False, gn_LastEvolved = None, gn_CreatedAt = None\<rparr>"

datatype genome_error = ParseLastEvolved string

type_synonym genome_table = "genome list"

type_synonym clock_reader = "int \<Rightarrow> int option"

definition GetGenome :: "clock_reader \<Rightarrow> string \<Rightarrow> genome_table \<Rightarrow> (genome_error, genome) result" where
  "GetGenome reads species tbl =
     (case lookup_by gn_Species tbl species of
        None \<Rightarrow> Inr (empty_genome species)
      | Some g \<Rightarrow>
          (case gn_LastEvolved g of
             None \<Rightarrow> Inr g
           | Some t \<Rightarrow>
               (case reads t of
                  None \<Rightarrow> Inl (ParseLastEvolved species)
                | Some t' \<Rightarrow> Inr (g\<lparr>gn_LastEvolved := Some t'\<rparr>))))"

section \<open>Evolution\<close>

text \<open>The first element with a property, with what is before and after it.\<close>

fun split_first :: "('a \<Rightarrow> bool) \<Rightarrow> 'a list \<Rightarrow> ('a list \<times> 'a \<times> 'a list) option" where
  "split_first P [] = None"
| "split_first P (x # xs) =
     (if P x then Some ([], x, xs) else map_option (\<lambda>(ys, y, zs). (x # ys, y, zs)) (split_first P xs))"

definition evolve_provider :: "string \<Rightarrow> bool \<Rightarrow> rat \<Rightarrow> int \<Rightarrow> provider_gene list \<Rightarrow> provider_gene list" where
  "evolve_provider provider doDPassed costUSD generation genes =
     (if provider = [] then genes
      else case split_first (\<lambda>pg. pn_Provider pg = provider) genes of
             Some (xs, pg, ys) \<Rightarrow>
               (let pg1 = pg\<lparr>pn_TotalCost := pn_TotalCost pg + costUSD\<rparr>
                in xs @ (if doDPassed then pg1\<lparr>pn_Successes := pn_Successes pg1 + 1\<rparr>
                         else pg1\<lparr>pn_Failures := pn_Failures pg1 + 1\<rparr>) # ys)
           | None \<Rightarrow>
               genes @ [\<lparr>pn_Provider = provider, pn_Successes = (if doDPassed then 1 else 0),
                         pn_Failures = (if doDPassed then 0 else 1), pn_TotalCost = costUSD, pn_Generation = generation\<rparr>])"

definition evolve_success :: "genome_entry \<Rightarrow> genome \<Rightarrow> genome" where
  "evolve_success entry g =
     (let entry1 = entry\<lparr>ge_Count := 1\<rparr>;
          patterns = (case split_first (\<lambda>p. ge_Pattern p = ge_Pattern entry1) (gn_Patterns g) of
                        Some (xs, p, ys) \<Rightarrow> xs @ p\<lparr>ge_Count := ge_Count p + 1\<rparr> # ys
                      | None \<Rightarrow> gn_Patterns g @ [entry1])
      in g\<lparr>gn_Successes := gn_Successes g + 1, gn_Patterns := patterns\<rparr>)"

definition evolve_failure :: "genome_entry \<Rightarrow> genome \<Rightarrow> genome" where
  "evolve_failure entry g =
     (let g1 = g\<lparr>gn_Failures := gn_Failures g + 1\<rparr>
      in case split_first (\<lambda>a. ge_Pattern a = ge_Pattern entry) (gn_Antibodies g) of
           Some (xs, a, ys) \<Rightarrow>
             (let a1 = a\<lparr>ge_Count := ge_Count a + 1\<rparr>
              in if FossilThreshold \<le> ge_Count a1
                 then g1\<lparr>gn_Fossils := gn_Fossils g @ [a1], gn_Antibodies := xs @ ys\<rparr>
                 else g1\<lparr>gn_Antibodies := xs @ a1 # ys\<rparr>)
         | None \<Rightarrow> g1\<lparr>gn_Antibodies := gn_Antibodies g @ [entry\<lparr>ge_Count := 1\<rparr>]\<rparr>)"

definition evolved :: "bool \<Rightarrow> genome_entry \<Rightarrow> string \<Rightarrow> rat \<Rightarrow> genome \<Rightarrow> genome" where
  "evolved doDPassed entry provider costUSD g =
     (let g1 = g\<lparr>gn_Generation := gn_Generation g + 1, gn_TotalCostUSD := gn_TotalCostUSD g + costUSD\<rparr>;
          entry1 = entry\<lparr>ge_Generation := gn_Generation g1\<rparr>;
          g2 = g1\<lparr>gn_ProviderGenes :=
                    evolve_provider provider doDPassed costUSD (gn_Generation g1) (gn_ProviderGenes g1)\<rparr>
      in if doDPassed then evolve_success entry1 g2 else evolve_failure entry1 g2)"

text \<open>The columns that a conflicting insert overwrites.\<close>

definition write_row :: "genome \<Rightarrow> int \<Rightarrow> genome \<Rightarrow> genome" where
  "write_row g now r =
     r\<lparr>gn_Patterns := gn_Patterns g, gn_Antibodies := gn_Antibodies g, gn_Fossils := gn_Fossils g,
       gn_ProviderGenes := gn_ProviderGenes g, gn_Generation := gn_Generation g, gn_Successes := gn_Successes g,
       gn_Failures := gn_Failures g, gn_TotalCostUSD := gn_TotalCostUSD g, gn_Hibernating := gn_Hibernating g,
       gn_LastEvolved := Some now\<rparr>"

definition EvolveGenomeWithCost ::
  "clock_reader \<Rightarrow> string \<Rightarrow> bool \<Rightarrow> genome_entry \<Rightarrow> string \<Rightarrow> rat \<Rightarrow> int \<Rightarrow> genome_table
     \<Rightarrow> (genome_error, genome_table) result" where
  "EvolveGenomeWithCost reads species doDPassed entry provider costUSD now tbl =
     (case GetGenome reads species tbl of
        Inl e \<Rightarrow> Inl e
      | Inr g0 \<Rightarrow>
          (let g = evolved doDPassed entry provider costUSD g0
           in Inr (upsert_row gn_Species
                (g\<lparr>gn_Species := species, gn_LastEvolved := Some now, gn_CreatedAt := Some now\<rparr>)
                (write_row g now) tbl)))"

definition EvolveGenome ::
  "clock_reader \<Rightarrow> string \<Rightarrow> bool \<Rightarrow> genome_entry \<Rightarrow> int \<Rightarrow> genome_table \<Rightarrow> (genome_error, genome_table) result" where
  "EvolveGenome reads species doDPassed entry now tbl = EvolveGenomeWithCost reads species doDPassed entry [] 0 now tbl"

definition HibernateGenome :: "string \<Rightarrow> genome_table \<Rightarrow> genome_table" where
  "HibernateGenome species tbl = modify_row gn_Species species (\<lambda>r. r\<lparr>gn_Hibernating := True\<rparr>) tbl"

definition CreateEmptyGenome :: "string \<Rightarrow> int \<Rightarrow> genome_table \<Rightarrow> genome_table" where
  "CreateEmptyGenome species now tbl =
     upsert_row gn_Species ((empty_genome species)\<lparr>gn_LastEvolved := Some now, gn_CreatedAt := Some now\<rparr>) (\<lambda>r. r) tbl"

section \<open>Phages\<close>

text \<open>One sibling: \<open>True\<close> when an evolution failed, which ends the whole spread.\<close>

fun infect ::
  "clock_reader \<Rightarrow> string \<Rightarrow> int \<Rightarrow> string \<Rightarrow> genome \<Rightarrow> genome_entry list \<Rightarrow> genome_table \<Rightarrow> bool \<times> genome_table" where
  "infect reads source now sib sibGenome [] tbl = (False, tbl)"
| "infect reads source now sib sibGenome (pattern # ps) tbl =
     (if ge_Count pattern < 3 \<or> list_ex (\<lambda>sp. ge_Pattern sp = ge_Pattern pattern) (gn_Patterns sibGenome)
      then infect reads source now sib sibGenome ps tbl
      else case EvolveGenome reads sib True
                  (pattern\<lparr>ge_Count := 1,
                           ge_Reason := ''phage from '' @ source @ '' (gen '' @ show_int (ge_Generation pattern) @ '')''\<rparr>) now tbl of
             Inl _ \<Rightarrow> (True, tbl)
           | Inr tbl' \<Rightarrow> infect reads source now sib sibGenome ps tbl')"

fun infect_siblings ::
  "clock_reader \<Rightarrow> string \<Rightarrow> int \<Rightarrow> genome_entry list \<Rightarrow> string list \<Rightarrow> genome_table \<Rightarrow> genome_table" where
  "infect_siblings reads source now ps [] tbl = tbl"
| "infect_siblings reads source now ps (sib # sibs) tbl =
     (case GetGenome reads sib tbl of
        Inl _ \<Rightarrow> infect_siblings reads source now ps sibs tbl
      | Inr g \<Rightarrow>
          (case infect reads source now sib g ps tbl of
             (True, tbl') \<Rightarrow> tbl'
           | (False, tbl') \<Rightarrow> infect_siblings reads source now ps sibs tbl'))"

definition SpreadPhages :: "clock_reader \<Rightarrow> string \<Rightarrow> int \<Rightarrow> genome_table \<Rightarrow> (genome_error, genome_table) result" where
  "SpreadPhages reads source now tbl =
     (case GetGenome reads source tbl of
        Inl e \<Rightarrow> Inl e
      | Inr g \<Rightarrow>
          if gn_ParentSpecies g = [] \<or> gn_Patterns g = [] then Inr tbl
          else Inr (infect_siblings reads source now (gn_Patterns g)
                 (map gn_Species (filter (\<lambda>r. gn_ParentSpecies r = gn_ParentSpecies g \<and> gn_Species r \<noteq> source) tbl)) tbl))"

text \<open>The activities never fail: without a store, or when the store fails, nothing happens.\<close>

definition EvolveGenomeActivity ::
  "clock_reader \<Rightarrow> string \<Rightarrow> bool \<Rightarrow> genome_entry \<Rightarrow> int \<Rightarrow> genome_table option \<Rightarrow> genome_table option" where
  "EvolveGenomeActivity reads species doDPassed entry now store =
     (case store of
        None \<Rightarrow> None
      | Some tbl \<Rightarrow>
          (case EvolveGenome reads species doDPassed entry now tbl of
             Inl _ \<Rightarrow> Some tbl
           | Inr tbl1 \<Rightarrow>
               if doDPassed
               then (case SpreadPhages reads species now tbl1 of Inl _ \<Rightarrow> Some tbl1 | Inr tbl2 \<Rightarrow> Some tbl2)
               else Some tbl1))"

definition HibernateGenomeActivity :: "string \<Rightarrow> genome_table option \<Rightarrow> genome_table option" where
  "HibernateGenomeActivity species store = map_option (HibernateGenome species) store"

section \<open>The prompt\<close>

text \<open>\<open>%.<k>f\<close> of an exact value: \<open>k\<close> digits, nearest, ties to even.\<close>

definition round_even :: "rat \<Rightarrow> int" where
  "round_even r = (let n = \<lfloor>r\<rfloor>; d = r - of_int n in if d < 1 / 2 \<or> d = 1 / 2 \<and> even n then n else n + 1)"

definition fmt_fixed :: "nat \<Rightarrow> rat \<Rightarrow> string" where
  "fmt_fixed k r =
     (let n = nat (round_even (\<bar>r\<bar> * 10 ^ k)); frac = show_nat (n mod 10 ^ k)
      in (if r < 0 then ''-'' else []) @ show_nat (n div 10 ^ k) @
         (if k = 0 then [] else ''.'' @ replicate (k - length frac) (CHR ''0'') @ frac))"

definition em_dash :: string where "em_dash = [CHR 0xE2, CHR 0x80, CHR 0x94]"

definition pattern_lines :: "genome \<Rightarrow> string" where
  "pattern_lines g =
     (if gn_Patterns g = [] then []
      else nl @ ''PATTERNS (replicate these):'' @ nl @
           concat (map (\<lambda>p. ''- '' @ ge_Pattern p @ '' ['' @ show_int (ge_Count p) @ ''x success]'' @ nl) (gn_Patterns g)))"

definition antibody_lines :: "genome \<Rightarrow> string" where
  "antibody_lines g =
     (if gn_Antibodies g = [] then []
      else nl @ ''ANTIBODIES (guard against these):'' @ nl @
           concat (map (\<lambda>a. ''- '' @ ge_Pattern a @ '' ['' @ show_int (ge_Count a) @ ''x failure'' @
                            (if ge_Reason a = [] then [] else '' '' @ em_dash @ '' '' @ ge_Reason a) @ '']'' @ nl)
                     (gn_Antibodies g)))"

definition fossil_lines :: "genome \<Rightarrow> string" where
  "fossil_lines g =
     (if gn_Fossils g = [] then []
      else nl @ ''FOSSILS (DO NOT attempt '' @ em_dash @ '' extinct approaches):'' @ nl @
           concat (map (\<lambda>f. ''X EXTINCT: '' @ ge_Pattern f @ '' '' @ em_dash @ '' '' @ show_int (ge_Count f) @ ''x failures'' @ nl)
                     (gn_Fossils g)))"

definition genome_text :: "genome \<Rightarrow> string" where
  "genome_text g =
     (let total = gn_Successes g + gn_Failures g;
          survivalRate = (if 0 < total then of_int (gn_Successes g) / of_int total * 100 else 0)
      in ''SPECIES GENOME: '' @ gn_Species g @ '' (gen '' @ show_int (gn_Generation g) @ '', '' @
         fmt_fixed 0 survivalRate @ ''% survival, fitness '' @ fmt_fixed 1 (GenomeFitness g) @ '', $'' @
         fmt_fixed 4 (gn_TotalCostUSD g / of_int total) @ ''/organism)'' @ nl @
         (case FittestProvider g of
            None \<Rightarrow> []
          | Some best \<Rightarrow>
              (let attempts = pn_Successes best + pn_Failures best
               in ''FITTEST PROVIDER: '' @ pn_Provider best @ '' (fitness '' @ fmt_fixed 1 (ProviderFitness best) @ '', '' @
                  show_int (pn_Successes best) @ ''/'' @ show_int attempts @ '' success, $'' @
                  fmt_fixed 4 (pn_TotalCost best / of_int attempts) @ ''/attempt)'' @ nl)) @
         pattern_lines g @ antibody_lines g @ fossil_lines g)"

definition GetGenomeForPrompt :: "clock_reader \<Rightarrow> string \<Rightarrow> genome_table \<Rightarrow> (genome_error, string) result" where
  "GetGenomeForPrompt reads species tbl =
     (case GetGenome reads species tbl of
        Inl e \<Rightarrow> Inl e
      | Inr g \<Rightarrow>
          (case (if gn_Generation g = 0 \<and> gn_ParentSpecies g \<noteq> []
                 then GetGenome reads (gn_ParentSpecies g) tbl else Inr g) of
             Inl e \<Rightarrow> Inl e
           | Inr h \<Rightarrow> if gn_Generation h = 0 then Inr [] else Inr (genome_text h)))"

definition GetGenomeForPromptActivity :: "clock_reader \<Rightarrow> string \<Rightarrow> genome_table option \<Rightarrow> (genome_error, string) result" where
  "GetGenomeForPromptActivity reads species store =
     (case store of None \<Rightarrow> Inr [] | Some tbl \<Rightarrow> GetGenomeForPrompt reads species tbl)"


section \<open>The ledger\<close>

definition count_sum :: "genome_entry list \<Rightarrow> int" where
  "count_sum es = sum_list (map ge_Count es)"

definition attempts_sum :: "provider_gene list \<Rightarrow> int" where
  "attempts_sum pgs = sum_list (map (\<lambda>pg. pn_Successes pg + pn_Failures pg) pgs)"

definition providers_ok :: "provider_gene list \<Rightarrow> int \<Rightarrow> bool" where
  "providers_ok pgs n \<longleftrightarrow> distinct (map pn_Provider pgs) \<and> attempts_sum pgs \<le> n \<and>
     (\<forall>pg \<in> set pgs. 0 \<le> pn_Successes pg \<and> 0 \<le> pn_Failures pg \<and> 0 < pn_Successes pg + pn_Failures pg)"

definition patterns_ok :: "genome_entry list \<Rightarrow> int \<Rightarrow> bool" where
  "patterns_ok ps n \<longleftrightarrow> distinct (map ge_Pattern ps) \<and> count_sum ps = n \<and> (\<forall>p \<in> set ps. 0 < ge_Count p)"

definition failures_ok :: "genome_entry list \<Rightarrow> genome_entry list \<Rightarrow> int \<Rightarrow> bool" where
  "failures_ok as fs n \<longleftrightarrow> distinct (map ge_Pattern as) \<and> count_sum as + count_sum fs = n \<and>
     (\<forall>a \<in> set as. 0 < ge_Count a \<and> ge_Count a < FossilThreshold) \<and> (\<forall>f \<in> set fs. ge_Count f = FossilThreshold)"

text \<open>
  Every attempt is accounted for: the generation is the number of attempts, each success is counted by
  one pattern, each failure by one antibody or fossil, and a provider gene counts some of the attempts.
\<close>

definition genome_ok :: "genome \<Rightarrow> bool" where
  "genome_ok g \<longleftrightarrow> gn_Generation g = gn_Successes g + gn_Failures g \<and> patterns_ok (gn_Patterns g) (gn_Successes g) \<and>
     failures_ok (gn_Antibodies g) (gn_Fossils g) (gn_Failures g) \<and>
     providers_ok (gn_ProviderGenes g) (gn_Successes g + gn_Failures g) \<and> gn_ParentSpecies g = []"

definition genomes_inv :: "genome_table \<Rightarrow> bool" where
  "genomes_inv tbl \<longleftrightarrow> unique_keys gn_Species tbl \<and> list_all genome_ok tbl"

inductive genome_step :: "clock_reader \<Rightarrow> genome_table \<Rightarrow> genome_table \<Rightarrow> bool" for reads where
  evolve: "EvolveGenomeWithCost reads s p e pr c now tbl = Inr tbl' \<Longrightarrow> genome_step reads tbl tbl'"
| activity: "EvolveGenomeActivity reads s p e now (Some tbl) = Some tbl' \<Longrightarrow> genome_step reads tbl tbl'"
| hibernate: "genome_step reads tbl (HibernateGenome s tbl)"
| bootstrap: "genome_step reads tbl (CreateEmptyGenome s now tbl)"

lemma split_first_Some:
  "split_first P xs = Some (ys, y, zs) \<Longrightarrow> xs = ys @ y # zs \<and> P y \<and> (\<forall>x \<in> set ys. \<not> P x)"
  by (induction xs arbitrary: ys) (auto split: if_splits)

lemma split_first_None: "split_first P xs = None \<longleftrightarrow> (\<forall>x \<in> set xs. \<not> P x)"
  by (induction xs) auto

lemma sums_simps [simp]:
  "count_sum [] = 0" "count_sum (e # es) = ge_Count e + count_sum es" "count_sum (es @ fs) = count_sum es + count_sum fs"
  "attempts_sum [] = 0" "attempts_sum (pg # pgs) = pn_Successes pg + pn_Failures pg + attempts_sum pgs"
  "attempts_sum (pgs @ qs) = attempts_sum pgs + attempts_sum qs"
  by (simp_all add: count_sum_def attempts_sum_def)

lemma providers_evolve:
  assumes "providers_ok pgs n"
  shows "providers_ok (evolve_provider provider passed cost gen pgs) (n + 1)"
proof (cases "provider = []")
  case True
  then show ?thesis using assms by (simp add: evolve_provider_def providers_ok_def)
next
  case False
  show ?thesis
  proof (cases "split_first (\<lambda>pg. pn_Provider pg = provider) pgs")
    case None
    then show ?thesis
      using assms False None [unfolded split_first_None] by (auto simp: evolve_provider_def providers_ok_def)
  next
    case (Some t)
    then obtain xs pg ys where t: "t = (xs, pg, ys)" "pgs = xs @ pg # ys"
      by (cases t) (auto dest: split_first_Some)
    then show ?thesis
      using assms False Some by (auto simp: evolve_provider_def providers_ok_def Let_def)
  qed
qed

lemma patterns_evolve:
  assumes "patterns_ok (gn_Patterns g) (gn_Successes g)"
  shows "patterns_ok (gn_Patterns (evolve_success entry g)) (gn_Successes (evolve_success entry g))"
proof (cases "split_first (\<lambda>p. ge_Pattern p = ge_Pattern entry) (gn_Patterns g)")
  case None
  then show ?thesis
    using assms None [unfolded split_first_None] by (auto simp: evolve_success_def patterns_ok_def Let_def)
next
  case (Some t)
  then obtain xs p ys where t: "t = (xs, p, ys)" "gn_Patterns g = xs @ p # ys"
    by (cases t) (auto dest: split_first_Some)
  then show ?thesis
    using assms Some by (auto simp: evolve_success_def patterns_ok_def Let_def)
qed

lemma failures_evolve:
  assumes "failures_ok (gn_Antibodies g) (gn_Fossils g) (gn_Failures g)"
  shows "failures_ok (gn_Antibodies (evolve_failure entry g)) (gn_Fossils (evolve_failure entry g))
    (gn_Failures (evolve_failure entry g))"
proof (cases "split_first (\<lambda>a. ge_Pattern a = ge_Pattern entry) (gn_Antibodies g)")
  case None
  then show ?thesis
    using assms None [unfolded split_first_None] by (auto simp: evolve_failure_def failures_ok_def FossilThreshold_def Let_def)
next
  case (Some t)
  then obtain xs a ys where t: "t = (xs, a, ys)" "gn_Antibodies g = xs @ a # ys"
    by (cases t) (auto dest: split_first_Some)
  then show ?thesis
    using assms Some by (auto simp: evolve_failure_def failures_ok_def FossilThreshold_def Let_def)
qed

lemma evolve_frame [simp]:
  "gn_Generation (evolve_success e g) = gn_Generation g" "gn_Failures (evolve_success e g) = gn_Failures g"
  "gn_Antibodies (evolve_success e g) = gn_Antibodies g" "gn_Fossils (evolve_success e g) = gn_Fossils g"
  "gn_ProviderGenes (evolve_success e g) = gn_ProviderGenes g" "gn_ParentSpecies (evolve_success e g) = gn_ParentSpecies g"
  "gn_Successes (evolve_success e g) = gn_Successes g + 1" "gn_Hibernating (evolve_success e g) = gn_Hibernating g"
  "gn_Generation (evolve_failure e g) = gn_Generation g" "gn_Successes (evolve_failure e g) = gn_Successes g"
  "gn_Patterns (evolve_failure e g) = gn_Patterns g" "gn_ProviderGenes (evolve_failure e g) = gn_ProviderGenes g"
  "gn_ParentSpecies (evolve_failure e g) = gn_ParentSpecies g" "gn_Failures (evolve_failure e g) = gn_Failures g + 1"
  "gn_Hibernating (evolve_failure e g) = gn_Hibernating g"
  by (auto simp: evolve_success_def evolve_failure_def Let_def split: option.split)

lemma evolved_ok:
  assumes "genome_ok g"
  shows "genome_ok (evolved passed entry provider cost g)"
proof -
  let ?g2 = "g\<lparr>gn_Generation := gn_Generation g + 1, gn_TotalCostUSD := gn_TotalCostUSD g + cost,
    gn_ProviderGenes := evolve_provider provider passed cost (gn_Generation g + 1) (gn_ProviderGenes g)\<rparr>"
  let ?e = "entry\<lparr>ge_Generation := gn_Generation g + 1\<rparr>"
  have "providers_ok (gn_ProviderGenes g) (gn_Successes g + gn_Failures g)" using assms by (simp add: genome_ok_def)
  then have p: "providers_ok (gn_ProviderGenes ?g2) (gn_Successes g + gn_Failures g + 1)" by (simp add: providers_evolve)
  have s: "patterns_ok (gn_Patterns ?g2) (gn_Successes ?g2)" and f: "failures_ok (gn_Antibodies ?g2) (gn_Fossils ?g2) (gn_Failures ?g2)"
    using assms by (simp_all add: genome_ok_def)
  show ?thesis
    using assms p s f patterns_evolve [OF s, of ?e] failures_evolve [OF f, of ?e]
    by (auto simp: evolved_def genome_ok_def Let_def ac_simps)
qed

lemma empty_genome_ok: "genome_ok (empty_genome s)"
  by (simp add: genome_ok_def empty_genome_def patterns_ok_def failures_ok_def providers_ok_def)

text \<open>The time stamps, the name and the hibernation play no part in it.\<close>

lemma genome_ok_frame [simp]:
  "genome_ok (g\<lparr>gn_LastEvolved := t\<rparr>) = genome_ok g" "genome_ok (g\<lparr>gn_CreatedAt := t\<rparr>) = genome_ok g"
  "genome_ok (g\<lparr>gn_Hibernating := b\<rparr>) = genome_ok g" "genome_ok (g\<lparr>gn_Species := s\<rparr>) = genome_ok g"
  by (simp_all add: genome_ok_def)

lemma genomes_lookup: "genomes_inv tbl \<Longrightarrow> lookup_by gn_Species tbl s = Some g \<Longrightarrow> genome_ok g \<and> gn_Species g = s"
  by (auto simp: genomes_inv_def lookup_by_set list_all_iff)

lemma GetGenome_ok: "genomes_inv tbl \<Longrightarrow> GetGenome reads s tbl = Inr g \<Longrightarrow> genome_ok g"
  by (auto simp: GetGenome_def empty_genome_ok dest: genomes_lookup split: option.splits)

lemma genomes_upsert:
  assumes "genomes_inv tbl" and "genome_ok new" and "\<And>r. gn_Species (f r) = gn_Species r"
    and "\<And>r. genome_ok r \<Longrightarrow> genome_ok (f r)"
  shows "genomes_inv (upsert_row gn_Species new f tbl)"
  using assms tbl.ok_upsert [where key = gn_Species and f = f and new = new and t = tbl]
  by (auto simp: genomes_inv_def upsert_row_def list_all_iff set_update_where)

lemma genomes_evolve:
  assumes "genomes_inv tbl" and "EvolveGenomeWithCost reads s p e pr c now tbl = Inr tbl'"
  shows "genomes_inv tbl'"
proof -
  from assms(2) obtain g0 where g0: "GetGenome reads s tbl = Inr g0"
    by (auto simp: EvolveGenomeWithCost_def split: sum.splits)
  let ?g = "evolved p e pr c g0"
  let ?new = "?g\<lparr>gn_Species := s, gn_LastEvolved := Some now, gn_CreatedAt := Some now\<rparr>"
  have ok: "genome_ok ?g" using GetGenome_ok [OF assms(1) g0] by (rule evolved_ok)
  have "tbl' = upsert_row gn_Species ?new (write_row ?g now) tbl"
    using assms(2) g0 by (simp add: EvolveGenomeWithCost_def Let_def)
  moreover have "genomes_inv (upsert_row gn_Species ?new (write_row ?g now) tbl)"
    using assms(1) by (rule genomes_upsert) (use ok in \<open>simp_all add: write_row_def genome_ok_def\<close>)
  ultimately show ?thesis by simp
qed

lemma no_spread:
  assumes "genomes_inv tbl"
  shows "SpreadPhages reads s now tbl = Inr tbl \<or> SpreadPhages reads s now tbl = Inl (ParseLastEvolved s)"
proof (cases "GetGenome reads s tbl")
  case (Inl e)
  then show ?thesis by (auto simp: SpreadPhages_def GetGenome_def split: option.splits)
next
  case (Inr g)
  with GetGenome_ok [OF assms Inr] show ?thesis by (simp add: SpreadPhages_def genome_ok_def)
qed

lemma activity_cases:
  assumes "genomes_inv tbl" and "EvolveGenomeActivity reads s p e now (Some tbl) = Some tbl'"
  shows "tbl' = tbl \<or> EvolveGenomeWithCost reads s p e [] 0 now tbl = Inr tbl'"
proof (cases "EvolveGenome reads s p e now tbl")
  case (Inl err)
  then show ?thesis using assms(2) by (simp add: EvolveGenomeActivity_def)
next
  case (Inr tbl1)
  then have "genomes_inv tbl1" using genomes_evolve [OF assms(1)] by (simp add: EvolveGenome_def)
  then have "tbl' = tbl1"
    using assms(2) Inr no_spread [of tbl1 reads s now] by (auto simp: EvolveGenomeActivity_def split: if_splits)
  then show ?thesis using Inr by (simp add: EvolveGenome_def)
qed

lemma genomes_inv_step:
  assumes "genomes_inv tbl" and "genome_step reads tbl tbl'"
  shows "genomes_inv tbl'"
  using assms(2)
proof cases
  case (evolve s p e pr c now)
  then show ?thesis using genomes_evolve [OF assms(1)] by blast
next
  case (activity s p e now)
  then show ?thesis using activity_cases [OF assms(1)] genomes_evolve [OF assms(1)] assms(1) by blast
next
  case (hibernate s)
  then show ?thesis
    using assms(1) tbl.ok_modify [where key = gn_Species and t = tbl and k = s and f = "\<lambda>r. r\<lparr>gn_Hibernating := True\<rparr>"]
    by (auto simp: genomes_inv_def HibernateGenome_def list_all_iff modify_row_def set_update_where)
next
  case (bootstrap s now)
  have "genomes_inv (CreateEmptyGenome s now tbl)"
    unfolding CreateEmptyGenome_def using assms(1) by (rule genomes_upsert) (simp_all add: empty_genome_ok)
  then show ?thesis using bootstrap by simp
qed

interpretation genome_run: machine "[]" "genome_step reads" genomes_inv for reads
proof
  show "genomes_inv []" by (simp add: genomes_inv_def unique_keys_def)
qed (rule genomes_inv_step)

section \<open>Hibernation\<close>

definition asleep :: "string \<Rightarrow> genome_table \<Rightarrow> bool" where
  "asleep s tbl \<longleftrightarrow> (\<exists>g. lookup_by gn_Species tbl s = Some g \<and> gn_Hibernating g)"

lemma evolved_asleep: "gn_Hibernating (evolved p e pr c g) = gn_Hibernating g"
  by (simp add: evolved_def Let_def)

lemma asleep_evolve:
  assumes "genomes_inv tbl" and "EvolveGenomeWithCost reads s' p e pr c now tbl = Inr tbl'" and "asleep s tbl"
  shows "asleep s tbl'"
proof -
  have u: "unique_keys gn_Species tbl" using assms(1) by (simp add: genomes_inv_def)
  from assms(2) obtain g0 where g0: "GetGenome reads s' tbl = Inr g0"
    by (auto simp: EvolveGenomeWithCost_def split: sum.splits)
  let ?g = "evolved p e pr c g0"
  let ?new = "?g\<lparr>gn_Species := s', gn_LastEvolved := Some now, gn_CreatedAt := Some now\<rparr>"
  have t: "tbl' = upsert_row gn_Species ?new (write_row ?g now) tbl"
    using assms(2) g0 by (simp add: EvolveGenomeWithCost_def Let_def)
  have l: "lookup_by gn_Species tbl' = (lookup_by gn_Species tbl)(s' \<mapsto>
      (case lookup_by gn_Species tbl s' of None \<Rightarrow> ?new | Some r \<Rightarrow> write_row ?g now r))"
    unfolding t using tbl.lookup_upsert [where key = gn_Species and f = "write_row ?g now" and new = ?new, OF u]
    by (simp add: write_row_def)
  show ?thesis
  proof (cases "s = s'")
    case True
    then obtain r where r: "lookup_by gn_Species tbl s' = Some r" "gn_Hibernating r" using assms(3) by (auto simp: asleep_def)
    then have "gn_Hibernating g0" using g0 by (auto simp: GetGenome_def split: option.splits)
    then show ?thesis using l r True by (simp add: asleep_def write_row_def evolved_asleep)
  next
    case False
    then show ?thesis using l assms(3) by (simp add: asleep_def)
  qed
qed

lemma asleep_step:
  assumes "genomes_inv tbl" and "genome_step reads tbl tbl'" and "asleep s tbl"
  shows "asleep s tbl'"
proof -
  have u: "unique_keys gn_Species tbl" using assms(1) by (simp add: genomes_inv_def)
  from assms(2) show ?thesis
  proof cases
    case (evolve s' p e pr c now)
    then show ?thesis using asleep_evolve assms(1,3) by blast
  next
    case (activity s' p e now)
    then show ?thesis using activity_cases [OF assms(1)] asleep_evolve assms(1,3) by blast
  next
    case (hibernate s')
    then show ?thesis
      using assms(3) tbl.lookup_modify [where key = gn_Species and k = s' and f = "\<lambda>r. r\<lparr>gn_Hibernating := True\<rparr>", OF u]
      by (auto simp: asleep_def HibernateGenome_def)
  next
    case (bootstrap s' now)
    then show ?thesis
      using assms(3) tbl.lookup_upsert [where key = gn_Species and f = "\<lambda>r. r"
          and new = "(empty_genome s')\<lparr>gn_LastEvolved := Some now, gn_CreatedAt := Some now\<rparr>", OF u]
      by (auto simp: asleep_def CreateEmptyGenome_def empty_genome_def)
  qed
qed

lemma asleep_steps:
  "(genome_step reads)\<^sup>*\<^sup>* tbl tbl' \<Longrightarrow> genomes_inv tbl \<Longrightarrow> asleep s tbl \<Longrightarrow> genomes_inv tbl' \<and> asleep s tbl'"
  by (induction rule: rtranclp_induct) (auto intro: asleep_step genomes_inv_step)


section \<open>Properties\<close>


definition sample_entry :: genome_entry where
  "sample_entry = \<lparr>ge_Pattern = ''p'', ge_Reason = [], ge_Alternative = [], ge_Count = 7, ge_Generation = 0, ge_Files = [], ge_Agent = []\<rparr>"


text \<open>A pattern that fails three times becomes a fossil; failing again starts a second one.\<close>

lemma fossil_again:
  "let ev = evolved False sample_entry [] 0
   in map ge_Count (gn_Fossils ((ev ^^ 3) (empty_genome ''s''))) = [3] \<and>
      map ge_Count (gn_Antibodies ((ev ^^ 4) (empty_genome ''s''))) = [1] \<and>
      map ge_Count (gn_Fossils ((ev ^^ 6) (empty_genome ''s''))) = [3, 3]"
  by (simp add: evolved_def evolve_failure_def evolve_provider_def sample_entry_def empty_genome_def FossilThreshold_def
      Let_def numeral_eq_Suc)


definition sample_asleep :: genome_table where
  "sample_asleep = HibernateGenome ''general'' (CreateEmptyGenome ''general'' 0 [])"

definition genome_env :: "genome_table \<Rightarrow> scan_env" where
  "genome_env tbl = sample_env\<lparr>se_genome := (\<lambda>sp. case GetGenome Some sp tbl of Inl _ \<Rightarrow> None
     | Inr g \<Rightarrow> Some (gn_Hibernating g, gn_Generation g))\<rparr>"


end
