(* ===== verification/Dispatch_Store.thy ===== *)
theory Dispatch_Store
  imports Complex_Main Store_Tables
begin

text \<open>
  The records of dispatches, \<open>internal/store/dispatches.go\<close>: the life of a dispatch, the overflow queue, and
  the tables of check results, token usage and step metrics that are filled with it
  (\<open>internal/store/metrics.go\<close>).

  \<^item> Rows are records; identifiers come from a counter that never goes back, as SQLite's \<open>AUTOINCREMENT\<close>.
    Foreign keys are not enforced, as the store never switches them on.
  \<^item> Times are seconds; a null time is \<open>None\<close>. Rows with equal times keep the order of insertion in sorted
    queries, where SQL leaves it open. Costs and durations are rationals.
  \<^item> Failures of single statements are left out, except in \<open>RecordSchedulerDispatch\<close>, whose transaction is the
    point: there every statement and every failpoint can fail.
\<close>

section \<open>Labels\<close>

fun dedup_labels :: "string list \<Rightarrow> string list \<Rightarrow> string list" where
  "dedup_labels seen [] = []"
| "dedup_labels seen (raw # rest) =
     (let label = trim_space raw
      in if label = [] \<or> label \<in> set seen then dedup_labels seen rest
         else label # dedup_labels (label # seen) rest)"

definition normalizeDispatchLabels :: "string list \<Rightarrow> string list" where
  "normalizeDispatchLabels labels = dedup_labels [] labels"

definition encodeDispatchLabels :: "string list \<Rightarrow> string" where
  "encodeDispatchLabels labels = join_with '','' (normalizeDispatchLabels labels)"

definition decodeDispatchLabels :: "string \<Rightarrow> string list" where
  "decodeDispatchLabels labelsCSV = normalizeDispatchLabels (split_on (CHR '','') labelsCSV)"

section \<open>Tables\<close>

record dispatch =
  di_ID :: int
  di_MorselID :: string
  di_Project :: string
  di_AgentID :: string
  di_Provider :: string
  di_Tier :: string
  di_PID :: int
  di_SessionName :: string
  di_Prompt :: string
  di_DispatchedAt :: int
  di_CompletedAt :: "int option"
  di_NextRetryAt :: "int option"
  di_Status :: string
  di_Stage :: string
  di_Labels :: string
  di_PRURL :: string
  di_PRNumber :: int
  di_ExitCode :: int
  di_DurationS :: rat
  di_Retries :: int
  di_EscalatedFromTier :: string
  di_FailureCategory :: string
  di_FailureSummary :: string
  di_LogPath :: string
  di_Branch :: string
  di_Backend :: string
  di_InputTokens :: int
  di_OutputTokens :: int
  di_CostUSD :: rat

record overflow_item =
  ov_ID :: int
  ov_MorselID :: string
  ov_Project :: string
  ov_Role :: string
  ov_AgentID :: string
  ov_Priority :: int
  ov_EnqueuedAt :: int
  ov_Attempts :: int
  ov_Reason :: string

record dod_row =
  do_DispatchID :: int
  do_MorselID :: string
  do_Project :: string
  do_Passed :: bool
  do_Failures :: string
  do_CheckResults :: string

record usage_row =
  us_DispatchID :: int
  us_MorselID :: string
  us_Project :: string
  us_ActivityName :: string
  us_Agent :: string
  us_InputTokens :: int
  us_OutputTokens :: int
  us_CacheReadTokens :: int
  us_CacheCreationTokens :: int
  us_CostUSD :: rat

record step_row =
  sm_DispatchID :: int
  sm_MorselID :: string
  sm_Project :: string
  sm_StepName :: string
  sm_DurationS :: rat
  sm_Status :: string
  sm_Slow :: bool

record dispatch_db =
  ds_rows :: "dispatch list"
  ds_next :: int
  ds_overflow :: "overflow_item list"
  ds_overflow_next :: int
  ds_dod :: "dod_row list"
  ds_tokens :: "usage_row list"
  ds_steps :: "step_row list"

definition empty_dispatches :: dispatch_db where
  "empty_dispatches =
     \<lparr>ds_rows = [], ds_next = 1, ds_overflow = [], ds_overflow_next = 1, ds_dod = [], ds_tokens = [], ds_steps = []\<rparr>"

section \<open>The life of a dispatch\<close>

text \<open>What the caller gives for a new dispatch.\<close>

record dispatch_args =
  da_morselID :: string
  da_project :: string
  da_agent :: string
  da_provider :: string
  da_tier :: string
  da_handle :: int
  da_sessionName :: string
  da_prompt :: string
  da_logPath :: string
  da_branch :: string
  da_backend :: string

definition new_dispatch :: "int \<Rightarrow> dispatch_args \<Rightarrow> int \<Rightarrow> dispatch" where
  "new_dispatch i a now =
     \<lparr>di_ID = i, di_MorselID = da_morselID a, di_Project = da_project a, di_AgentID = da_agent a, di_Provider = da_provider a,
      di_Tier = da_tier a, di_PID = da_handle a, di_SessionName = da_sessionName a, di_Prompt = da_prompt a,
      di_DispatchedAt = now, di_CompletedAt = None, di_NextRetryAt = None, di_Status = ''running'', di_Stage = ''dispatched'',
      di_Labels = [], di_PRURL = [], di_PRNumber = 0, di_ExitCode = 0, di_DurationS = 0, di_Retries = 0,
      di_EscalatedFromTier = [], di_FailureCategory = [], di_FailureSummary = [], di_LogPath = da_logPath a,
      di_Branch = da_branch a, di_Backend = da_backend a, di_InputTokens = 0, di_OutputTokens = 0, di_CostUSD = 0\<rparr>"

definition RecordDispatch :: "dispatch_args \<Rightarrow> int \<Rightarrow> dispatch_db \<Rightarrow> int \<times> dispatch_db" where
  "RecordDispatch a now db =
     (ds_next db, db\<lparr>ds_rows := ds_rows db @ [new_dispatch (ds_next db) a now], ds_next := ds_next db + 1\<rparr>)"

definition on_dispatch :: "int \<Rightarrow> (dispatch \<Rightarrow> dispatch) \<Rightarrow> dispatch_db \<Rightarrow> dispatch_db" where
  "on_dispatch i f db = db\<lparr>ds_rows := modify_row di_ID i f (ds_rows db)\<rparr>"

datatype persist_error = Failpoint string string | StatementFailed string

definition maybeFailDispatchPersist :: "(string \<Rightarrow> string option) option \<Rightarrow> string \<Rightarrow> persist_error option" where
  "maybeFailDispatchPersist hook point =
     (case hook of None \<Rightarrow> None | Some h \<Rightarrow> (case h point of None \<Rightarrow> None | Some e \<Rightarrow> Some (Failpoint point e)))"

text \<open>
  The transaction: steps on the database of the transaction; the deferred rollback gives the old database
  back unless the commit has succeeded.
\<close>

definition tx_step ::
  "(string \<Rightarrow> bool) \<Rightarrow> string \<Rightarrow> (dispatch_db \<Rightarrow> dispatch_db) \<Rightarrow> (persist_error, dispatch_db) result \<Rightarrow> (persist_error, dispatch_db) result" where
  "tx_step broken name f tx =
     (case tx of Inl e \<Rightarrow> Inl e | Inr db \<Rightarrow> if broken name then Inl (StatementFailed name) else Inr (f db))"

definition tx_failpoint ::
  "(string \<Rightarrow> string option) option \<Rightarrow> string \<Rightarrow> (persist_error, dispatch_db) result \<Rightarrow> (persist_error, dispatch_db) result" where
  "tx_failpoint hook point tx =
     (case tx of Inl e \<Rightarrow> Inl e
      | Inr db \<Rightarrow> (case maybeFailDispatchPersist hook point of Some e \<Rightarrow> Inl e | None \<Rightarrow> Inr db))"

definition RecordSchedulerDispatch ::
  "(string \<Rightarrow> bool) \<Rightarrow> (string \<Rightarrow> string option) option \<Rightarrow> dispatch_args \<Rightarrow> string list \<Rightarrow> int \<Rightarrow> dispatch_db
     \<Rightarrow> (persist_error, int) result \<times> dispatch_db" where
  "RecordSchedulerDispatch broken hook a labels now db =
     (let i = ds_next db;
          tx0 = tx_step broken ''begin'' id (Inr db);
          tx1 = tx_step broken ''insert'' (snd \<circ> RecordDispatch a now) (tx_failpoint hook ''before_insert'' tx0);
          tx2 = tx_step broken ''labels'' (on_dispatch i (\<lambda>d. d\<lparr>di_Labels := encodeDispatchLabels labels\<rparr>))
                  (tx_failpoint hook ''after_insert'' tx1);
          tx3 = tx_step broken ''stage'' (on_dispatch i (\<lambda>d. d\<lparr>di_Stage := ''running''\<rparr>))
                  (tx_failpoint hook ''before_stage_write'' tx2)
      in case tx_step broken ''commit'' id tx3 of
           Inl e \<Rightarrow> (Inl e, db)
         | Inr db' \<Rightarrow> (Inr i, db'))"

definition UpdateDispatchStatus :: "int \<Rightarrow> string \<Rightarrow> int \<Rightarrow> rat \<Rightarrow> int \<Rightarrow> dispatch_db \<Rightarrow> dispatch_db" where
  "UpdateDispatchStatus i status exitCode durationS now =
     on_dispatch i (\<lambda>d. d\<lparr>di_Status := status, di_ExitCode := exitCode, di_DurationS := durationS, di_CompletedAt := Some now\<rparr>)"

definition MarkDispatchPendingRetry :: "int \<Rightarrow> string \<Rightarrow> int option \<Rightarrow> int \<Rightarrow> dispatch_db \<Rightarrow> dispatch_db" where
  "MarkDispatchPendingRetry i nextTier nextRetryAt now =
     on_dispatch i (\<lambda>d. d\<lparr>di_Status := ''pending_retry'', di_Stage := ''pending_retry'',
       di_CompletedAt := (case di_CompletedAt d of None \<Rightarrow> Some now | Some t \<Rightarrow> Some t),
       di_Retries := di_Retries d + 1, di_Tier := nextTier,
       di_EscalatedFromTier := (if di_EscalatedFromTier d = [] then di_Tier d else di_EscalatedFromTier d),
       di_NextRetryAt := nextRetryAt\<rparr>)"

definition InterruptRunningDispatches :: "int \<Rightarrow> dispatch_db \<Rightarrow> nat \<times> dispatch_db" where
  "InterruptRunningDispatches now db =
     (length (filter (\<lambda>d. di_Status d = ''running'') (ds_rows db)),
      db\<lparr>ds_rows := update_where (\<lambda>d. di_Status d = ''running'')
            (\<lambda>d. d\<lparr>di_Status := ''interrupted'', di_CompletedAt := Some now\<rparr>) (ds_rows db)\<rparr>)"

definition SetDispatchTime :: "int \<Rightarrow> int \<Rightarrow> dispatch_db \<Rightarrow> dispatch_db" where
  "SetDispatchTime i dispatchedAt = on_dispatch i (\<lambda>d. d\<lparr>di_DispatchedAt := dispatchedAt\<rparr>)"

definition UpdateDispatchLabelsCSV :: "int \<Rightarrow> string \<Rightarrow> dispatch_db \<Rightarrow> dispatch_db" where
  "UpdateDispatchLabelsCSV i labelsCSV =
     on_dispatch i (\<lambda>d. d\<lparr>di_Labels := encodeDispatchLabels (decodeDispatchLabels labelsCSV)\<rparr>)"

definition UpdateDispatchLabels :: "int \<Rightarrow> string list \<Rightarrow> dispatch_db \<Rightarrow> dispatch_db" where
  "UpdateDispatchLabels i labels = UpdateDispatchLabelsCSV i (encodeDispatchLabels labels)"

definition UpdateFailureDiagnosis :: "int \<Rightarrow> string \<Rightarrow> string \<Rightarrow> dispatch_db \<Rightarrow> dispatch_db" where
  "UpdateFailureDiagnosis i category summary =
     on_dispatch i (\<lambda>d. d\<lparr>di_FailureCategory := category, di_FailureSummary := summary\<rparr>)"

definition RecordDispatchCost :: "int \<Rightarrow> int \<Rightarrow> int \<Rightarrow> rat \<Rightarrow> dispatch_db \<Rightarrow> dispatch_db" where
  "RecordDispatchCost i inputTokens outputTokens costUSD =
     on_dispatch i (\<lambda>d. d\<lparr>di_InputTokens := inputTokens, di_OutputTokens := outputTokens, di_CostUSD := costUSD\<rparr>)"

definition RecordDoDResult :: "int \<Rightarrow> string \<Rightarrow> string \<Rightarrow> bool \<Rightarrow> string \<Rightarrow> string \<Rightarrow> dispatch_db \<Rightarrow> dispatch_db" where
  "RecordDoDResult i morselID project passed failures checkResults db =
     db\<lparr>ds_dod := ds_dod db @ [\<lparr>do_DispatchID = i, do_MorselID = morselID, do_Project = project, do_Passed = passed,
        do_Failures = failures, do_CheckResults = checkResults\<rparr>]\<rparr>"

definition StoreTokenUsage :: "usage_row \<Rightarrow> dispatch_db \<Rightarrow> dispatch_db" where
  "StoreTokenUsage u db = db\<lparr>ds_tokens := ds_tokens db @ [u]\<rparr>"

definition StoreStepMetric :: "step_row \<Rightarrow> dispatch_db \<Rightarrow> dispatch_db" where
  "StoreStepMetric m db = db\<lparr>ds_steps := ds_steps db @ [m]\<rparr>"

section \<open>Queries over the dispatches\<close>

definition queryDispatches :: "(dispatch \<Rightarrow> bool) \<Rightarrow> dispatch_db \<Rightarrow> dispatch list" where
  "queryDispatches P db = filter P (ds_rows db)"

definition newest_first :: "dispatch list \<Rightarrow> dispatch list" where
  "newest_first = sort_key (\<lambda>d. - di_DispatchedAt d)"

definition GetRunningDispatches :: "dispatch_db \<Rightarrow> dispatch list" where
  "GetRunningDispatches = queryDispatches (\<lambda>d. di_Status d = ''running'')"

definition GetStuckDispatches :: "int \<Rightarrow> int \<Rightarrow> dispatch_db \<Rightarrow> dispatch list" where
  "GetStuckDispatches timeout now =
     queryDispatches (\<lambda>d. di_Status d = ''running'' \<and> di_DispatchedAt d < now - timeout)"

definition GetDispatchesByMorsel :: "string \<Rightarrow> dispatch_db \<Rightarrow> dispatch list" where
  "GetDispatchesByMorsel morselID db = newest_first (queryDispatches (\<lambda>d. di_MorselID d = morselID) db)"

definition GetCompletedDispatchesSince :: "string \<Rightarrow> int \<Rightarrow> dispatch_db \<Rightarrow> dispatch list" where
  "GetCompletedDispatchesSince projectName since db =
     newest_first (queryDispatches (\<lambda>d. di_Project d = projectName \<and> di_Status d = ''completed'' \<and> since \<le> di_DispatchedAt d) db)"

definition GetPendingRetryDispatches :: "int \<Rightarrow> dispatch_db \<Rightarrow> dispatch list" where
  "GetPendingRetryDispatches now db =
     sort_key di_DispatchedAt
       (queryDispatches (\<lambda>d. di_Status d = ''pending_retry'' \<and> (case di_NextRetryAt d of None \<Rightarrow> True | Some t \<Rightarrow> t \<le> now)) db)"

text \<open>The statuses the cooldown and the quarantine look at.\<close>

definition known_statuses :: "string list" where
  "known_statuses = [''running'', ''completed'', ''failed'', ''canceled'', ''interrupted'', ''pending_retry'', ''retried'']"

definition WasMorselAgentDispatchedRecently :: "string \<Rightarrow> string \<Rightarrow> int \<Rightarrow> int \<Rightarrow> dispatch_db \<Rightarrow> bool" where
  "WasMorselAgentDispatchedRecently morselID agentID cooldownPeriod now db =
     (if cooldownPeriod \<le> 0 then False
      else if agentID = [] then
        length (queryDispatches (\<lambda>d. di_MorselID d = morselID \<and> now - cooldownPeriod < di_DispatchedAt d \<and>
          di_Status d \<in> set known_statuses) db) > 0
      else
        length (queryDispatches (\<lambda>d. di_MorselID d = morselID \<and> di_AgentID d = agentID \<and>
          now - cooldownPeriod < di_DispatchedAt d \<and> di_Status d \<in> set known_statuses) db) > 0)"

definition WasMorselDispatchedRecently :: "string \<Rightarrow> int \<Rightarrow> int \<Rightarrow> dispatch_db \<Rightarrow> bool" where
  "WasMorselDispatchedRecently morselID cooldownPeriod now db =
     WasMorselAgentDispatchedRecently morselID [] cooldownPeriod now db"

definition isFailureStatusForQuarantine :: "string \<Rightarrow> bool" where
  "isFailureStatusForQuarantine status =
     (status \<in> set [''failed'', ''canceled'', ''interrupted'', ''pending_retry'', ''retried''])"

text \<open>The loop over the statuses: it stops at the first one that is no failure.\<close>

fun consecutive_failures :: "int \<Rightarrow> int \<Rightarrow> string list \<Rightarrow> bool" where
  "consecutive_failures threshold n [] = (threshold \<le> n)"
| "consecutive_failures threshold n (status # rest) =
     (if \<not> isFailureStatusForQuarantine status then False else consecutive_failures threshold (n + 1) rest)"

definition HasRecentConsecutiveFailures :: "string \<Rightarrow> int \<Rightarrow> int \<Rightarrow> int \<Rightarrow> dispatch_db \<Rightarrow> bool" where
  "HasRecentConsecutiveFailures morselID threshold window now db =
     (if threshold \<le> 0 then False
      else consecutive_failures threshold 0 (map di_Status (take (nat threshold) (newest_first
        (queryDispatches (\<lambda>d. di_MorselID d = morselID \<and> now - window < di_DispatchedAt d \<and>
           di_Status d \<in> set known_statuses) db)))))"

definition GetDispatchByID :: "int \<Rightarrow> dispatch_db \<Rightarrow> dispatch option" where
  "GetDispatchByID i db = (case queryDispatches (\<lambda>d. di_ID d = i) db of [] \<Rightarrow> None | d # _ \<Rightarrow> Some d)"

definition latest_by_id :: "dispatch list \<Rightarrow> dispatch option" where
  "latest_by_id ds = (case sort_key (\<lambda>d. - di_ID d) ds of [] \<Rightarrow> None | d # _ \<Rightarrow> Some d)"

definition GetLatestDispatchBySession :: "string \<Rightarrow> dispatch_db \<Rightarrow> dispatch option" where
  "GetLatestDispatchBySession sessionName db =
     (if trim_space sessionName = [] then None
      else latest_by_id (queryDispatches (\<lambda>d. di_SessionName d = trim_space sessionName) db))"

definition GetLatestDispatchByPID :: "int \<Rightarrow> dispatch_db \<Rightarrow> dispatch option" where
  "GetLatestDispatchByPID pid db =
     (if pid \<le> 0 then None else latest_by_id (queryDispatches (\<lambda>d. di_PID d = pid) db))"

definition IsMorselDispatched :: "string \<Rightarrow> dispatch_db \<Rightarrow> bool" where
  "IsMorselDispatched morselID db =
     (length (queryDispatches (\<lambda>d. di_MorselID d = morselID \<and> di_Status d = ''running'') db) > 0)"

definition IsAgentBusy :: "string \<Rightarrow> string \<Rightarrow> dispatch_db \<Rightarrow> bool" where
  "IsAgentBusy project agent db =
     (length (queryDispatches (\<lambda>d. di_Project d = project \<and> di_AgentID d = agent \<and> di_Status d = ''running'') db) > 0)"

definition CountRecentDispatchesByFailureCategory :: "string \<Rightarrow> int \<Rightarrow> int \<Rightarrow> dispatch_db \<Rightarrow> nat" where
  "CountRecentDispatchesByFailureCategory rawcategory window now db =
     (let category = trim_space rawcategory;
          w = (if window \<le> 0 then 60 else window)
      in if category = [] then 0
         else length (queryDispatches (\<lambda>d. di_FailureCategory d = category \<and>
           (case di_CompletedAt d of None \<Rightarrow> False | Some t \<Rightarrow> now - w \<le> t)) db))"

definition CountDispatchesSince :: "int \<Rightarrow> string list \<Rightarrow> dispatch_db \<Rightarrow> nat" where
  "CountDispatchesSince since statuses db =
     (let cleaned = filter (\<lambda>s. s \<noteq> []) (map trim_space statuses)
      in length (queryDispatches (\<lambda>d. since \<le> di_DispatchedAt d \<and>
           (cleaned = [] \<or> di_Status d \<in> set cleaned)) db))"

record status_counts =
  sc_Project :: string
  sc_Running :: nat
  sc_Completed :: nat
  sc_Failed :: nat

definition count_status :: "string \<Rightarrow> dispatch list \<Rightarrow> nat" where
  "count_status status ds = sum_list (map (\<lambda>d. if di_Status d = status then 1 else 0) ds)"

definition GetProjectDispatchStatusCounts :: "int option \<Rightarrow> dispatch_db \<Rightarrow> string \<rightharpoonup> status_counts" where
  "GetProjectDispatchStatusCounts since db =
     (let rows = queryDispatches (\<lambda>d. case since of None \<Rightarrow> True | Some t \<Rightarrow> t \<le> di_DispatchedAt d) db
      in fold (\<lambda>p counts. counts(p \<mapsto> (let group = filter (\<lambda>d. di_Project d = p) rows
           in \<lparr>sc_Project = p, sc_Running = count_status ''running'' group,
               sc_Completed = count_status ''completed'' group, sc_Failed = count_status ''failed'' group\<rparr>)))
         (sort (remdups (map di_Project rows))) Map.empty)"

definition GetRunningDispatchStageCounts :: "dispatch_db \<Rightarrow> string \<rightharpoonup> nat" where
  "GetRunningDispatchStageCounts db =
     (let rows = queryDispatches (\<lambda>d. di_Status d = ''running'') db
      in fold (\<lambda>stage counts. counts((if stage = [] then ''unknown'' else stage) \<mapsto>
           length (filter (\<lambda>d. di_Stage d = stage) rows)))
         (sort (remdups (map di_Stage rows))) Map.empty)"

definition GetDispatchCost :: "int \<Rightarrow> dispatch_db \<Rightarrow> (int \<times> int \<times> rat) option" where
  "GetDispatchCost i db =
     map_option (\<lambda>d. (di_InputTokens d, di_OutputTokens d, di_CostUSD d)) (GetDispatchByID i db)"

definition GetTotalCost :: "string \<Rightarrow> dispatch_db \<Rightarrow> rat" where
  "GetTotalCost project db =
     sum_list (map di_CostUSD (queryDispatches (\<lambda>d. project = [] \<or> di_Project d = project) db))"

definition GetTotalCostSince :: "string \<Rightarrow> int \<Rightarrow> dispatch_db \<Rightarrow> rat" where
  "GetTotalCostSince project since db =
     sum_list (map di_CostUSD (queryDispatches (\<lambda>d. di_Status d = ''completed'' \<and>
       (case di_CompletedAt d of None \<Rightarrow> False | Some t \<Rightarrow> since \<le> t) \<and>
       (trim_space project = [] \<or> di_Project d = project)) db))"

section \<open>The overflow queue\<close>

definition overflow_key :: "overflow_item \<Rightarrow> string \<times> string" where
  "overflow_key it = (ov_MorselID it, ov_Role it)"

text \<open>
  \<open>INSERT OR IGNORE\<close> into the table with the unique index on morsel and role, then the identifier of the
  row that is there. The second query can only miss when the row is not there, which the proof excludes.
\<close>

definition EnqueueOverflowItem ::
  "string \<Rightarrow> string \<Rightarrow> string \<Rightarrow> string \<Rightarrow> int \<Rightarrow> string \<Rightarrow> int \<Rightarrow> dispatch_db \<Rightarrow> int option \<times> dispatch_db" where
  "EnqueueOverflowItem morselID project role agentID priority reason now db =
     (let item = \<lparr>ov_ID = ds_overflow_next db, ov_MorselID = trim_space morselID, ov_Project = trim_space project,
            ov_Role = trim_space role, ov_AgentID = trim_space agentID, ov_Priority = priority, ov_EnqueuedAt = now,
            ov_Attempts = 0, ov_Reason = trim_space reason\<rparr>;
          db' = (if list_ex (\<lambda>r. overflow_key r = overflow_key item) (ds_overflow db) then db
                 else db\<lparr>ds_overflow := ds_overflow db @ [item], ds_overflow_next := ds_overflow_next db + 1\<rparr>)
      in (map_option ov_ID (lookup_by overflow_key (ds_overflow db') (trim_space morselID, trim_space role)), db'))"

definition RemoveOverflowItem :: "string \<Rightarrow> dispatch_db \<Rightarrow> nat \<times> dispatch_db" where
  "RemoveOverflowItem rawid db =
     (let morselID = trim_space rawid
      in (length (filter (\<lambda>r. ov_MorselID r = morselID) (ds_overflow db)),
          db\<lparr>ds_overflow := filter (\<lambda>r. ov_MorselID r \<noteq> morselID) (ds_overflow db)\<rparr>))"

definition overflow_less :: "overflow_item \<Rightarrow> overflow_item \<Rightarrow> bool" where
  "overflow_less a b =
     (if ov_Priority a \<noteq> ov_Priority b then ov_Priority a < ov_Priority b
      else if ov_EnqueuedAt a \<noteq> ov_EnqueuedAt b then ov_EnqueuedAt a < ov_EnqueuedAt b
      else ov_MorselID a < ov_MorselID b)"

definition ListOverflowQueue :: "dispatch_db \<Rightarrow> overflow_item list" where
  "ListOverflowQueue db = sort_slice overflow_less (ds_overflow db)"

definition CountOverflowQueue :: "dispatch_db \<Rightarrow> nat" where
  "CountOverflowQueue db = length (ds_overflow db)"


section \<open>Lemmas on labels\<close>

lemma dedup_labels_props:
  "set (dedup_labels seen ls) = trim_space ` set ls - {[]} - set seen" "distinct (dedup_labels seen ls)"
  by (induction seen ls rule: dedup_labels.induct) (auto simp: Let_def)

lemma dedup_labels_id:
  "distinct ls \<Longrightarrow> set ls \<inter> set seen = {} \<Longrightarrow> (\<forall>l \<in> set ls. trim_space l = l \<and> l \<noteq> []) \<Longrightarrow> dedup_labels seen ls = ls"
  by (induction seen ls rule: dedup_labels.induct) (auto simp: Let_def)

lemma normalize_idem [simp]: "normalizeDispatchLabels (normalizeDispatchLabels ls) = normalizeDispatchLabels ls"
  unfolding normalizeDispatchLabels_def by (rule dedup_labels_id) (auto simp: dedup_labels_props)

lemma set_trim_space: "set (trim_space s) \<subseteq> set s"
  by (auto simp: trim_space_def dest!: set_dropWhileD)

lemma decode_encode:
  assumes "\<forall>l \<in> set ls. CHR '','' \<notin> set l"
  shows "decodeDispatchLabels (encodeDispatchLabels ls) = normalizeDispatchLabels ls"
proof (cases "normalizeDispatchLabels ls = []")
  case True
  then show ?thesis
    by (simp add: decodeDispatchLabels_def encodeDispatchLabels_def normalizeDispatchLabels_def)
next
  case False
  have "\<forall>l \<in> set (normalizeDispatchLabels ls). CHR '','' \<notin> set l"
    using assms set_trim_space by (fastforce simp: normalizeDispatchLabels_def dedup_labels_props)
  then have "split_on (CHR '','') (join_with '','' (normalizeDispatchLabels ls)) = normalizeDispatchLabels ls"
    using False by (rule split_join)
  then show ?thesis by (simp add: decodeDispatchLabels_def encodeDispatchLabels_def)
qed

lemma split_on_free: "l \<in> set (split_on b s) \<Longrightarrow> b \<notin> set l"
  by (induction b s arbitrary: l rule: split_on.induct) (auto split: if_splits list.splits)

lemma encode_decode_idem:
  "encodeDispatchLabels (decodeDispatchLabels (encodeDispatchLabels (decodeDispatchLabels csv))) =
     encodeDispatchLabels (decodeDispatchLabels csv)"
proof -
  have "\<forall>l \<in> set (decodeDispatchLabels csv). CHR '','' \<notin> set l"
    using split_on_free set_trim_space
    by (fastforce simp: decodeDispatchLabels_def normalizeDispatchLabels_def dedup_labels_props)
  then have "decodeDispatchLabels (encodeDispatchLabels (decodeDispatchLabels csv)) = decodeDispatchLabels csv"
    by (simp only: decode_encode) (simp add: decodeDispatchLabels_def)
  then show ?thesis by simp
qed

section \<open>Lemmas on the tables\<close>

lemma find_filter: "find P xs = (case filter P xs of [] \<Rightarrow> None | x # _ \<Rightarrow> Some x)"
  by (induction xs) auto

lemma GetDispatchByID_lookup: "GetDispatchByID i db = lookup_by di_ID (ds_rows db) i"
  by (simp add: GetDispatchByID_def queryDispatches_def lookup_by_def find_filter)


section \<open>The database as a machine\<close>

inductive dispatch_step :: "dispatch_db \<Rightarrow> dispatch_db \<Rightarrow> bool" where
  Step_record: "dispatch_step db (snd (RecordDispatch a now db))"
| Step_schedule: "dispatch_step db (snd (RecordSchedulerDispatch broken hook a labels now db))"
| Step_status: "dispatch_step db (UpdateDispatchStatus i status exitCode durationS now db)"
| Step_retry: "dispatch_step db (MarkDispatchPendingRetry i nextTier nextRetryAt now db)"
| Step_interrupt: "dispatch_step db (snd (InterruptRunningDispatches now db))"
| Step_time: "dispatch_step db (SetDispatchTime i t db)"
| Step_labels: "dispatch_step db (UpdateDispatchLabels i labels db)"
| Step_csv: "dispatch_step db (UpdateDispatchLabelsCSV i csv db)"
| Step_diagnosis: "dispatch_step db (UpdateFailureDiagnosis i category summary db)"
| Step_cost: "dispatch_step db (RecordDispatchCost i inT outT cost db)"
| Step_dod: "dispatch_step db (RecordDoDResult i m p passed failures checkResults db)"
| Step_tokens: "dispatch_step db (StoreTokenUsage u db)"
| Step_metric: "dispatch_step db (StoreStepMetric sm db)"
| Step_enqueue: "dispatch_step db (snd (EnqueueOverflowItem m p r ag pri reason now db))"
| Step_dequeue: "dispatch_step db (snd (RemoveOverflowItem m db))"

text \<open>
  A dispatch that has no completion time is running; one that was ever sent back for a retry remembers the
  tier it started with only then; a dispatch in the retry stage has a retry counted.
\<close>

definition dispatch_ok :: "dispatch \<Rightarrow> bool" where
  "dispatch_ok d \<longleftrightarrow>
     (di_CompletedAt d = None \<longrightarrow> di_Status d = ''running'') \<and>
     0 \<le> di_Retries d \<and>
     (di_Retries d = 0 \<longrightarrow> di_EscalatedFromTier d = [] \<and> di_NextRetryAt d = None \<and> di_Stage d \<noteq> ''pending_retry'')"

definition dispatch_inv :: "dispatch_db \<Rightarrow> bool" where
  "dispatch_inv db \<longleftrightarrow>
     unique_keys di_ID (ds_rows db) \<and> list_all (\<lambda>d. 0 < di_ID d \<and> di_ID d < ds_next db) (ds_rows db) \<and> 0 < ds_next db \<and>
     list_all dispatch_ok (ds_rows db) \<and>
     unique_keys overflow_key (ds_overflow db) \<and> unique_keys ov_ID (ds_overflow db) \<and>
     list_all (\<lambda>r. ov_ID r < ds_overflow_next db) (ds_overflow db)"

lemma dispatch_inv_empty: "dispatch_inv empty_dispatches"
  by (simp add: dispatch_inv_def empty_dispatches_def unique_keys_def)

lemma inv_RecordDispatch: "dispatch_inv db \<Longrightarrow> dispatch_inv (snd (RecordDispatch a now db))"
  by (auto simp: dispatch_inv_def RecordDispatch_def new_dispatch_def dispatch_ok_def unique_keys_def list_all_iff)

lemma inv_on_dispatch:
  assumes "dispatch_inv db" and "\<And>d. di_ID (f d) = di_ID d" and "\<And>d. dispatch_ok d \<Longrightarrow> dispatch_ok (f d)"
  shows "dispatch_inv (on_dispatch i f db)"
  using assms
  by (auto simp: dispatch_inv_def on_dispatch_def list_all_iff modify_row_def set_update_where unique_keys_def map_update_where)

text \<open>The transaction either fails and gives the old database back, or has made the row with labels and stage.\<close>

definition tx_clear :: "(string \<Rightarrow> bool) \<Rightarrow> (string \<Rightarrow> string option) option \<Rightarrow> bool" where
  "tx_clear broken hook \<longleftrightarrow>
     list_all (\<lambda>n. \<not> broken n) [''begin'', ''insert'', ''labels'', ''stage'', ''commit''] \<and>
     list_all (\<lambda>p. maybeFailDispatchPersist hook p = None) [''before_insert'', ''after_insert'', ''before_stage_write'']"

definition scheduled_row :: "int \<Rightarrow> dispatch_args \<Rightarrow> string list \<Rightarrow> int \<Rightarrow> dispatch" where
  "scheduled_row i a labels now =
     (new_dispatch i a now)\<lparr>di_Labels := encodeDispatchLabels labels, di_Stage := ''running''\<rparr>"

lemma tx_step_Inl [simp]: "tx_step broken n f (Inl e) = Inl e"
  by (simp add: tx_step_def)

lemma tx_failpoint_Inl [simp]: "tx_failpoint hook p (Inl e) = Inl e"
  by (simp add: tx_failpoint_def)

lemma tx_step_Inr: "tx_step broken n f (Inr db) = (if broken n then Inl (StatementFailed n) else Inr (f db))"
  by (simp add: tx_step_def)

lemma tx_failpoint_Inr:
  "tx_failpoint hook p (Inr db) = (case maybeFailDispatchPersist hook p of Some e \<Rightarrow> Inl e | None \<Rightarrow> Inr db)"
  by (simp add: tx_failpoint_def)

lemma on_new_row:
  assumes "dispatch_inv db" and "di_ID r = ds_next db"
  shows "on_dispatch (ds_next db) f (db\<lparr>ds_rows := ds_rows db @ [r], ds_next := n\<rparr>) =
    db\<lparr>ds_rows := ds_rows db @ [f r], ds_next := n\<rparr>"
proof -
  have "modify_row di_ID (ds_next db) f (ds_rows db) = ds_rows db"
    using assms(1) unfolding modify_row_def update_where_def
    by (intro map_idI) (auto simp: dispatch_inv_def list_all_iff)
  then show ?thesis using assms(2) by (simp add: on_dispatch_def modify_row_def update_where_def)
qed

lemma RecordSchedulerDispatch_clear:
  assumes "dispatch_inv db" and "tx_clear broken hook"
  shows "RecordSchedulerDispatch broken hook a labels now db =
    (Inr (ds_next db), db\<lparr>ds_rows := ds_rows db @ [scheduled_row (ds_next db) a labels now], ds_next := ds_next db + 1\<rparr>)"
proof -
  have i: "di_ID (new_dispatch (ds_next db) a now) = ds_next db" by (simp add: new_dispatch_def)
  show ?thesis
    using assms i on_new_row [OF assms(1)]
    by (simp add: RecordSchedulerDispatch_def tx_clear_def tx_step_Inr tx_failpoint_Inr RecordDispatch_def scheduled_row_def Let_def)
qed

lemma RecordSchedulerDispatch_blocked:
  assumes "\<not> tx_clear broken hook"
  shows "\<exists>e. RecordSchedulerDispatch broken hook a labels now db = (Inl e, db)"
  using assms
  by (auto simp: RecordSchedulerDispatch_def tx_clear_def tx_step_Inr tx_failpoint_Inr Let_def split: option.splits)

lemma inv_RecordSchedulerDispatch:
  assumes "dispatch_inv db"
  shows "dispatch_inv (snd (RecordSchedulerDispatch broken hook a labels now db))"
proof (cases "tx_clear broken hook")
  case True
  then show ?thesis using assms
    by (auto simp: RecordSchedulerDispatch_clear dispatch_inv_def scheduled_row_def new_dispatch_def dispatch_ok_def
        unique_keys_def list_all_iff)
next
  case False
  then show ?thesis using assms RecordSchedulerDispatch_blocked [OF False] by (metis snd_conv)
qed

lemma inv_enqueue: "dispatch_inv db \<Longrightarrow> dispatch_inv (snd (EnqueueOverflowItem m p r ag pri reason now db))"
  by (auto simp: dispatch_inv_def EnqueueOverflowItem_def Let_def unique_keys_def list_ex_iff list_all_iff)

lemma inv_dequeue: "dispatch_inv db \<Longrightarrow> dispatch_inv (snd (RemoveOverflowItem m db))"
  by (auto simp: dispatch_inv_def RemoveOverflowItem_def Let_def unique_keys_def list_all_iff distinct_map_filter)

lemma inv_interrupt: "dispatch_inv db \<Longrightarrow> dispatch_inv (snd (InterruptRunningDispatches now db))"
  by (auto simp: dispatch_inv_def InterruptRunningDispatches_def unique_keys_def list_all_iff set_update_where
      map_update_where dispatch_ok_def)

lemmas row_updates = UpdateDispatchStatus_def MarkDispatchPendingRetry_def SetDispatchTime_def UpdateDispatchLabels_def
  UpdateDispatchLabelsCSV_def UpdateFailureDiagnosis_def RecordDispatchCost_def

lemma dispatch_inv_step:
  assumes "dispatch_inv db" and "dispatch_step db db'"
  shows "dispatch_inv db'"
  using assms(2,1)
proof (induction rule: dispatch_step.induct)
  case (Step_retry db i nextTier nextRetryAt now)
  then show ?case unfolding row_updates by (auto intro!: inv_on_dispatch simp: dispatch_ok_def split: option.split)
next
  case (Step_dod db i m p passed failures checkResults)
  then show ?case by (simp add: dispatch_inv_def RecordDoDResult_def)
next
  case (Step_tokens db u)
  then show ?case by (simp add: dispatch_inv_def StoreTokenUsage_def)
next
  case (Step_metric db sm)
  then show ?case by (simp add: dispatch_inv_def StoreStepMetric_def)
qed (auto simp: row_updates dispatch_ok_def inv_RecordDispatch inv_RecordSchedulerDispatch inv_interrupt inv_enqueue inv_dequeue
      intro!: inv_on_dispatch)

interpretation dispatch_run: machine empty_dispatches dispatch_step dispatch_inv
  using dispatch_inv_empty dispatch_inv_step by unfold_locales


section \<open>Lemmas on retries, the quarantine and the overflow queue\<close>

lemma on_dispatch_lookup:
  assumes "\<And>d. di_ID (f d) = di_ID d"
  shows "GetDispatchByID j (on_dispatch i f db) = (if j = i then map_option f (GetDispatchByID i db) else GetDispatchByID j db)"
  using assms by (simp add: GetDispatchByID_lookup on_dispatch_def modify_row_def lookup_by_update_where)

lemma GetDispatchByID_iff:
  "dispatch_inv db \<Longrightarrow> GetDispatchByID i db = Some d \<longleftrightarrow> d \<in> set (ds_rows db) \<and> di_ID d = i"
  by (simp add: GetDispatchByID_lookup lookup_by_set dispatch_inv_def)

lemma mark_retry_lookup:
  "GetDispatchByID j (MarkDispatchPendingRetry i nextTier nextRetryAt now db) =
     (if j = i then map_option (\<lambda>d. d\<lparr>di_Status := ''pending_retry'', di_Stage := ''pending_retry'',
       di_CompletedAt := (case di_CompletedAt d of None \<Rightarrow> Some now | Some t \<Rightarrow> Some t),
       di_Retries := di_Retries d + 1, di_Tier := nextTier,
       di_EscalatedFromTier := (if di_EscalatedFromTier d = [] then di_Tier d else di_EscalatedFromTier d),
       di_NextRetryAt := nextRetryAt\<rparr>) (GetDispatchByID i db)
      else GetDispatchByID j db)"
  unfolding MarkDispatchPendingRetry_def by (rule on_dispatch_lookup) simp

definition mark_retries :: "int \<Rightarrow> (string \<times> int option \<times> int) list \<Rightarrow> dispatch_db \<Rightarrow> dispatch_db" where
  "mark_retries i rs db = fold (\<lambda>(tier, retryAt, now). MarkDispatchPendingRetry i tier retryAt now) rs db"

lemma mark_retries_inv: "dispatch_inv db \<Longrightarrow> dispatch_inv (mark_retries i rs db)"
  unfolding mark_retries_def
  by (induction rs arbitrary: db) (auto intro: dispatch_inv_step Step_retry)

lemma mark_retries_snoc:
  "mark_retries i (rs @ [(tier, retryAt, now)]) db = MarkDispatchPendingRetry i tier retryAt now (mark_retries i rs db)"
  by (simp add: mark_retries_def)

lemma mark_retries_row:
  assumes "GetDispatchByID i db = Some d" and "di_EscalatedFromTier d = []" and "di_Tier d \<noteq> []" and "rs \<noteq> []"
  shows "\<exists>d'. GetDispatchByID i (mark_retries i rs db) = Some d' \<and> di_Status d' = ''pending_retry'' \<and>
    di_Retries d' = di_Retries d + int (length rs) \<and> di_EscalatedFromTier d' = di_Tier d \<and>
    di_Tier d' = fst (last rs) \<and> di_NextRetryAt d' = fst (snd (last rs)) \<and>
    di_CompletedAt d' = (case di_CompletedAt d of None \<Rightarrow> Some (snd (snd (hd rs))) | Some t \<Rightarrow> Some t)"
  using assms(4)
proof (induction rs rule: rev_induct)
  case (snoc r rs)
  obtain tier retryAt now where r: "r = (tier, retryAt, now)" by (cases r)
  show ?case
  proof (cases "rs = []")
    case True
    then show ?thesis using assms(1-3) by (simp add: r mark_retries_def mark_retry_lookup split: option.split)
  next
    case False
    then obtain d' where "GetDispatchByID i (mark_retries i rs db) = Some d'" "di_Retries d' = di_Retries d + int (length rs)"
      "di_EscalatedFromTier d' = di_Tier d"
      "di_CompletedAt d' = (case di_CompletedAt d of None \<Rightarrow> Some (snd (snd (hd rs))) | Some t \<Rightarrow> Some t)"
      using snoc.IH by blast
    then show ?thesis using assms(3) False by (simp add: r mark_retries_snoc mark_retry_lookup split: option.splits)
  qed
qed simp

lemma consecutive_failures_iff:
  "consecutive_failures threshold n ss \<longleftrightarrow> list_all isFailureStatusForQuarantine ss \<and> threshold \<le> n + int (length ss)"
  by (induction threshold n ss rule: consecutive_failures.induct) auto

lemma HasRecentConsecutiveFailures_take:
  defines "recent m w now db \<equiv> queryDispatches (\<lambda>d. di_MorselID d = m \<and> now - w < di_DispatchedAt d \<and> di_Status d \<in> set known_statuses) db"
  assumes "0 < n"
  shows "HasRecentConsecutiveFailures m (int n) w now db \<longleftrightarrow> n \<le> length (recent m w now db) \<and>
    (\<forall>d \<in> set (take n (newest_first (recent m w now db))). isFailureStatusForQuarantine (di_Status d))"
  using assms(2)
  by (auto simp: HasRecentConsecutiveFailures_def consecutive_failures_iff assms(1) list_all_iff newest_first_def)

text \<open>In a strictly decreasing list the first \<open>n\<close> elements are the only \<open>n\<close> that dominate the rest.\<close>

lemma top_elements_unique:
  fixes key :: "'a \<Rightarrow> int"
  assumes "sorted_wrt (\<lambda>a b. key b < key a) xs" and "S \<subseteq> set xs" and "card S = n"
    and "\<forall>d \<in> set xs - S. \<forall>e \<in> S. key d \<le> key e"
  shows "S = set (take n xs)"
proof (rule ccontr)
  assume ne: "S \<noteq> set (take n xs)"
  have dist: "distinct xs" using assms(1) by (induction xs) auto
  have fin: "finite S" using assms(2) finite_subset by blast
  have le: "n \<le> length xs" using assms(2,3) dist by (metis List.finite_set card_mono distinct_card)
  then have c: "card (set (take n xs)) = n" using dist by (simp add: distinct_card)
  have "\<not> S \<subseteq> set (take n xs)" using ne c assms(3) by (metis List.finite_set card_subset_eq)
  then obtain y where y: "y \<in> S" "y \<notin> set (take n xs)" by blast
  have "\<not> set (take n xs) \<subseteq> S" using ne c assms(3) fin by (metis card_subset_eq)
  then obtain x where x: "x \<in> set (take n xs)" "x \<notin> S" by blast
  have "y \<in> set (drop n xs)" using y assms(2) by (metis Un_iff append_take_drop_id set_append subsetD)
  moreover have "sorted_wrt (\<lambda>a b. key b < key a) (take n xs @ drop n xs)" using assms(1) by simp
  ultimately have "key y < key x" using x(1) unfolding sorted_wrt_append by blast
  moreover have "key x \<le> key y" using assms(4) x y(1) by (meson DiffI in_set_takeD)
  ultimately show False by simp
qed

lemma sorted_distinct_strict:
  fixes key :: "'a \<Rightarrow> int"
  shows "distinct (map key xs) \<Longrightarrow> sorted (map (\<lambda>x. - key x) xs) \<Longrightarrow> sorted_wrt (\<lambda>a b. key b < key a) xs"
  by (induction xs) (auto simp: less_le image_iff)

lemma newest_first_strict:
  assumes "distinct (map di_DispatchedAt ds)"
  shows "sorted_wrt (\<lambda>a b. di_DispatchedAt b < di_DispatchedAt a) (newest_first ds)"
proof -
  have m: "mset (newest_first ds) = mset ds" by (simp add: newest_first_def)
  then have "distinct (map di_DispatchedAt (newest_first ds))"
    using assms by (metis mset_eq_imp_distinct_iff mset_map)
  moreover have "sorted (map (\<lambda>d. - di_DispatchedAt d) (newest_first ds))" by (simp add: newest_first_def)
  ultimately show ?thesis by (rule sorted_distinct_strict)
qed

interpretation overflow_order: slice_order overflow_less
  by unfold_locales (auto simp: overflow_less_def split: if_splits)


section \<open>Properties\<close>

text \<open>
  C15. In every state the store can reach, a dispatch is found by its identifier, one without a completion time
  is running, and one that was never sent back for a retry carries no trace of a retry. Interrupting at
  start-up leaves no running dispatch, reports how many there were, and touches no other row; in particular a
  morsel counts as dispatched before and not after.
\<close>

theorem dispatch_lifecycle:
  assumes "dispatch_step\<^sup>*\<^sup>* empty_dispatches db"
  shows "(\<forall>d \<in> set (ds_rows db). GetDispatchByID (di_ID d) db = Some d \<and> dispatch_ok d) \<and>
    GetRunningDispatches (snd (InterruptRunningDispatches now db)) = [] \<and> \<not> IsMorselDispatched m (snd (InterruptRunningDispatches now db)) \<and>
    fst (InterruptRunningDispatches now db) = length (GetRunningDispatches db) \<and>
    (\<forall>i. GetDispatchByID i (snd (InterruptRunningDispatches now db)) = map_option (\<lambda>d. if di_Status d = ''running''
       then d\<lparr>di_Status := ''interrupted'', di_CompletedAt := Some now\<rparr> else d) (GetDispatchByID i db))"
proof -
  let ?after = "snd (InterruptRunningDispatches now db)"
  have i: "dispatch_inv db" using assms(1) by (rule dispatch_run.inv_reachable)
  have r: "ds_rows ?after = map (\<lambda>d. if di_Status d = ''running'' then d\<lparr>di_Status := ''interrupted'', di_CompletedAt := Some now\<rparr> else d) (ds_rows db)"
    by (simp add: InterruptRunningDispatches_def update_where_def)
  then have n: "\<forall>d \<in> set (ds_rows ?after). di_Status d \<noteq> ''running''" by auto
  have "GetDispatchByID j ?after = map_option (\<lambda>d. if di_Status d = ''running''
       then d\<lparr>di_Status := ''interrupted'', di_CompletedAt := Some now\<rparr> else d) (GetDispatchByID j db)" for j
    unfolding GetDispatchByID_lookup lookup_by_def r by (rule find_map_key) simp
  moreover have "\<forall>d \<in> set (ds_rows db). GetDispatchByID (di_ID d) db = Some d \<and> dispatch_ok d"
    using i GetDispatchByID_iff [OF i] by (auto simp: dispatch_inv_def list_all_iff)
  moreover have "GetRunningDispatches ?after = []" "\<not> IsMorselDispatched m ?after"
    using n by (auto simp: GetRunningDispatches_def IsMorselDispatched_def queryDispatches_def filter_empty_conv)
  moreover have "fst (InterruptRunningDispatches now db) = length (GetRunningDispatches db)"
    by (simp add: GetRunningDispatches_def queryDispatches_def InterruptRunningDispatches_def)
  ultimately show ?thesis by blast
qed

definition sample_args :: dispatch_args where
  "sample_args = \<lparr>da_morselID = ''m1'', da_project = ''p'', da_agent = ''a'', da_provider = ''x'', da_tier = ''fast'', da_handle = 7,
     da_sessionName = ''s'', da_prompt = ''do it'', da_logPath = '''', da_branch = ''b'', da_backend = ''cli''\<rparr>"

theorem dispatch_lifecycle_witness:
  "IsMorselDispatched ''m1'' (snd (RecordDispatch sample_args 5 empty_dispatches)) \<and>
   \<not> IsMorselDispatched ''m1'' (snd (InterruptRunningDispatches 9 (snd (RecordDispatch sample_args 5 empty_dispatches))))"
proof -
  have "dispatch_step\<^sup>*\<^sup>* empty_dispatches (snd (RecordDispatch sample_args 5 empty_dispatches))"
    by (rule r_into_rtranclp) (rule Step_record)
  from dispatch_lifecycle [OF this] show ?thesis
    by (simp add: IsMorselDispatched_def queryDispatches_def RecordDispatch_def new_dispatch_def empty_dispatches_def sample_args_def)
qed

text \<open>
  C12. The scheduler's record of a dispatch is atomic: when a statement or a failpoint of the transaction fails,
  the caller gets an error and the database is as before; otherwise the new row is there under a fresh identifier,
  running, with its normalised labels and the stage set, and every other dispatch reads as before.
\<close>

theorem scheduler_dispatch_atomic:
  assumes "dispatch_step\<^sup>*\<^sup>* empty_dispatches db"
  shows "case RecordSchedulerDispatch broken hook a labels now db of
      (Inl e, db') \<Rightarrow> \<not> tx_clear broken hook \<and> db' = db
    | (Inr i, db') \<Rightarrow> tx_clear broken hook \<and> GetDispatchByID i db = None \<and>
        GetDispatchByID i db' = Some (scheduled_row i a labels now) \<and>
        (\<forall>j. j \<noteq> i \<longrightarrow> GetDispatchByID j db' = GetDispatchByID j db) \<and> IsMorselDispatched (da_morselID a) db'"
proof (cases "tx_clear broken hook")
  case True
  have i: "dispatch_inv db" using assms by (rule dispatch_run.inv_reachable)
  then have f: "ds_next db \<notin> di_ID ` set (ds_rows db)" by (auto simp: dispatch_inv_def list_all_iff)
  have d: "di_ID (scheduled_row (ds_next db) a labels now) = ds_next db"
    and s: "di_Status (scheduled_row (ds_next db) a labels now) = ''running''"
    and m: "di_MorselID (scheduled_row (ds_next db) a labels now) = da_morselID a"
    by (simp_all add: scheduled_row_def new_dispatch_def)
  from f have "GetDispatchByID (ds_next db) db = None" by (simp add: GetDispatchByID_lookup lookup_by_None)
  then show ?thesis using True d s m lookup_by_append [OF f d]
    by (simp add: RecordSchedulerDispatch_clear [OF i True] GetDispatchByID_lookup IsMorselDispatched_def queryDispatches_def)
next
  case False
  then show ?thesis using RecordSchedulerDispatch_blocked [OF False, of a labels now db] by auto
qed

theorem scheduler_dispatch_atomic_witness:
  "(\<exists>e. RecordSchedulerDispatch (\<lambda>n. n = ''stage'') None sample_args [''ui''] 5 empty_dispatches = (Inl e, empty_dispatches)) \<and>
   (\<exists>db'. RecordSchedulerDispatch (\<lambda>n. False) None sample_args [''ui''] 5 empty_dispatches = (Inr 1, db') \<and>
      GetDispatchByID 1 db' = Some (scheduled_row 1 sample_args [''ui''] 5))"
proof -
  have f: "\<not> tx_clear (\<lambda>n. n = ''stage'') None" and t: "tx_clear (\<lambda>n. False) None"
    by (simp_all add: tx_clear_def maybeFailDispatchPersist_def)
  have r: "fst (RecordSchedulerDispatch (\<lambda>n. False) None sample_args [''ui''] 5 empty_dispatches) = Inr 1"
    by (simp add: RecordSchedulerDispatch_clear dispatch_inv_empty t) (simp add: empty_dispatches_def)
  show ?thesis
    using scheduler_dispatch_atomic [of empty_dispatches "\<lambda>n. n = ''stage''" None sample_args "[''ui'']" 5] f
      scheduler_dispatch_atomic [of empty_dispatches "\<lambda>n. False" None sample_args "[''ui'']" 5] t r
    by (auto split: prod.splits sum.splits)
qed

text \<open>
  C14. The bookkeeping of retries: when a dispatch that was never retried is sent back any number of times, its counter is
  the number of times, the tier it came from is the tier of the very first attempt, the tier and the time of the next attempt
  are the last ones given, its completion time is that of the first failure, and it is offered for a retry
  exactly from that time on.
\<close>

theorem retry_history:
  assumes "dispatch_step\<^sup>*\<^sup>* empty_dispatches db" and "GetDispatchByID i db = Some d" and "di_Retries d = 0"
    and "di_Tier d \<noteq> []" and "rs \<noteq> []"
  shows "\<exists>d'. GetDispatchByID i (mark_retries i rs db) = Some d' \<and> di_Retries d' = int (length rs) \<and>
    di_EscalatedFromTier d' = di_Tier d \<and> di_Tier d' = fst (last rs) \<and>
    di_CompletedAt d' = (case di_CompletedAt d of None \<Rightarrow> Some (snd (snd (hd rs))) | Some t \<Rightarrow> Some t) \<and>
    (\<forall>now. d' \<in> set (GetPendingRetryDispatches now (mark_retries i rs db)) \<longleftrightarrow>
       (case fst (snd (last rs)) of None \<Rightarrow> True | Some t \<Rightarrow> t \<le> now))"
proof -
  have i: "dispatch_inv db" using assms(1) by (rule dispatch_run.inv_reachable)
  then have "dispatch_ok d" using assms(2) by (simp add: GetDispatchByID_iff) (simp add: dispatch_inv_def list_all_iff)
  then have e: "di_EscalatedFromTier d = []" using assms(3) by (simp add: dispatch_ok_def)
  obtain d' where d': "GetDispatchByID i (mark_retries i rs db) = Some d'" "di_Status d' = ''pending_retry''"
    "di_Retries d' = int (length rs)" "di_EscalatedFromTier d' = di_Tier d" "di_Tier d' = fst (last rs)"
    "di_NextRetryAt d' = fst (snd (last rs))"
    "di_CompletedAt d' = (case di_CompletedAt d of None \<Rightarrow> Some (snd (snd (hd rs))) | Some t \<Rightarrow> Some t)"
    using mark_retries_row [OF assms(2) e assms(4,5)] assms(3) by auto
  have "d' \<in> set (ds_rows (mark_retries i rs db))"
    using d'(1) GetDispatchByID_iff [OF mark_retries_inv [OF i]] by blast
  then show ?thesis using d' by (intro exI [of _ d']) (simp add: GetPendingRetryDispatches_def queryDispatches_def)
qed

theorem retry_history_witness:
  "\<exists>d'. GetDispatchByID 1 (mark_retries 1 [(''balanced'', Some 20, 10), (''premium'', Some 40, 30)]
      (snd (RecordDispatch sample_args 5 empty_dispatches))) = Some d' \<and>
    di_Retries d' = 2 \<and> di_EscalatedFromTier d' = ''fast'' \<and> di_Tier d' = ''premium'' \<and> di_CompletedAt d' = Some 10"
proof -
  let ?db = "snd (RecordDispatch sample_args 5 empty_dispatches)"
  have "dispatch_step\<^sup>*\<^sup>* empty_dispatches ?db" by (rule r_into_rtranclp) (rule Step_record)
  moreover have "GetDispatchByID 1 ?db = Some (new_dispatch 1 sample_args 5)"
    by (simp add: RecordDispatch_def GetDispatchByID_lookup lookup_by_def empty_dispatches_def new_dispatch_def)
  moreover have "di_Retries (new_dispatch 1 sample_args 5) = 0" "di_Tier (new_dispatch 1 sample_args 5) = ''fast''"
    "di_CompletedAt (new_dispatch 1 sample_args 5) = None"
    by (simp_all add: new_dispatch_def sample_args_def)
  ultimately show ?thesis
    using retry_history [of ?db 1 "new_dispatch 1 sample_args 5" "[(''balanced'', Some 20, 10), (''premium'', Some 40, 30)]"]
    by auto
qed


text \<open>
  C40. The quarantine: with a threshold of \<open>n\<close>, a morsel is quarantined exactly when \<open>n\<close> of its recent dispatches
  all ended in a failure and none of its other recent dispatches is newer. A success or a running dispatch
  among the newest \<open>n\<close> therefore lifts it. The dispatch times are taken to be distinct, since the
  query leaves the order of equal times open.
\<close>

theorem quarantine_iff:
  assumes "0 < n" and "recent = filter (\<lambda>d. di_MorselID d = m \<and> now - w < di_DispatchedAt d \<and> di_Status d \<in> set known_statuses) (ds_rows db)"
    and "distinct (map di_DispatchedAt recent)"
  shows "HasRecentConsecutiveFailures m (int n) w now db \<longleftrightarrow>
    (\<exists>S \<subseteq> set recent. card S = n \<and> (\<forall>d \<in> S. isFailureStatusForQuarantine (di_Status d)) \<and>
       (\<forall>d \<in> set recent - S. \<forall>e \<in> S. di_DispatchedAt d < di_DispatchedAt e))"
    (is "?l \<longleftrightarrow> ?r")
proof -
  let ?xs = "newest_first recent"
  have s: "sorted_wrt (\<lambda>a b. di_DispatchedAt b < di_DispatchedAt a) ?xs" using assms(3) by (rule newest_first_strict)
  have set: "set ?xs = set recent" and len: "length ?xs = length recent" and dist: "distinct ?xs"
    using assms(3) by (simp_all add: newest_first_def distinct_map)
  have l: "?l \<longleftrightarrow> n \<le> length recent \<and> (\<forall>d \<in> set (take n ?xs). isFailureStatusForQuarantine (di_Status d))"
    using HasRecentConsecutiveFailures_take [OF assms(1)] by (simp add: assms(2) queryDispatches_def)
  have r: "?r" if "n \<le> length recent" "\<forall>d \<in> set (take n ?xs). isFailureStatusForQuarantine (di_Status d)"
  proof (intro exI [of _ "set (take n ?xs)"] conjI)
    show "set (take n ?xs) \<subseteq> set recent" using set set_take_subset by metis
    show "card (set (take n ?xs)) = n" using that(1) dist len by (simp add: distinct_card)
    have "sorted_wrt (\<lambda>a b. di_DispatchedAt b < di_DispatchedAt a) (take n ?xs @ drop n ?xs)" using s by simp
    moreover have "set recent - set (take n ?xs) \<subseteq> set (drop n ?xs)"
      unfolding set [symmetric] by (metis Diff_subset_conv append_take_drop_id order_refl set_append)
    ultimately show "\<forall>d \<in> set recent - set (take n ?xs). \<forall>e \<in> set (take n ?xs). di_DispatchedAt d < di_DispatchedAt e"
      unfolding sorted_wrt_append by blast
  qed (use that in blast)
  have "n \<le> length recent \<and> (\<forall>d \<in> set (take n ?xs). isFailureStatusForQuarantine (di_Status d))" if ?r
  proof -
    from that obtain S where S: "S \<subseteq> set recent" "card S = n" "\<forall>d \<in> S. isFailureStatusForQuarantine (di_Status d)"
      "\<forall>d \<in> set recent - S. \<forall>e \<in> S. di_DispatchedAt d < di_DispatchedAt e" by (elim exE conjE)
    then have "S = set (take n ?xs)" using set by (intro top_elements_unique [OF s]) (auto intro: less_imp_le)
    moreover have "n \<le> length recent" using S(1,2) by (metis List.finite_set card_length card_mono order_trans)
    ultimately show ?thesis using S(3) by blast
  qed
  then show ?thesis using l r by blast
qed

text \<open>Two failures after a success quarantine the morsel at threshold two, not at three.\<close>

definition sample_history :: dispatch_db where
  "sample_history = empty_dispatches\<lparr>ds_rows :=
     [(new_dispatch 1 sample_args 10)\<lparr>di_Status := ''completed''\<rparr>, (new_dispatch 2 sample_args 20)\<lparr>di_Status := ''failed''\<rparr>,
      (new_dispatch 3 sample_args 30)\<lparr>di_Status := ''interrupted''\<rparr>]\<rparr>"

theorem quarantine_iff_witness:
  "HasRecentConsecutiveFailures ''m1'' 2 100 50 sample_history \<and>
   (\<exists>S \<subseteq> set (ds_rows sample_history). card S = 2 \<and> (\<forall>d \<in> S. isFailureStatusForQuarantine (di_Status d))) \<and>
   \<not> HasRecentConsecutiveFailures ''m1'' 3 100 50 sample_history"
proof -
  have r: "ds_rows sample_history = filter (\<lambda>d. di_MorselID d = ''m1'' \<and> 50 - 100 < di_DispatchedAt d \<and> di_Status d \<in> set known_statuses) (ds_rows sample_history)"
    and d: "distinct (map di_DispatchedAt (ds_rows sample_history))"
    by (simp_all add: sample_history_def new_dispatch_def sample_args_def known_statuses_def)
  have h: "HasRecentConsecutiveFailures ''m1'' 2 100 50 sample_history"
    "\<not> HasRecentConsecutiveFailures ''m1'' 3 100 50 sample_history"
    by (simp_all add: HasRecentConsecutiveFailures_def queryDispatches_def sample_history_def new_dispatch_def sample_args_def
        known_statuses_def newest_first_def isFailureStatusForQuarantine_def numeral_eq_Suc)
  show ?thesis using quarantine_iff [OF _ r d, of 2] h by auto
qed

text \<open>
  Labels survive the round trip through the column when none of them contains a comma, and so does
  what \<open>UpdateDispatchLabels\<close> stores; a label with a comma comes back as two.
\<close>

lemma labels_roundtrip:
  assumes "\<forall>l \<in> set labels. CHR '','' \<notin> set l" and "GetDispatchByID i db = Some d"
  shows "map_option (decodeDispatchLabels \<circ> di_Labels) (GetDispatchByID i (UpdateDispatchLabels i labels db)) =
    Some (normalizeDispatchLabels labels)"
  using assms
  by (simp add: UpdateDispatchLabels_def UpdateDispatchLabelsCSV_def on_dispatch_lookup decode_encode
      encodeDispatchLabels_def [of "normalizeDispatchLabels labels"] encodeDispatchLabels_def [of labels, symmetric])

lemma comma_splits_label: "decodeDispatchLabels (encodeDispatchLabels [''a,b'']) = [''a'', ''b'']"
  by code_simp

text \<open>
  The scheduler stores its labels without decoding them first: with a comma in a label the column is not in
  the normal form that \<open>UpdateDispatchLabels\<close> would have stored.
\<close>

lemma scheduler_labels_not_normal:
  "encodeDispatchLabels [''a,a''] = ''a,a''" "encodeDispatchLabels (decodeDispatchLabels (encodeDispatchLabels [''a,a''])) = ''a''"
  by code_simp+

text \<open>
  The queue holds each pair of morsel and role once: a second request answers the identifier of the first and changes nothing;
  removing a morsel removes it for all roles.
\<close>

lemma overflow_queue_correct:
  assumes "dispatch_inv db" and "EnqueueOverflowItem m p r ag pri reason now db = (oi, db')"
  shows "\<exists>i. oi = Some i \<and> EnqueueOverflowItem m p' r ag' pri' reason' now' db' = (Some i, db') \<and>
    CountOverflowQueue db' \<le> CountOverflowQueue db + 1 \<and>
    (\<forall>it \<in> set (ListOverflowQueue (snd (RemoveOverflowItem m db'))). ov_MorselID it \<noteq> trim_space m) \<and>
    sorted_wrt (\<lambda>a b. \<not> overflow_less b a) (ListOverflowQueue db')"
proof -
  let ?k = "(trim_space m, trim_space r)"
  have k: "?k \<in> overflow_key ` set (ds_overflow db')"
    using assms(2) by (force simp: EnqueueOverflowItem_def Let_def overflow_key_def list_ex_iff split: if_splits)
  then obtain it where it: "lookup_by overflow_key (ds_overflow db') ?k = Some it"
    by (metis lookup_by_None not_None_eq)
  have o: "oi = map_option ov_ID (lookup_by overflow_key (ds_overflow db') ?k)"
    using assms(2) by (auto simp: EnqueueOverflowItem_def Let_def)
  have "EnqueueOverflowItem m p' r ag' pri' reason' now' db' = (Some (ov_ID it), db')"
    using k it by (auto simp: EnqueueOverflowItem_def Let_def list_ex_iff overflow_key_def)
  moreover have "CountOverflowQueue db' \<le> CountOverflowQueue db + 1"
    using assms(2) by (auto simp: EnqueueOverflowItem_def CountOverflowQueue_def Let_def split: if_splits)
  ultimately show ?thesis using o it overflow_order.sorted_sort_slice
    by (auto simp: ListOverflowQueue_def RemoveOverflowItem_def Let_def)
qed

text \<open>A finished dispatch keeps its stage: nothing of the store moves it to a final one.\<close>

lemma completed_keeps_stage:
  "map_option di_Stage (GetDispatchByID j (UpdateDispatchStatus i status exitCode durationS now db)) =
     map_option di_Stage (GetDispatchByID j db)"
  by (simp add: UpdateDispatchStatus_def on_dispatch_lookup option.map_comp comp_def)


end
