(* ===== verification/Task_Effects.thy ===== *)
theory Task_Effects
  imports Dispatch_Tick Dispatch_Store
begin

text \<open>
  The activities by which a run of the agent workflow changes the world around it,
  \<open>internal/temporal/task_activities.go\<close>, and what the events of a whole run do together.

  \<^item> The state holds the task graph, the store's tables of dispatches, health events and escalations (present when
    the worker has a store), the morsel files by directory and task, the git commands that were run, and the messages
    that were sent.
  \<^item> Whether a statement of the store, a file write, a git command or a message fails is given by the
    environment of the activities, \<open>fx_env\<close>; so are the durations, which the model of the workflow leaves out. One
    reading of the clock stands for the whole run.
  \<^item> The regular expressions of the front matter are a scanner over bytes; as in RE2, white space between
    the colon and the word may span lines, and the rest of the line is replaced.
\<close>

section \<open>State\<close>

record escalation_row =
  es_MorselID :: string
  es_Project :: string
  es_FailedProvider :: string
  es_FailedTier :: string
  es_FailureReason :: string
  es_EscalatedTo :: string
  es_EscalatedTier :: string
  es_EscalatedResult :: string

record fx_store_tables =
  fs_dispatches :: dispatch_db
  fs_health :: "health_event list"
  fs_escalations :: "escalation_row list"

record fx_state =
  fx_dag :: "dag_db option"
  fx_store :: "fx_store_tables option"
  fx_files :: "string \<times> string \<Rightarrow> string option"
  fx_git :: "string list list"
  fx_sent :: "(string \<times> string) list"

record fx_env =
  fe_json :: "string \<Rightarrow> string list option"
  fe_broken :: "string \<Rightarrow> bool"
  fe_writable :: "string \<times> string \<Rightarrow> bool"
  fe_git_ok :: "string list \<Rightarrow> bool"
  fe_admin_room :: "string option"
  fe_duration :: rat
  fe_step_timing :: "string \<Rightarrow> rat \<times> bool"
  fe_now :: int

text \<open>A statement whose failure is only logged.\<close>

definition best_effort :: "fx_env \<Rightarrow> string \<Rightarrow> ('a \<Rightarrow> 'a) \<Rightarrow> 'a \<Rightarrow> 'a" where
  "best_effort fe name f x = (if fe_broken fe name then x else f x)"

section \<open>Status lines of morsel files\<close>

definition re_space :: "char \<Rightarrow> bool" where
  "re_space c = (c = CHR 0x20 \<or> c = CHR 0x09 \<or> c = CHR 0x0A \<or> c = CHR 0x0C \<or> c = CHR 0x0D)"

definition word_char :: "char \<Rightarrow> bool" where
  "word_char c = ((CHR ''0'' \<le> c \<and> c \<le> CHR ''9'') \<or> (CHR ''A'' \<le> c \<and> c \<le> CHR ''Z'') \<or>
     (CHR ''a'' \<le> c \<and> c \<le> CHR ''z'') \<or> c = CHR ''_'')"

text \<open>
  \<open>status:\s*(w)\b.*$\<close> for the words \<open>w\<close>, at the start of a line: what follows the match.
\<close>

definition match_status :: "string list \<Rightarrow> string \<Rightarrow> string option" where
  "match_status ws s =
     (if \<not> has_prefix s ''status:'' then None
      else let r = dropWhile re_space (drop 7 s)
           in map_option (\<lambda>w. dropWhile (\<lambda>c. c \<noteq> CHR 0x0A) (drop (length w) r))
                (find (\<lambda>w. has_prefix r w \<and> (case drop (length w) r of [] \<Rightarrow> True | c # _ \<Rightarrow> \<not> word_char c)) ws))"

lemma match_status_shorter: "match_status ws s = Some r \<Longrightarrow> length r < length s"
proof -
  assume a: "match_status ws s = Some r"
  then have p: "has_prefix s ''status:''" by (auto simp: match_status_def split: if_splits)
  let ?r = "dropWhile re_space (drop 7 s)"
  have "\<exists>w :: string. r = dropWhile (\<lambda>c. c \<noteq> CHR 0x0A) (drop (length w) ?r)"
    using a p by (auto simp: match_status_def Let_def simp del: drop_eq_Nil)
  then obtain w :: string where r: "r = dropWhile (\<lambda>c. c \<noteq> CHR 0x0A) (drop (length w) ?r)" ..
  have "length r \<le> length (dropWhile re_space (drop 7 s))" unfolding r
    using length_dropWhile_le [of "\<lambda>c. c \<noteq> CHR 0x0A" "drop (length w) (dropWhile re_space (drop 7 s))"] by simp
  also have "\<dots> \<le> length s - 7" using length_dropWhile_le [of re_space "drop 7 s"] by simp
  finally show ?thesis using p by (cases s) (auto simp: has_prefix_def)
qed

function (sequential) replace_status :: "string list \<Rightarrow> string \<Rightarrow> bool \<Rightarrow> string \<Rightarrow> string" where
  "replace_status ws line bol [] = []"
| "replace_status ws line bol (c # cs) =
     (case (if bol then match_status ws (c # cs) else None) of
        Some rest \<Rightarrow> line @ replace_status ws line False rest
      | None \<Rightarrow> c # replace_status ws line (c = CHR 0x0A) cs)"
  by pat_completeness auto

termination
  by (relation "measure (\<lambda>(ws, line, bol, s). length s)") (auto dest: match_status_shorter split: if_splits)

section \<open>Activities\<close>

definition CloseTaskActivity :: "fx_env \<Rightarrow> string \<Rightarrow> string \<Rightarrow> fx_state \<Rightarrow> fx_state" where
  "CloseTaskActivity fe taskID finalStatus st =
     (case fx_dag st of None \<Rightarrow> st
      | Some db \<Rightarrow> (case UpdateTask (fe_json fe) (Some db) taskID [(''status'', VString finalStatus)] (fe_now fe) of
           Inl _ \<Rightarrow> st
         | Inr db' \<Rightarrow> st\<lparr>fx_dag := Some db'\<rparr>))"

definition run_git :: "string list \<Rightarrow> fx_state \<Rightarrow> fx_state" where
  "run_git cmd st = st\<lparr>fx_git := fx_git st @ [cmd]\<rparr>"

definition morsel_path :: "string \<times> string \<Rightarrow> string" where
  "morsel_path f = fst f @ ''/.morsels/'' @ snd f @ ''.md''"

definition MarkMorselDoneActivity :: "fx_env \<Rightarrow> string \<Rightarrow> string \<Rightarrow> fx_state \<Rightarrow> fx_state" where
  "MarkMorselDoneActivity fe workDir taskID st =
     (let morselPath = (workDir, taskID)
      in case fx_files st morselPath of
           None \<Rightarrow> st
         | Some content \<Rightarrow>
             (let updated = replace_status [''ready''] ''status: done'' True content;
                  addCmd = [''add'', morsel_path morselPath];
                  commitCmd = [''commit'', ''-m'', ''chore: mark morsel '' @ taskID @ '' as done'']
              in if updated = content then st
                 else if \<not> fe_writable fe morselPath then st
                 else let st1 = run_git addCmd (st\<lparr>fx_files := (fx_files st)(morselPath \<mapsto> updated)\<rparr>)
                      in if \<not> fe_git_ok fe addCmd then st1 else run_git commitCmd st1))"

text \<open>The loop over the promoted tasks: the paths to commit and the files as rewritten.\<close>

definition unblock_file ::
  "fx_env \<Rightarrow> string \<Rightarrow> string \<Rightarrow> (string \<times> string) list \<times> fx_state \<Rightarrow> (string \<times> string) list \<times> fx_state" where
  "unblock_file fe workDir taskID acc =
     (case acc of (gitPaths, st) \<Rightarrow>
        (case fx_files st (workDir, taskID) of
           None \<Rightarrow> (gitPaths, st)
         | Some content \<Rightarrow>
             (let updated = replace_status [''open'', ''blocked''] ''status: ready'' True content
              in if updated = content then (gitPaths, st)
                 else if \<not> fe_writable fe (workDir, taskID) then (gitPaths, st)
                 else (gitPaths @ [(workDir, taskID)], st\<lparr>fx_files := (fx_files st)((workDir, taskID) \<mapsto> updated)\<rparr>))))"

definition UnblockDependentsActivity :: "fx_env \<Rightarrow> string \<Rightarrow> string \<Rightarrow> fx_state \<Rightarrow> string list \<times> fx_state" where
  "UnblockDependentsActivity fe workDir completedTaskID st =
     (case fx_dag st of None \<Rightarrow> ([], st)
      | Some db \<Rightarrow>
          (case AutoUnblockDependents (fe_json fe) (Some db) completedTaskID (fe_now fe) of
             Inl _ \<Rightarrow> ([], st)
           | Inr (promotedIDs, db') \<Rightarrow>
               (let st0 = st\<lparr>fx_dag := Some db'\<rparr>
                in if promotedIDs = [] then ([], st0)
                   else case fold (unblock_file fe workDir) promotedIDs ([], st0) of (gitPaths, st1) \<Rightarrow>
                     (if gitPaths = [] then (promotedIDs, st1)
                      else let addCmd = ''add'' # map morsel_path gitPaths;
                               commitCmd = [''commit'', ''-m'', ''chore: auto-unblock '' @ show_int (int (length gitPaths)) @
                                            '' morsels after '' @ completedTaskID @ '' completed''];
                               st2 = run_git addCmd st1
                           in if \<not> fe_git_ok fe addCmd then (promotedIDs, st2)
                              else (promotedIDs, run_git commitCmd st2)))))"

text \<open>The statements on the new dispatch; each one alone is best effort.\<close>

definition diagnose :: "fx_env \<Rightarrow> outcome_record \<Rightarrow> int \<Rightarrow> dispatch_db \<Rightarrow> dispatch_db" where
  "diagnose fe oc dispatchID db =
     (if \<not> oc_DoDPassed oc \<and> oc_DoDFailures oc \<noteq> [] then
        (case classifyFailure (oc_DoDFailures oc) of (category, summary) \<Rightarrow>
           if category \<noteq> [] then best_effort fe ''diagnosis'' (UpdateFailureDiagnosis dispatchID category summary) db
           else db)
      else db)"

definition outcome_statements :: "fx_env \<Rightarrow> outcome_record \<Rightarrow> int \<Rightarrow> dispatch_db \<Rightarrow> dispatch_db" where
  "outcome_statements fe oc dispatchID db0 =
     (let db1 = best_effort fe ''status'' (UpdateDispatchStatus dispatchID (oc_Status oc) (oc_ExitCode oc) (fe_duration fe) (fe_now fe)) db0;
          db2 = best_effort fe ''dod''
                  (RecordDoDResult dispatchID (oc_TaskID oc) (oc_Project oc) (oc_DoDPassed oc) (oc_DoDFailures oc) []) db1;
          db3 = diagnose fe oc dispatchID db2;
          db4 = best_effort fe ''cost'' (RecordDispatchCost dispatchID (tu_Input (oc_TotalTokens oc))
                  (tu_Output (oc_TotalTokens oc)) (tu_Cost (oc_TotalTokens oc))) db3;
          db5 = fold (\<lambda>a. best_effort fe ''tokens'' (StoreTokenUsage
                  \<lparr>us_DispatchID = dispatchID, us_MorselID = oc_TaskID oc, us_Project = oc_Project oc,
                   us_ActivityName = at_Name a, us_Agent = at_Agent a, us_InputTokens = tu_Input (at_Tokens a),
                   us_OutputTokens = tu_Output (at_Tokens a), us_CacheReadTokens = tu_CacheRead (at_Tokens a),
                   us_CacheCreationTokens = tu_CacheCreation (at_Tokens a), us_CostUSD = tu_Cost (at_Tokens a)\<rparr>))
                  (oc_ActivityTokens oc) db4
      in fold (\<lambda>step. best_effort fe ''steps'' (StoreStepMetric
           \<lparr>sm_DispatchID = dispatchID, sm_MorselID = oc_TaskID oc, sm_Project = oc_Project oc, sm_StepName = fst step,
            sm_DurationS = fst (fe_step_timing fe (fst step)), sm_Status = snd step, sm_Slow = snd (fe_step_timing fe (fst step))\<rparr>))
           (oc_Steps oc) db5)"

definition outcome_args :: "outcome_record \<Rightarrow> dispatch_args" where
  "outcome_args oc =
     \<lparr>da_morselID = oc_TaskID oc, da_project = oc_Project oc, da_agent = oc_Agent oc, da_provider = oc_Provider oc,
      da_tier = ''temporal'', da_handle = 0, da_sessionName = [], da_prompt = [], da_logPath = [], da_branch = [],
      da_backend = ''temporal''\<rparr>"

text \<open>
  The activity. The task is closed between the diagnosis and the costs; it concerns another table, so it is written once.
\<close>

definition RecordOutcomeActivity :: "fx_env \<Rightarrow> outcome_record \<Rightarrow> fx_state \<Rightarrow> (string, unit) result \<times> fx_state" where
  "RecordOutcomeActivity fe oc st =
     (case fx_store st of
        None \<Rightarrow> (Inr (), st)
      | Some tables \<Rightarrow>
          if fe_broken fe ''record'' then (Inl ''store: record dispatch'', st)
          else
          (case RecordDispatch (outcome_args oc) (fe_now fe) (fs_dispatches tables) of
             (dispatchID, db0) \<Rightarrow>
               (let dag = (if oc_DoDPassed oc then
                             (case fx_dag st of None \<Rightarrow> None
                              | Some d \<Rightarrow> (case CloseTask (fe_json fe) (Some d) (oc_TaskID oc) (fe_now fe) of
                                             Inl _ \<Rightarrow> Some d | Inr d' \<Rightarrow> Some d'))
                           else fx_dag st)
                in (Inr (), st\<lparr>fx_dag := dag, fx_store := Some (tables\<lparr>fs_dispatches := outcome_statements fe oc dispatchID db0\<rparr>)\<rparr>))))"

record escalation_request =
  er_TaskID :: string
  er_Project :: string
  er_PlanSummary :: string
  er_Failures :: "string list"
  er_AttemptCount :: int
  er_HandoffCount :: int

definition last_failures :: "string list \<Rightarrow> string list" where
  "last_failures fs = (if length fs > 3 then drop (length fs - 3) fs else fs)"

definition siren :: string where
  "siren = [CHR 0xF0, CHR 0x9F, CHR 0x9A, CHR 0xA8]"

definition em_dash :: string where
  "em_dash = [CHR 0xE2, CHR 0x80, CHR 0x94]"

definition escalation_message :: "escalation_request \<Rightarrow> string" where
  "escalation_message er =
     siren @ '' **ESCALATION REQUIRED** '' @ em_dash @ '' `'' @ er_TaskID er @ ''` (`'' @ er_Project er @ ''`)'' @ nl @ nl @
     ''All '' @ show_int (er_AttemptCount er) @ '' attempts exhausted across the entire escalation chain.'' @ nl @ nl @
     ''**Recent failures:**'' @ nl @ ''```'' @ nl @ join_with nl (last_failures (er_Failures er)) @ nl @ ''```'' @ nl @ nl @
     ''**Plan summary:** '' @ truncate_str (er_PlanSummary er) 200 @ nl @ nl @
     ''**Action needed:** This task likely requires human intervention '' @
     ''(e.g. manual credential rotation, external service config, infrastructure change). '' @
     ''Please review the failures above, diagnose the root cause, and either:'' @ nl @
     ''1. Fix the underlying issue and re-queue the morsel'' @ nl @
     ''2. Close the morsel if it'' @ [CHR 0x27] @ ''s no longer relevant'' @ nl @
     ''3. Decompose it into smaller tasks that the sharks can handle''"

definition EscalateActivity :: "fx_env \<Rightarrow> escalation_request \<Rightarrow> fx_state \<Rightarrow> fx_state" where
  "EscalateActivity fe er st =
     (let details = ''Task '' @ er_TaskID er @ '' failed after '' @ show_int (er_AttemptCount er) @ '' attempts and '' @
            show_int (er_HandoffCount er) @ '' handoffs. Failures: '' @ join_with ''; '' (er_Failures er);
          st1 = (case fx_store st of None \<Rightarrow> st
                 | Some tables \<Rightarrow> st\<lparr>fx_store := Some (best_effort fe ''health''
                     (\<lambda>t. t\<lparr>fs_health := RecordHealthEvent ''escalation_required'' details (fe_now fe) (fs_health t)\<rparr>) tables)\<rparr>)
      in case fe_admin_room fe of
           None \<Rightarrow> st1
         | Some room \<Rightarrow> if room = [] then st1 else st1\<lparr>fx_sent := fx_sent st1 @ [(room, escalation_message er)]\<rparr>)"

record escalation_event =
  ee_MorselID :: string
  ee_Project :: string
  ee_FailedProvider :: string
  ee_FailedTier :: string
  ee_EscalatedTo :: string
  ee_EscalatedTier :: string

definition RecordEscalationActivity :: "escalation_event \<Rightarrow> fx_state \<Rightarrow> fx_state" where
  "RecordEscalationActivity evt st =
     (case fx_store st of None \<Rightarrow> st
      | Some tables \<Rightarrow> st\<lparr>fx_store := Some (tables\<lparr>fs_escalations := fs_escalations tables @
          [\<lparr>es_MorselID = ee_MorselID evt, es_Project = ee_Project evt, es_FailedProvider = ee_FailedProvider evt,
            es_FailedTier = ee_FailedTier evt, es_FailureReason = ''exhausted_retries'', es_EscalatedTo = ee_EscalatedTo evt,
            es_EscalatedTier = ee_EscalatedTier evt, es_EscalatedResult = ''pending''\<rparr>]\<rparr>)\<rparr>)"


section \<open>The effects of a run\<close>

text \<open>
  What an event of the workflow does when its activity runs; the other events leave this state alone.
\<close>

fun effect :: "fx_env \<Rightarrow> task_request \<Rightarrow> string \<Rightarrow> wf_event \<Rightarrow> fx_state \<Rightarrow> fx_state" where
  "effect fe req summary (CloseTaskCall status) st = CloseTaskActivity fe (tr_TaskID req) status st"
| "effect fe req summary MarkMorselDone st = MarkMorselDoneActivity fe (tr_WorkDir req) (tr_TaskID req) st"
| "effect fe req summary UnblockDependents st = snd (UnblockDependentsActivity fe (tr_WorkDir req) (tr_TaskID req) st)"
| "effect fe req summary (RecordOutcome oc) st = snd (RecordOutcomeActivity fe oc st)"
| "effect fe req summary (EscalateCall attempts failures) st =
     EscalateActivity fe \<lparr>er_TaskID = tr_TaskID req, er_Project = tr_Project req, er_PlanSummary = summary,
       er_Failures = failures, er_AttemptCount = attempts, er_HandoffCount = 0\<rparr> st"
| "effect fe req summary (RecordFailure failures) st =
     (case RecordFailureActivity (fe_json fe) (fx_dag st) (tr_TaskID req) failures (fe_now fe) of
        Inl _ \<Rightarrow> st | Inr d \<Rightarrow> st\<lparr>fx_dag := d\<rparr>)"
| "effect fe req summary _ st = st"

definition run_effects :: "fx_env \<Rightarrow> wf_env \<Rightarrow> task_request \<Rightarrow> fx_state \<Rightarrow> fx_state" where
  "run_effects fe env req st =
     (case ChumAgentWorkflow env req of (res, s) \<Rightarrow>
        fold (effect fe req (sp_Summary (ws_plan s))) (ws_events s) st)"

text \<open>Their effect on the task graph alone; whether the store is there and works decides if an outcome closes the task.\<close>

fun dag_effect :: "fx_env \<Rightarrow> string \<Rightarrow> bool \<Rightarrow> wf_event \<Rightarrow> dag_db \<Rightarrow> dag_db" where
  "dag_effect fe i stored (CloseTaskCall status) db =
     (case set_status (fe_json fe) (Some db) i status (fe_now fe) of Inl _ \<Rightarrow> db | Inr db' \<Rightarrow> db')"
| "dag_effect fe i stored UnblockDependents db =
     (case AutoUnblockDependents (fe_json fe) (Some db) i (fe_now fe) of Inl _ \<Rightarrow> db | Inr (ps, db') \<Rightarrow> db')"
| "dag_effect fe i stored (RecordOutcome oc) db =
     (if stored \<and> oc_DoDPassed oc then
        (case CloseTask (fe_json fe) (Some db) (oc_TaskID oc) (fe_now fe) of Inl _ \<Rightarrow> db | Inr db' \<Rightarrow> db')
      else db)"
| "dag_effect fe i stored (RecordFailure failures) db =
     (if failures = [] then db
      else case UpdateTask (fe_json fe) (Some db) i [(''error_log'', VString (failure_scent failures))] (fe_now fe) of
             Inl _ \<Rightarrow> db | Inr db' \<Rightarrow> db')"
| "dag_effect fe i stored _ db = db"

lemma unblock_file_frame:
  "fx_dag (snd (fold (unblock_file fe wd) ps acc)) = fx_dag (snd acc)"
  "fx_store (snd (fold (unblock_file fe wd) ps acc)) = fx_store (snd acc)"
  by (induction ps arbitrary: acc) (auto simp: unblock_file_def Let_def split: prod.splits option.splits)

lemma UnblockDependents_frame:
  "fx_dag st = Some db \<Longrightarrow> fx_dag (snd (UnblockDependentsActivity fe wd i st)) = Some (dag_effect fe i stored UnblockDependents db)"
  "fx_store (snd (UnblockDependentsActivity fe wd i st)) = fx_store st"
  using unblock_file_frame [of fe wd _ "([], _)"]
  by (auto simp: UnblockDependentsActivity_def run_git_def Let_def split: option.splits sum.splits prod.splits)
     (metis fx_state.select_convs fx_state.surjective fx_state.update_convs snd_conv)+


definition stored :: "fx_env \<Rightarrow> fx_state \<Rightarrow> bool" where
  "stored fe st \<longleftrightarrow> fx_store st \<noteq> None \<and> \<not> fe_broken fe ''record''"

lemma RecordOutcome_frame:
  "fx_dag st = Some db \<Longrightarrow>
     fx_dag (snd (RecordOutcomeActivity fe oc st)) = Some (dag_effect fe i (stored fe st) (RecordOutcome oc) db)"
  "stored fe (snd (RecordOutcomeActivity fe oc st)) = stored fe st"
  by (auto simp: RecordOutcomeActivity_def stored_def Let_def split: option.splits sum.splits prod.splits)

lemma EscalateActivity_frame:
  "fx_dag (EscalateActivity fe er st) = fx_dag st" "stored fe (EscalateActivity fe er st) = stored fe st"
  by (auto simp: EscalateActivity_def stored_def Let_def split: option.splits)

lemma MarkMorselDone_frame:
  "fx_dag (MarkMorselDoneActivity fe wd i st) = fx_dag st" "stored fe (MarkMorselDoneActivity fe wd i st) = stored fe st"
  by (auto simp: MarkMorselDoneActivity_def stored_def run_git_def Let_def split: option.splits)

lemma CloseTask_frame:
  "fx_dag st = Some db \<Longrightarrow> fx_dag (CloseTaskActivity fe i status st) = Some (dag_effect fe i sto (CloseTaskCall status) db)"
  "stored fe (CloseTaskActivity fe i status st) = stored fe st"
  by (auto simp: CloseTaskActivity_def set_status_def stored_def split: option.splits sum.splits)

lemma effect_dag:
  assumes "fx_dag st = Some db"
  shows "fx_dag (effect fe req sm e st) = Some (dag_effect fe (tr_TaskID req) (stored fe st) e db) \<and>
    stored fe (effect fe req sm e st) = stored fe st"
proof (cases e)
  case (RecordFailure fs)
  then show ?thesis using assms
    by (auto simp: RecordFailureActivity_def stored_def split: sum.splits)
next
  case UnblockDependents
  then show ?thesis using UnblockDependents_frame(1) [OF assms] UnblockDependents_frame(2) [of fe _ _ st] by (simp add: stored_def)
next
  case (CloseTaskCall status)
  then show ?thesis using CloseTask_frame(1) [OF assms] by (simp add: CloseTask_frame(2))
next
  case (RecordOutcome oc)
  then show ?thesis using RecordOutcome_frame(1) [OF assms, of fe oc "tr_TaskID req"]
    by (simp add: RecordOutcome_frame(2) del: dag_effect.simps)
qed (use assms in \<open>simp_all add: EscalateActivity_frame MarkMorselDone_frame\<close>)

lemma dag_effect_final: "\<not> is_final e \<Longrightarrow> dag_effect fe i sto e db = db"
  by (cases e) simp_all

lemma fold_effect_dag:
  assumes "fx_dag st = Some db"
  shows "fx_dag (fold (effect fe req sm) es st) = Some (fold (dag_effect fe (tr_TaskID req) (stored fe st)) (filter is_final es) db)"
  using assms
proof (induction es arbitrary: st db)
  case (Cons e es)
  from effect_dag [OF Cons.prems, of fe req sm e] have
    "fx_dag (effect fe req sm e st) = Some (dag_effect fe (tr_TaskID req) (stored fe st) e db)"
    "stored fe (effect fe req sm e st) = stored fe st" by simp_all
  then show ?case using Cons.IH by (simp add: dag_effect_final)
qed simp

text \<open>The graph after a run is the graph after the settling events of the run.\<close>

lemma run_effects_dag:
  assumes "ChumAgentWorkflow env req = (res, s)" and "fx_dag st = Some db"
  shows "fx_dag (run_effects fe env req st) =
    Some (fold (dag_effect fe (tr_TaskID req) (stored fe st)) (finals s) db)"
  using assms by (simp add: run_effects_def fold_effect_dag finals_def)

section \<open>Status changes of one task\<close>

definition with_status :: "string \<Rightarrow> string \<Rightarrow> int \<Rightarrow> dag_db \<Rightarrow> dag_db" where
  "with_status i status now db = db\<lparr>db_tasks := update_where (\<lambda>t. task_ID t = i)
     (\<lambda>t. t\<lparr>task_Status := status, task_UpdatedAt := now\<rparr>) (db_tasks db)\<rparr>"

lemma with_status_lookup:
  "lookup_row (with_status i status now db) j =
     (if j = i then map_option (\<lambda>t. t\<lparr>task_Status := status, task_UpdatedAt := now\<rparr>) (lookup_row db i) else lookup_row db j)"
  unfolding with_status_def by (rule lookup_update) simp

lemma with_status_edges [simp]: "db_edges (with_status i status now db) = db_edges db"
  by (simp add: with_status_def)

lemma set_status_plain:
  assumes "lookup_row db i = Some t" and "trim_space i = i" and "i \<noteq> []"
    and "normalizeTaskStatus status = status" and "status \<noteq> ''ready''"
  shows "set_status json (Some db) i status now = Inr (with_status i status now db)"
  using assms by (simp add: set_status_eq update_row_def with_status_def)

lemma dag_inv_set_status:
  "dag_inv db \<Longrightarrow> set_status json (Some db) i status now = Inr db' \<Longrightarrow> dag_inv db'"
  unfolding set_status_def by (rule dag_inv_UpdateTask)

lemma run_statuses [simp]:
  "normalizeTaskStatus ''completed'' = ''completed''" "normalizeTaskStatus ''closed'' = ''closed''"
  "normalizeTaskStatus ''plan_failed'' = ''plan_failed''" "isClosedTask ''completed''" "isClosedTask ''closed''"
  "isClosedTask ''plan_failed''"
  by code_simp+


lemma dag_inv_with_status:
  "dag_inv db \<Longrightarrow> normalizeTaskStatus status = status \<Longrightarrow> dag_inv (with_status i status now db)"
  unfolding with_status_def by (rule dag_inv_update) (auto simp: row_ok_def)

lemma run_ready: "normalizeTaskStatus ''ready'' = ''ready''"
  by code_simp

text \<open>The dependents that the completion of \<open>i\<close> frees: open, with every other dependency already closed.\<close>

definition freed_by :: "dag_db \<Rightarrow> string \<Rightarrow> string \<Rightarrow> bool" where
  "freed_by db i j \<longleftrightarrow> (j, i) \<in> set (db_edges db) \<and> (\<exists>u. lookup_row db j = Some u \<and> task_Status u = ''open'') \<and>
     (\<forall>d. (j, d) \<in> set (db_edges db) \<longrightarrow> d = i \<or> (\<exists>u. lookup_row db d = Some u \<and> isClosedTask (task_Status u)))"

lemma unblock_after_close:
  fixes now :: int
  assumes "dag_inv db" and "lookup_row db i = Some t"
  defines "db1 \<equiv> with_status i ''completed'' now db"
  shows "\<exists>ps db2. AutoUnblockDependents json (Some db1) i now = Inr (ps, db2) \<and> dag_inv db2 \<and> db_edges db2 = db_edges db \<and>
    lookup_row db2 i = lookup_row db1 i \<and>
    (\<forall>j. j \<noteq> i \<longrightarrow> lookup_row db2 j = (if freed_by db i j
       then map_option (\<lambda>t. t\<lparr>task_Status := ''ready'', task_UpdatedAt := now\<rparr>) (lookup_row db j) else lookup_row db j))"
proof -
  have inv1: "dag_inv db1" unfolding db1_def using assms(1) by (rule dag_inv_with_status) simp
  have e1: "db_edges db1 = db_edges db" by (simp add: db1_def)
  let ?ps = "filter (promotable db1) (sort (map fst (filter (\<lambda>e. snd e = i) (db_edges db1))))"
  have u: "AutoUnblockDependents json (Some db1) i now = Inr (?ps, fold (promote now) ?ps db1)"
    by (rule AutoUnblock_eq [OF inv1 row_id [OF assms(1,2)]])
  have i: "i \<notin> set ?ps" using assms(2) by (auto simp: promotable_def db1_def with_status_lookup)
  have "j \<in> set ?ps \<longleftrightarrow> freed_by db i j" if "j \<noteq> i" for j
  proof -
    have c: "(\<exists>u. lookup_row db1 d = Some u \<and> isClosedTask (task_Status u)) \<longleftrightarrow>
        d = i \<or> (\<exists>u. lookup_row db d = Some u \<and> isClosedTask (task_Status u))" for d
      using assms(2) by (auto simp: db1_def with_status_lookup)
    have "j \<in> set ?ps \<longleftrightarrow> (j, i) \<in> set (db_edges db) \<and> promotable db1 j" by (force simp: e1)
    moreover have "lookup_row db1 j = lookup_row db j" using that by (simp add: db1_def with_status_lookup)
    ultimately show ?thesis
      by (simp only: promotable_def blocking_deps_Nil [OF inv1] freed_by_def e1 c)
  qed
  then show ?thesis using u i dag_inv_fold_promote [OF inv1, of now ?ps] e1
    by (intro exI [of _ ?ps] exI [of _ "fold (promote now) ?ps db1"])
       (auto simp: lookup_fold_promote db1_def with_status_lookup)
qed

lemma error_log_key: "trim_space (to_lower ''error_log'') = ''error_log''"
  by code_simp

lemma record_failure_frame:
  assumes "dag_inv db" and "lookup_row db i = Some t"
  shows "\<exists>db'. dag_effect fe i sto (RecordFailure fs) db = db' \<and> dag_inv db' \<and> db_edges db' = db_edges db \<and>
    map_option task_Status (lookup_row db' i) = Some (task_Status t) \<and> (\<forall>j. j \<noteq> i \<longrightarrow> lookup_row db' j = lookup_row db j)"
proof -
  have i: "trim_space i = i" "i \<noteq> []" using row_id [OF assms] .
  show ?thesis
  proof (cases "UpdateTask (fe_json fe) (Some db) i [(''error_log'', VString (failure_scent fs))] (fe_now fe)")
    case (Inl e)
    then show ?thesis using assms by simp
  next
    case (Inr db')
    have "\<exists>x. db' = db\<lparr>db_tasks := update_where (\<lambda>t. task_ID t = i)
        (\<lambda>t. t\<lparr>task_ErrorLog := x, task_UpdatedAt := fe_now fe\<rparr>) (db_tasks db)\<rparr>"
      using Inr i assms(2)
      by (auto simp: UpdateTask_def update_row_def error_log_key Let_def updatableColumns_def text_columns_def field_assignment_def
          type_column_def split: if_splits sum.splits)
    then show ?thesis using assms Inr dag_inv_UpdateTask [OF assms(1) Inr]
      by (auto simp: lookup_update)
  qed
qed


text \<open>The graph after the settling events of each kind of exit.\<close>

definition settled :: "dag_db \<Rightarrow> string \<Rightarrow> string \<Rightarrow> (string \<Rightarrow> bool) \<Rightarrow> int \<Rightarrow> dag_db \<Rightarrow> bool" where
  "settled db i status freed now db' \<longleftrightarrow>
     dag_inv db' \<and> db_edges db' = db_edges db \<and> map_option task_Status (lookup_row db' i) = Some status \<and>
     (\<forall>j. j \<noteq> i \<longrightarrow> lookup_row db' j = (if freed j
        then map_option (\<lambda>t. t\<lparr>task_Status := ''ready'', task_UpdatedAt := now\<rparr>) (lookup_row db j) else lookup_row db j))"

lemma close_status:
  assumes "dag_inv db" and "lookup_row db i = Some t" and "normalizeTaskStatus status = status" and "status \<noteq> ''ready''"
  shows "dag_effect fe i sto (CloseTaskCall status) db = with_status i status (fe_now fe) db"
  using set_status_plain [OF assms(2) row_id [OF assms(1,2)] assms(3,4)] by simp

lemma outcome_status:
  assumes "dag_inv db" and "lookup_row db i = Some t" and "oc_TaskID oc = i"
  shows "dag_effect fe i sto (RecordOutcome oc) db =
    (if sto \<and> oc_DoDPassed oc then with_status i ''closed'' (fe_now fe) db else db)"
  using set_status_plain [OF assms(2) row_id [OF assms(1,2)], of "''closed''"] assms(3) by (simp add: CloseTask_def)

lemma settled_close:
  assumes "settled db i st freed now db1" and "normalizeTaskStatus status = status"
  shows "settled db i status freed now (with_status i status now' db1)"
  using assms dag_inv_with_status [of db1 status i now']
  by (cases "lookup_row db1 i") (auto simp: settled_def with_status_lookup)

lemma settled_refl: "dag_inv db \<Longrightarrow> lookup_row db i = Some t \<Longrightarrow> settled db i (task_Status t) (\<lambda>_. False) now db"
  by (simp add: settled_def)

lemma completed_settles:
  assumes "dag_inv db" and "lookup_row db i = Some t" and "completed_finals req wt es" and "i = tr_TaskID req"
  shows "settled db i (if sto then ''closed'' else if tr_ExplosionID req = [] then ''completed'' else task_Status t)
    (\<lambda>j. tr_ExplosionID req = [] \<and> freed_by db i j) (fe_now fe) (fold (dag_effect fe i sto) es db)"
proof -
  obtain oc where oc: "oc_TaskID oc = i" "oc_DoDPassed oc"
    and es: "es = (if tr_ExplosionID req \<noteq> [] then [RecordOutcome oc]
        else [CloseTaskCall ''completed'', UnblockDependents, RecordOutcome oc, MergeToMain (''chum/'' @ tr_TaskID req)] @
             (if wt = [] then [] else [CleanupWorktree wt]))"
    using assms(3,4) unfolding completed_finals_def completed_outcome_def by blast
  show ?thesis
  proof (cases "tr_ExplosionID req = []")
    case False
    then show ?thesis
      using outcome_status [OF assms(1,2) oc(1)] oc(2) settled_refl [OF assms(1,2)]
        settled_close [OF settled_refl [OF assms(1,2)], of "''closed''"]
      by (simp add: es del: dag_effect.simps)
  next
    case True
    let ?db1 = "with_status i ''completed'' (fe_now fe) db"
    obtain ps db2 where u: "AutoUnblockDependents (fe_json fe) (Some ?db1) i (fe_now fe) = Inr (ps, db2)" and inv2: "dag_inv db2"
      and l2: "lookup_row db2 i = lookup_row ?db1 i" and e2: "db_edges db2 = db_edges db"
      and j2: "\<forall>j. j \<noteq> i \<longrightarrow> lookup_row db2 j = (if freed_by db i j
        then map_option (\<lambda>t. t\<lparr>task_Status := ''ready'', task_UpdatedAt := fe_now fe\<rparr>) (lookup_row db j) else lookup_row db j)"
      using unblock_after_close [OF assms(1,2)] by blast
    have t2: "\<exists>t2. lookup_row db2 i = Some t2 \<and> task_Status t2 = ''completed''"
      using l2 assms(2) by (simp add: with_status_lookup)
    then obtain t2 where t2: "lookup_row db2 i = Some t2" "task_Status t2 = ''completed''" by blast
    have s2: "settled db i ''completed'' (freed_by db i) (fe_now fe) db2"
      unfolding settled_def using inv2 e2 t2 j2 by simp
    have "fold (dag_effect fe i sto) es db = dag_effect fe i sto (RecordOutcome oc) db2"
      using True close_status [OF assms(1,2), of "''completed''" fe sto] u by (simp add: es)
    also have "\<dots> = (if sto then with_status i ''closed'' (fe_now fe) db2 else db2)"
      using outcome_status [OF inv2 t2(1) oc(1)] oc(2) by (simp del: dag_effect.simps)
    finally show ?thesis using s2 True by (simp add: settled_close)
  qed
qed

definition unblocked :: "dag_db \<Rightarrow> string \<Rightarrow> bool" where
  "unblocked db i \<longleftrightarrow>
     (\<forall>d. (i, d) \<in> set (db_edges db) \<longrightarrow> (\<exists>u. lookup_row db d = Some u \<and> isClosedTask (task_Status u)))"

lemma escalated_settles:
  assumes "dag_inv db" and "lookup_row db i = Some t" and "escalated_finals wt es"
  shows "settled db i (if unblocked db i then ''ready'' else task_Status t) (\<lambda>_. False) (fe_now fe)
    (fold (dag_effect fe i sto) es db)"
proof -
  obtain n fs oc where oc: "\<not> oc_DoDPassed oc" and es: "es = [EscalateCall n fs, CloseTaskCall ''ready'', RecordOutcome oc] @
      (if wt = [] then [] else [CleanupWorktree wt]) @ [RecordFailure fs]"
    using assms(3) by (auto simp: escalated_finals_def)
  have r: "dag_effect fe i sto (CloseTaskCall ''ready'') db =
      (if unblocked db i then with_status i ''ready'' (fe_now fe) db else db)"
    using set_ready_ok [OF assms(1,2)] set_status_eq [OF row_id [OF assms(1,2)], of "fe_json fe" db "''ready''" "fe_now fe"]
      ensureReady_ok [of db i] blocking_deps_Nil [OF assms(1), of i]
    by (auto simp: unblocked_def with_status_def split: sum.splits if_splits)
  define db1 where "db1 = dag_effect fe i sto (CloseTaskCall ''ready'') db"
  have s1: "settled db i (if unblocked db i then ''ready'' else task_Status t) (\<lambda>_. False) (fe_now fe) db1"
    using settled_close [OF settled_refl [OF assms(1,2)], of "''ready''"] settled_refl [OF assms(1,2)]
    by (simp add: db1_def r run_ready del: dag_effect.simps)
  then obtain t1 where t1: "dag_inv db1" "lookup_row db1 i = Some t1"
      "task_Status t1 = (if unblocked db i then ''ready'' else task_Status t)"
    by (auto simp: settled_def)
  have "dag_effect fe i sto (RecordOutcome oc) db1 = db1" "dag_effect fe i sto (EscalateCall n fs) db = db"
    "\<And>p. dag_effect fe i sto (CleanupWorktree p) db1 = db1" using oc by simp_all
  then have "fold (dag_effect fe i sto) es db = dag_effect fe i sto (RecordFailure fs) db1"
    by (simp add: es db1_def del: dag_effect.simps)
  then show ?thesis using record_failure_frame [OF t1(1,2), of fe sto fs] s1 t1(3)
    by (auto simp: settled_def simp del: dag_effect.simps)
qed


section \<open>Properties\<close>


definition run_dag_sample :: dag_db where
  "run_dag_sample = \<lparr>db_tasks = [sample_task ''t1'' ''ready'' 1 [], sample_task ''t2'' ''open'' 2 []], db_edges = [(''t2'', ''t1'')]\<rparr>"

definition fx_sample :: fx_state where
  "fx_sample = \<lparr>fx_dag = Some run_dag_sample,
     fx_store = Some \<lparr>fs_dispatches = empty_dispatches, fs_health = [], fs_escalations = []\<rparr>,
     fx_files = Map.empty, fx_git = [], fx_sent = []\<rparr>"

definition fe_sample :: fx_env where
  "fe_sample = \<lparr>fe_json = (\<lambda>_. None), fe_broken = (\<lambda>_. False), fe_writable = (\<lambda>_. True), fe_git_ok = (\<lambda>_. True),
     fe_admin_room = None, fe_duration = 1, fe_step_timing = (\<lambda>_. (1, False)), fe_now = 9\<rparr>"



section \<open>What is recorded\<close>

lemma GetDispatchByID_rows: "ds_rows x = ds_rows y \<Longrightarrow> GetDispatchByID i x = GetDispatchByID i y"
  by (simp add: GetDispatchByID_lookup)

lemma fold_rows: "(\<And>a x. ds_rows (f a x) = ds_rows x) \<Longrightarrow> ds_rows (fold f as x) = ds_rows x"
  by (induction "as" arbitrary: x) simp_all

lemma best_effort_rows:
  "ds_rows (best_effort fe n (StoreTokenUsage u) x) = ds_rows x" "ds_rows (best_effort fe n (StoreStepMetric sm) x) = ds_rows x"
  "ds_rows (best_effort fe n (RecordDoDResult i m p ok fs cs) x) = ds_rows x"
  by (simp_all add: best_effort_def StoreTokenUsage_def StoreStepMetric_def RecordDoDResult_def)

lemma outcome_statements_row:
  assumes "\<And>n. \<not> fe_broken fe n" and "GetDispatchByID i db = Some d" and "di_FailureCategory d = []"
  shows "\<exists>d'. GetDispatchByID i (outcome_statements fe oc i db) = Some d' \<and> di_MorselID d' = di_MorselID d \<and>
    di_Status d' = oc_Status oc \<and> di_CompletedAt d' = Some (fe_now fe) \<and> di_CostUSD d' = tu_Cost (oc_TotalTokens oc) \<and>
    di_FailureCategory d' = (if \<not> oc_DoDPassed oc then fst (classifyFailure (oc_DoDFailures oc)) else [])"
proof -
  let ?st = "\<lambda>d. d\<lparr>di_Status := oc_Status oc, di_ExitCode := oc_ExitCode oc, di_DurationS := fe_duration fe, di_CompletedAt := Some (fe_now fe)\<rparr>"
  define db1 where "db1 = best_effort fe ''status'' (UpdateDispatchStatus i (oc_Status oc) (oc_ExitCode oc) (fe_duration fe) (fe_now fe)) db"
  define db2 where "db2 = best_effort fe ''dod'' (RecordDoDResult i (oc_TaskID oc) (oc_Project oc) (oc_DoDPassed oc) (oc_DoDFailures oc) []) db1"
  define db3 where "db3 = diagnose fe oc i db2"
  define db4 where "db4 = best_effort fe ''cost'' (RecordDispatchCost i (tu_Input (oc_TotalTokens oc)) (tu_Output (oc_TotalTokens oc))
      (tu_Cost (oc_TotalTokens oc))) db3"
  have "ds_rows (outcome_statements fe oc i db) = ds_rows db4"
    unfolding outcome_statements_def Let_def db4_def db3_def db2_def db1_def
    by (subst fold_rows, rule best_effort_rows)+ (rule refl)
  then have r: "GetDispatchByID i (outcome_statements fe oc i db) = GetDispatchByID i db4" by (rule GetDispatchByID_rows)
  have "GetDispatchByID i db1 = Some (?st d)"
    using assms(1,2) by (simp add: db1_def best_effort_def UpdateDispatchStatus_def on_dispatch_lookup)
  moreover have "GetDispatchByID i db2 = GetDispatchByID i db1" by (rule GetDispatchByID_rows) (simp add: db2_def best_effort_rows)
  ultimately have d2: "GetDispatchByID i db2 = Some (?st d)" by simp
  obtain category summary where c: "classifyFailure (oc_DoDFailures oc) = (category, summary)" by force
  have "classifyFailure [] = ([], [])" by code_simp
  then have n: "oc_DoDFailures oc = [] \<Longrightarrow> category = []" using c by simp
  have "\<exists>d3. GetDispatchByID i db3 = Some d3 \<and> di_MorselID d3 = di_MorselID d \<and> di_Status d3 = oc_Status oc \<and>
      di_CompletedAt d3 = Some (fe_now fe) \<and> di_FailureCategory d3 = (if \<not> oc_DoDPassed oc then category else [])"
    using assms(1,3) d2 n by (simp add: db3_def diagnose_def best_effort_def UpdateFailureDiagnosis_def on_dispatch_lookup c)
  then show ?thesis using assms(1)
    by (auto simp: r db4_def best_effort_def RecordDispatchCost_def on_dispatch_lookup c)
qed

text \<open>
  With a working store one run leaves one dispatch, in its final status, with its cost and, when it failed, the
  class of its failure.
\<close>

lemma outcome_recorded:
  assumes "fx_store st = Some tables" and "dispatch_inv (fs_dispatches tables)" and "\<And>n. \<not> fe_broken fe n"
  shows "\<exists>tables' d. fx_store (snd (RecordOutcomeActivity fe oc st)) = Some tables' \<and>
    GetDispatchByID (ds_next (fs_dispatches tables)) (fs_dispatches tables') = Some d \<and>
    di_MorselID d = oc_TaskID oc \<and> di_Status d = oc_Status oc \<and> di_CompletedAt d = Some (fe_now fe) \<and>
    di_CostUSD d = tu_Cost (oc_TotalTokens oc) \<and>
    di_FailureCategory d = (if \<not> oc_DoDPassed oc then fst (classifyFailure (oc_DoDFailures oc)) else [])"
proof -
  let ?db = "fs_dispatches tables" and ?row = "new_dispatch (ds_next (fs_dispatches tables)) (outcome_args oc) (fe_now fe)"
  have f: "ds_next ?db \<notin> di_ID ` set (ds_rows ?db)" using assms(2) by (auto simp: dispatch_inv_def list_all_iff)
  have "di_ID ?row = ds_next ?db" by (simp add: new_dispatch_def)
  from lookup_by_append [OF f this]
  have l: "GetDispatchByID (ds_next ?db) (snd (RecordDispatch (outcome_args oc) (fe_now fe) ?db)) = Some ?row"
    by (simp add: GetDispatchByID_lookup RecordDispatch_def)
  have "di_FailureCategory ?row = []" "di_MorselID ?row = oc_TaskID oc" by (simp_all add: new_dispatch_def outcome_args_def)
  then show ?thesis
    using assms(1,3) outcome_statements_row [OF assms(3) l]
    by (simp add: RecordOutcomeActivity_def RecordDispatch_def)
qed

section \<open>Remarks on the code\<close>

text \<open>
  A success inside an explosion closes the task although the parent is to do it: the outcome is
  recorded and recording a passed check closes the task.
\<close>

lemma explosion_child_closes_task:
  assumes "ChumAgentWorkflow env req = (Inr (), s)" and "tr_ExplosionID req \<noteq> []" and "fx_dag st = Some db" and "dag_inv db"
    and "lookup_row db (tr_TaskID req) = Some t" and "stored fe st"
  shows "\<exists>db'. fx_dag (run_effects fe env req st) = Some db' \<and> map_option task_Status (lookup_row db' (tr_TaskID req)) = Some ''closed''"
proof -
  have "completed_finals req (case ev_worktree env of None \<Rightarrow> [] | Some p \<Rightarrow> p) (finals s)"
    using workflow_run [OF assms(1)] by (simp add: run_finals_def)
  from completed_settles [OF assms(4,5) this refl, of "stored fe st" fe] assms(6)
  show ?thesis by (simp add: settled_def run_effects_dag [OF assms(1,3)])
qed

text \<open>
  A task whose planning failed counts as closed, so its dependents are no longer held back by it.
\<close>

lemma failed_plan_ungates:
  assumes "dag_inv db" and "lookup_row db i = Some t"
  shows "\<exists>u. lookup_row (with_status i ''plan_failed'' now db) i = Some u \<and> isClosedTask (task_Status u)"
  using assms by (simp add: with_status_lookup)

text \<open>The status line is replaced in the body of the file too, and may be spread over lines.\<close>

lemma status_replaced_in_body:
  "replace_status [''ready''] ''status: done'' True (''---'' @ nl @ ''status: ready # x'' @ nl @ ''---'' @ nl @ ''status: ready'' @ nl) =
     ''---'' @ nl @ ''status: done'' @ nl @ ''---'' @ nl @ ''status: done'' @ nl"
  "replace_status [''ready''] ''status: done'' True (''status:'' @ nl @ ''ready'' @ nl) = ''status: done'' @ nl"
  "replace_status [''ready''] ''status: done'' True ''status: readyish'' = ''status: readyish''"
  by code_simp+

lemma replace_status_unchanged:
  "(\<And>p r. s = p @ r \<Longrightarrow> match_status ws r = None) \<Longrightarrow> replace_status ws line bol s = s"
proof (induction s arbitrary: bol)
  case (Cons c cs)
  have "match_status ws (c # cs) = None" using Cons.prems [of "[]"] by simp
  moreover have "match_status ws r = None" if "cs = p @ r" for p r using Cons.prems [of "c # p" r] that by simp
  ultimately show ?case using Cons.IH by simp
qed simp


end
