(* ===== verification/Crab_Plan.thy ===== *)
theory Crab_Plan
  imports Chum_Prelude
begin

text \<open>
  The deterministic parser of plans, \<open>internal/temporal/crab_parse.go\<close>, with the types of \<open>types.go\<close>.

  The loop over the lines is a fold over a record of its variables. \<open>render_plan\<close> is the documented format as a printer;
  it is the specification of the parser, not code of the program.
\<close>

section \<open>Plans\<close>

record scope_item =
  si_Index :: int
  si_Description :: string
  si_Completed :: bool

record parsed_plan =
  pp_Title :: string
  pp_Context :: string
  pp_ScopeItems :: "scope_item list"
  pp_AcceptanceCriteria :: "string list"
  pp_OutOfScope :: "string list"
  pp_RawMarkdown :: string

datatype plan_error = NoTitle | NoScopeItems

section \<open>Lines\<close>

definition isTitleLine :: "string \<Rightarrow> bool" where
  "isTitleLine line =
     (if has_prefix line ''# Plan:'' then True else has_prefix line ''# '' \<and> \<not> has_prefix line ''## '')"

definition extractTitle :: "string \<Rightarrow> string" where
  "extractTitle line =
     (if has_prefix line ''# Plan:'' then trim_space (trim_prefix line ''# Plan:'')
      else trim_space (trim_prefix line ''#''))"

definition parseScopeItem :: "string \<Rightarrow> int \<Rightarrow> scope_item option" where
  "parseScopeItem line index =
     (let bullet = (if has_prefix line ''- '' then Some (trim_prefix line ''- '')
                    else if has_prefix line ''* '' then Some (trim_prefix line ''* '') else None)
      in case bullet of None \<Rightarrow> None
         | Some rest \<Rightarrow>
             (let box = (if has_prefix rest ''[ ] '' \<or> rest = ''[ ]'' then Some (False, trim_prefix rest ''[ ]'')
                         else if has_prefix rest ''[x] '' \<or> rest = ''[x]'' \<or> has_prefix rest ''[X] '' \<or> rest = ''[X]''
                           then Some (True, if has_prefix rest ''[x] '' then trim_prefix rest ''[x]'' else trim_prefix rest ''[X]'')
                         else None)
              in case box of None \<Rightarrow> None
                 | Some (completed, rest') \<Rightarrow>
                     (let desc = trim_space rest'
                      in if desc = [] then None
                         else Some \<lparr>si_Index = index, si_Description = desc, si_Completed = completed\<rparr>)))"

definition parseBullet :: "string \<Rightarrow> string option" where
  "parseBullet line =
     (if has_prefix line ''- '' \<and> trim_space (trim_prefix line ''- '') \<noteq> []
        then Some (trim_space (trim_prefix line ''- ''))
      else if has_prefix line ''* '' \<and> trim_space (trim_prefix line ''* '') \<noteq> []
        then Some (trim_space (trim_prefix line ''* ''))
      else None)"

section \<open>The parser\<close>

record plan_state =
  ps_title :: string
  ps_section :: string
  ps_context :: "string list"
  ps_scope :: "scope_item list"
  ps_criteria :: "string list"
  ps_outside :: "string list"

definition plan_line :: "string \<Rightarrow> plan_state \<Rightarrow> plan_state" where
  "plan_line line s =
     (let trimmed = trim_space line
      in if ps_title s = [] \<and> isTitleLine trimmed then s\<lparr>ps_title := extractTitle trimmed\<rparr>
         else if has_prefix trimmed ''## '' then s\<lparr>ps_section := to_lower (trim_space (trim_prefix trimmed ''## ''))\<rparr>
         else if trimmed = [] then (if ps_section s = ''context'' then s\<lparr>ps_context := ps_context s @ [[]]\<rparr> else s)
         else if ps_section s = ''context'' then s\<lparr>ps_context := ps_context s @ [trimmed]\<rparr>
         else if ps_section s = ''scope'' then
           (case parseScopeItem trimmed (int (length (ps_scope s))) of
              None \<Rightarrow> s | Some item \<Rightarrow> s\<lparr>ps_scope := ps_scope s @ [item]\<rparr>)
         else if ps_section s = ''acceptance criteria'' then
           (case parseBullet trimmed of None \<Rightarrow> s | Some b \<Rightarrow> s\<lparr>ps_criteria := ps_criteria s @ [b]\<rparr>)
         else if ps_section s = ''out of scope'' then
           (case parseBullet trimmed of None \<Rightarrow> s | Some b \<Rightarrow> s\<lparr>ps_outside := ps_outside s @ [b]\<rparr>)
         else s)"

definition plan_start :: plan_state where
  "plan_start = \<lparr>ps_title = [], ps_section = [], ps_context = [], ps_scope = [], ps_criteria = [], ps_outside = []\<rparr>"

definition newline :: string where
  "newline = [CHR 0x0A]"

definition validateParsedPlan :: "parsed_plan \<Rightarrow> plan_error option" where
  "validateParsedPlan plan =
     (if trim_space (pp_Title plan) = [] then Some NoTitle
      else if pp_ScopeItems plan = [] then Some NoScopeItems else None)"

definition ParseMarkdownPlan :: "string \<Rightarrow> (plan_error, parsed_plan) result" where
  "ParseMarkdownPlan markdown =
     (let s = fold plan_line (split_on (CHR 0x0A) markdown) plan_start;
          plan = \<lparr>pp_Title = ps_title s, pp_Context = trim_space (join_with newline (ps_context s)), pp_ScopeItems = ps_scope s,
                  pp_AcceptanceCriteria = ps_criteria s, pp_OutOfScope = ps_outside s, pp_RawMarkdown = markdown\<rparr>
      in case validateParsedPlan plan of Some e \<Rightarrow> Inl e | None \<Rightarrow> Inr plan)"

section \<open>The documented format\<close>

definition checkbox :: "bool \<Rightarrow> string" where
  "checkbox completed = (if completed then ''[x] '' else ''[ ] '')"

definition render_lines :: "string \<Rightarrow> string list \<Rightarrow> (bool \<times> string) list \<Rightarrow> string list \<Rightarrow> string list \<Rightarrow> string list" where
  "render_lines title ctx items criteria outside =
     (''# Plan: '' @ title) # ''## Context'' # ctx @
     ''## Scope'' # map (\<lambda>(c, d). ''- '' @ checkbox c @ d) items @
     ''## Acceptance Criteria'' # map (\<lambda>b. ''- '' @ b) criteria @
     ''## Out of Scope'' # map (\<lambda>b. ''- '' @ b) outside"

text \<open>A text that is its own trimmed form and stays on one line.\<close>

definition plain_line :: "string \<Rightarrow> bool" where
  "plain_line s \<longleftrightarrow> s \<noteq> [] \<and> trim_space s = s \<and> CHR 0x0A \<notin> set s"

lemma trim_append: "plain_line s \<Longrightarrow> p \<noteq> [] \<Longrightarrow> \<not> is_space (hd p) \<Longrightarrow> trim_space (p @ s) = p @ s"
  by (auto simp: plain_line_def trim_space_eq_iff)

lemma trim_leading_space: "plain_line s \<Longrightarrow> trim_space (CHR 0x20 # s) = s"
  by (simp add: plain_line_def trim_space_def is_space_def)

lemma plain_trim: "plain_line s \<Longrightarrow> trim_space s = s"
  by (simp add: plain_line_def)

lemma bullet_lines:
  assumes "plain_line d"
  shows "trim_space (''- '' @ checkbox c @ d) = ''- '' @ checkbox c @ d" "trim_space (''- '' @ d) = ''- '' @ d"
    "parseScopeItem (''- '' @ checkbox c @ d) i = Some \<lparr>si_Index = i, si_Description = d, si_Completed = c\<rparr>"
    "parseBullet (''- '' @ d) = Some d"
proof -
  show "trim_space (''- '' @ checkbox c @ d) = ''- '' @ checkbox c @ d"
    using trim_append [OF assms, of "''- '' @ checkbox c"] by (simp add: is_space_def)
  show "trim_space (''- '' @ d) = ''- '' @ d" using trim_append [OF assms, of "''- ''"] by (simp add: is_space_def)
  show "parseScopeItem (''- '' @ checkbox c @ d) i = Some \<lparr>si_Index = i, si_Description = d, si_Completed = c\<rparr>"
    using assms trim_leading_space [OF assms]
    by (simp add: parseScopeItem_def checkbox_def has_prefix_def trim_prefix_def Let_def plain_line_def)
  show "parseBullet (''- '' @ d) = Some d"
    using assms by (simp add: parseBullet_def has_prefix_def trim_prefix_def plain_line_def)
qed

lemma fold_context:
  assumes "ps_title s \<noteq> []" and "ps_section s = ''context''"
    and "\<forall>l \<in> set ctx. l = [] \<or> plain_line l \<and> \<not> has_prefix l ''## ''"
  shows "fold plan_line ctx s = s\<lparr>ps_context := ps_context s @ ctx\<rparr>"
  using assms
proof (induction ctx arbitrary: s)
  case (Cons l ctx)
  then have "plan_line l s = s\<lparr>ps_context := ps_context s @ [l]\<rparr>"
    by (auto simp: plan_line_def plain_trim has_prefix_def plain_line_def)
  then show ?case using Cons by simp
qed simp

lemma fold_scope:
  assumes "ps_title s \<noteq> []" and "ps_section s = ''scope''" and "\<forall>(c, d) \<in> set items. plain_line d"
  shows "fold plan_line (map (\<lambda>(c, d). ''- '' @ checkbox c @ d) items) s = s\<lparr>ps_scope := ps_scope s @
    map (\<lambda>(i, c, d). \<lparr>si_Index = int i, si_Description = d, si_Completed = c\<rparr>) (enumerate (length (ps_scope s)) items)\<rparr>"
  using assms
proof (induction items arbitrary: s)
  case (Cons it items)
  obtain c d where it: "it = (c, d)" by force
  have d: "plain_line d" using Cons.prems(3) it by simp
  have "plan_line (''- '' @ checkbox c @ d) s =
      s\<lparr>ps_scope := ps_scope s @ [\<lparr>si_Index = int (length (ps_scope s)), si_Description = d, si_Completed = c\<rparr>]\<rparr>"
    using Cons.prems(1,2) bullet_lines(3) [OF d, of c]
    unfolding plan_line_def bullet_lines(1) [OF d] Let_def by (simp add: has_prefix_def)
  then show ?case using Cons it by simp
qed simp

lemma fold_criteria:
  assumes "ps_title s \<noteq> []" and "ps_section s = ''acceptance criteria''" and "\<forall>b \<in> set bs. plain_line b"
  shows "fold plan_line (map (\<lambda>b. ''- '' @ b) bs) s = s\<lparr>ps_criteria := ps_criteria s @ bs\<rparr>"
  using assms
proof (induction bs arbitrary: s)
  case (Cons b bs)
  then have b: "plain_line b" by simp
  have "plan_line (''- '' @ b) s = s\<lparr>ps_criteria := ps_criteria s @ [b]\<rparr>"
    using Cons.prems(1,2) bullet_lines(4) [OF b]
    unfolding plan_line_def bullet_lines(2) [OF b] Let_def by (simp add: has_prefix_def)
  then show ?case using Cons by simp
qed simp

lemma fold_outside:
  assumes "ps_title s \<noteq> []" and "ps_section s = ''out of scope''" and "\<forall>b \<in> set bs. plain_line b"
  shows "fold plan_line (map (\<lambda>b. ''- '' @ b) bs) s = s\<lparr>ps_outside := ps_outside s @ bs\<rparr>"
  using assms
proof (induction bs arbitrary: s)
  case (Cons b bs)
  then have b: "plain_line b" by simp
  have "plan_line (''- '' @ b) s = s\<lparr>ps_outside := ps_outside s @ [b]\<rparr>"
    using Cons.prems(1,2) bullet_lines(4) [OF b]
    unfolding plan_line_def bullet_lines(2) [OF b] Let_def by (simp add: has_prefix_def)
  then show ?case using Cons by simp
qed simp

lemma section_lines:
  assumes "ps_title s \<noteq> []"
  shows "plan_line ''## Context'' s = s\<lparr>ps_section := ''context''\<rparr>" "plan_line ''## Scope'' s = s\<lparr>ps_section := ''scope''\<rparr>"
    "plan_line ''## Acceptance Criteria'' s = s\<lparr>ps_section := ''acceptance criteria''\<rparr>"
    "plan_line ''## Out of Scope'' s = s\<lparr>ps_section := ''out of scope''\<rparr>"
proof -
  have h: "trim_space ''## Context'' = ''## Context''" "trim_space ''## Scope'' = ''## Scope''"
    "trim_space ''## Acceptance Criteria'' = ''## Acceptance Criteria''" "trim_space ''## Out of Scope'' = ''## Out of Scope''"
    "to_lower (trim_space (trim_prefix ''## Context'' ''## '')) = ''context''"
    "to_lower (trim_space (trim_prefix ''## Scope'' ''## '')) = ''scope''"
    "to_lower (trim_space (trim_prefix ''## Acceptance Criteria'' ''## '')) = ''acceptance criteria''"
    "to_lower (trim_space (trim_prefix ''## Out of Scope'' ''## '')) = ''out of scope''"
    by code_simp+
  show "plan_line ''## Context'' s = s\<lparr>ps_section := ''context''\<rparr>" "plan_line ''## Scope'' s = s\<lparr>ps_section := ''scope''\<rparr>"
    "plan_line ''## Acceptance Criteria'' s = s\<lparr>ps_section := ''acceptance criteria''\<rparr>"
    "plan_line ''## Out of Scope'' s = s\<lparr>ps_section := ''out of scope''\<rparr>"
    using assms unfolding plan_line_def Let_def h by (simp_all add: has_prefix_def)
qed

lemma title_line:
  assumes "plain_line title"
  shows "plan_line (''# Plan: '' @ title) plan_start = plan_start\<lparr>ps_title := title\<rparr>"
proof -
  have t: "trim_space (''# Plan: '' @ title) = ''# Plan: '' @ title" using trim_append [OF assms, of "''# Plan: ''"] by (simp add: is_space_def)
  show ?thesis
    using trim_leading_space [OF assms]
    unfolding plan_line_def t Let_def
    by (simp add: plan_start_def isTitleLine_def extractTitle_def has_prefix_def trim_prefix_def)
qed

lemma render_fold:
  assumes "plain_line title" and "\<forall>l \<in> set ctx. l = [] \<or> plain_line l \<and> \<not> has_prefix l ''## ''"
    and "\<forall>(c, d) \<in> set items. plain_line d" and "\<forall>b \<in> set criteria. plain_line b" and "\<forall>b \<in> set outside. plain_line b"
  shows "fold plan_line (render_lines title ctx items criteria outside) plan_start =
    \<lparr>ps_title = title, ps_section = ''out of scope'', ps_context = ctx,
     ps_scope = map (\<lambda>(i, c, d). \<lparr>si_Index = int i, si_Description = d, si_Completed = c\<rparr>) (enumerate 0 items),
     ps_criteria = criteria, ps_outside = outside\<rparr>"
proof -
  have t: "title \<noteq> []" using assms(1) by (simp add: plain_line_def)
  show ?thesis unfolding render_lines_def
    using t title_line [OF assms(1)] assms(2-5)
    by (simp add: section_lines fold_context fold_scope fold_criteria fold_outside del: append_Cons append_Nil)
       (simp add: plan_start_def)
qed

lemma render_no_newline:
  assumes "plain_line title" and "\<forall>l \<in> set ctx. l = [] \<or> plain_line l \<and> \<not> has_prefix l ''## ''"
    and "\<forall>(c, d) \<in> set items. plain_line d" and "\<forall>b \<in> set criteria. plain_line b" and "\<forall>b \<in> set outside. plain_line b"
  shows "\<forall>l \<in> set (render_lines title ctx items criteria outside). CHR 0x0A \<notin> set l"
  using assms by (auto simp: render_lines_def plain_line_def checkbox_def split: if_splits)

section \<open>Properties\<close>

text \<open>
  C13. The parser reads the documented format back: a plan printed with its title, context, scope, criteria and exclusions, each
  text on one line and without surrounding space, is parsed into exactly these parts, the scope items numbered in
  order with their check marks. The context may have blank lines and any line that is no section header.
\<close>

theorem plan_roundtrip:
  assumes "plain_line title" and "\<forall>l \<in> set ctx. l = [] \<or> plain_line l \<and> \<not> has_prefix l ''## ''"
    and "\<forall>(c, d) \<in> set items. plain_line d" and "\<forall>b \<in> set criteria. plain_line b" and "\<forall>b \<in> set outside. plain_line b"
    and "items \<noteq> []" and "markdown = join_with newline (render_lines title ctx items criteria outside)"
  shows "ParseMarkdownPlan markdown = Inr
    \<lparr>pp_Title = title, pp_Context = trim_space (join_with newline ctx),
     pp_ScopeItems = map (\<lambda>(i, c, d). \<lparr>si_Index = int i, si_Description = d, si_Completed = c\<rparr>) (enumerate 0 items),
     pp_AcceptanceCriteria = criteria, pp_OutOfScope = outside, pp_RawMarkdown = markdown\<rparr>"
proof -
  have "split_on (CHR 0x0A) markdown = render_lines title ctx items criteria outside"
    unfolding assms(7) newline_def using render_no_newline [OF assms(1-5)] by (rule split_join) (simp add: render_lines_def)
  moreover have "enumerate 0 items \<noteq> []" using assms(6) by (cases items) simp_all
  ultimately show ?thesis using assms(1) render_fold [OF assms(1-5)]
    by (simp add: ParseMarkdownPlan_def validateParsedPlan_def plain_line_def Let_def)
qed

theorem plan_roundtrip_witness:
  "map_sum id pp_ScopeItems (ParseMarkdownPlan (join_with newline
     (render_lines ''T'' [''why'', [], ''how''] [(False, ''do a''), (True, ''do b'')] [''ok''] []))) =
   Inr [\<lparr>si_Index = 0, si_Description = ''do a'', si_Completed = False\<rparr>, \<lparr>si_Index = 1, si_Description = ''do b'', si_Completed = True\<rparr>]"
proof -
  have "plain_line ''T''" "plain_line ''why''" "plain_line ''how''" "plain_line ''do a''" "plain_line ''do b''" "plain_line ''ok''"
    "\<not> has_prefix ''why'' ''## ''" "\<not> has_prefix ''how'' ''## ''"
    by code_simp+
  then show ?thesis
    using plan_roundtrip [of "''T''" "[''why'', [], ''how'']" "[(False, ''do a''), (True, ''do b'')]" "[''ok'']" "[]"] by simp
qed

text \<open>
  Every accepted plan has a title and scope items, numbered from zero without a gap.
\<close>

lemma parseScopeItem_index: "parseScopeItem l i = Some it \<Longrightarrow> si_Index it = i"
  by (auto simp: parseScopeItem_def Let_def split: option.split_asm if_split_asm prod.split_asm)

lemma plan_line_scope:
  "ps_scope (plan_line l s) = ps_scope s \<or>
     (\<exists>it. parseScopeItem (trim_space l) (int (length (ps_scope s))) = Some it \<and> ps_scope (plan_line l s) = ps_scope s @ [it])"
  by (simp add: plan_line_def Let_def split: option.split)

lemma plan_line_numbered:
  "map si_Index (ps_scope s) = map int [0..<length (ps_scope s)] \<Longrightarrow>
     map si_Index (ps_scope (plan_line l s)) = map int [0..<length (ps_scope (plan_line l s))]"
  using plan_line_scope [of l s] parseScopeItem_index by auto

lemma accepted_plan:
  assumes "ParseMarkdownPlan md = Inr plan"
  shows "trim_space (pp_Title plan) \<noteq> [] \<and> pp_ScopeItems plan \<noteq> [] \<and>
    map si_Index (pp_ScopeItems plan) = map int [0..<length (pp_ScopeItems plan)]"
proof -
  have "map si_Index (ps_scope (fold plan_line ls s)) = map int [0..<length (ps_scope (fold plan_line ls s))]"
    if "map si_Index (ps_scope s) = map int [0..<length (ps_scope s)]" for ls s
    using that by (induction ls arbitrary: s) (simp_all add: plan_line_numbered)
  from this [of plan_start "split_on (CHR 0x0A) md"] show ?thesis
    using assms by (auto simp: ParseMarkdownPlan_def validateParsedPlan_def plan_start_def Let_def split: if_splits)
qed

text \<open>A checked box without a text is dropped in upper case and kept in lower case, with the box as its text.\<close>

lemma empty_checked_item:
  "parseScopeItem ''- [X]'' 0 = None"
  "parseScopeItem ''- [x]'' 0 = Some \<lparr>si_Index = 0, si_Description = ''[x]'', si_Completed = True\<rparr>"
  by code_simp+


end
