(* ===== verification/Llm_Json.thy ===== *)
theory Llm_Json
  imports Agent_Workflow
begin

text \<open>
  JSON in the answers of language models: extraction and repair in \<open>internal/temporal/activities.go\<close>,
  \<open>planning_activities.go\<close> and \<open>json_repair.go\<close>.

  \<^item> \<open>json.Valid\<close> is the scanner of the standard library: a pushdown automaton that reads one byte at a
    time, with its limit on the nesting.
  \<^item> \<open>json.Unmarshal\<close> into the caller's target is an argument \<open>decode\<close>, which gives the filled target if
    it succeeds. What a failing call leaves in the target is not modelled.
  \<^item> Loops over runes are loops over bytes: the bytes they compare with never occur inside a longer rune.
\<close>

section \<open>Valid JSON\<close>

datatype json_state =
    BeginValue | BeginValueOrEmpty | BeginStringOrEmpty | BeginString | EndValue | EndTop
  | InString | InEsc | InHex nat | Neg | Zero | Digits | Dot | Frac | Exp | ExpSign | ExpDigits | Lit string | Bad

datatype json_parse = ObjectKey | ObjectValue | ArrayValue

type_synonym json_conf = "json_state \<times> json_parse list"

definition json_space :: "char \<Rightarrow> bool" where
  "json_space c = (c \<in> {CHR '' '', CHR 0x09, CHR 0x0A, CHR 0x0D})"

definition is_hex :: "char \<Rightarrow> bool" where
  "is_hex c = (let n = (of_char c :: nat) in 48 \<le> n \<and> n \<le> 57 \<or> 97 \<le> n \<and> n \<le> 102 \<or> 65 \<le> n \<and> n \<le> 70)"

definition json_escapes :: "char list" where
  "json_escapes = [CHR 0x22, CHR 0x5C, CHR ''/'', CHR ''b'', CHR ''f'', CHR ''n'', CHR ''r'', CHR ''t'', CHR ''u'']"

definition push_state :: "json_state \<Rightarrow> json_parse \<Rightarrow> json_parse list \<Rightarrow> json_conf" where
  "push_state st p stack = (if length stack < 10000 then (st, p # stack) else (Bad, stack))"

definition end_top :: "char \<Rightarrow> json_parse list \<Rightarrow> json_conf" where
  "end_top c stack = (if json_space c then (EndTop, stack) else (Bad, stack))"

definition pop_state :: "json_parse list \<Rightarrow> json_conf" where
  "pop_state stack = (if tl stack = [] then (EndTop, []) else (EndValue, tl stack))"

definition end_value :: "char \<Rightarrow> json_parse list \<Rightarrow> json_conf" where
  "end_value c stack =
     (case stack of
        [] \<Rightarrow> end_top c []
      | p # ps \<Rightarrow>
          if json_space c then (EndValue, stack)
          else case p of
                 ObjectKey \<Rightarrow> if c = CHR '':'' then (BeginValue, ObjectValue # ps) else (Bad, stack)
               | ObjectValue \<Rightarrow> if c = CHR '','' then (BeginString, ObjectKey # ps)
                               else if c = CHR ''}'' then pop_state stack else (Bad, stack)
               | ArrayValue \<Rightarrow> if c = CHR '','' then (BeginValue, stack)
                              else if c = CHR '']'' then pop_state stack else (Bad, stack))"

definition begin_string :: "char \<Rightarrow> json_parse list \<Rightarrow> json_conf" where
  "begin_string c stack =
     (if json_space c then (BeginString, stack) else if c = CHR 0x22 then (InString, stack) else (Bad, stack))"

definition begin_value :: "char \<Rightarrow> json_parse list \<Rightarrow> json_conf" where
  "begin_value c stack =
     (if json_space c then (BeginValue, stack)
      else if c = CHR ''{'' then push_state BeginStringOrEmpty ObjectKey stack
      else if c = CHR ''['' then push_state BeginValueOrEmpty ArrayValue stack
      else if c = CHR 0x22 then (InString, stack)
      else if c = CHR ''-'' then (Neg, stack)
      else if c = CHR ''0'' then (Zero, stack)
      else if c = CHR ''t'' then (Lit ''rue'', stack)
      else if c = CHR ''f'' then (Lit ''alse'', stack)
      else if c = CHR ''n'' then (Lit ''ull'', stack)
      else if is_digit c then (Digits, stack)
      else (Bad, stack))"

definition after_zero :: "char \<Rightarrow> json_parse list \<Rightarrow> json_conf" where
  "after_zero c stack =
     (if c = CHR ''.'' then (Dot, stack) else if c = CHR ''e'' \<or> c = CHR ''E'' then (Exp, stack) else end_value c stack)"

definition json_step :: "char \<Rightarrow> json_conf \<Rightarrow> json_conf" where
  "json_step c conf =
     (let (st, stack) = conf
      in case st of
           BeginValue \<Rightarrow> begin_value c stack
         | BeginValueOrEmpty \<Rightarrow>
             (if json_space c then (BeginValueOrEmpty, stack) else if c = CHR '']'' then end_value c stack else begin_value c stack)
         | BeginStringOrEmpty \<Rightarrow>
             (if json_space c then (BeginStringOrEmpty, stack)
             else if c = CHR ''}'' then end_value c (ObjectValue # tl stack) else begin_string c stack)
         | BeginString \<Rightarrow> begin_string c stack
         | EndValue \<Rightarrow> end_value c stack
         | EndTop \<Rightarrow> end_top c stack
         | InString \<Rightarrow>
             (if c = CHR 0x22 then (EndValue, stack) else if c = CHR 0x5C then (InEsc, stack)
             else if (of_char c :: nat) < 32 then (Bad, stack) else (InString, stack))
         | InEsc \<Rightarrow>
             (if c = CHR ''u'' then (InHex 4, stack) else if c \<in> set json_escapes then (InString, stack) else (Bad, stack))
         | InHex n \<Rightarrow>
             (if is_hex c then (if n \<le> 1 then (InString, stack) else (InHex (n - 1), stack)) else (Bad, stack))
         | Neg \<Rightarrow>
             (if c = CHR ''0'' then (Zero, stack) else if is_digit c then (Digits, stack) else (Bad, stack))
         | Zero \<Rightarrow> after_zero c stack
         | Digits \<Rightarrow> (if is_digit c then (Digits, stack) else after_zero c stack)
         | Dot \<Rightarrow> (if is_digit c then (Frac, stack) else (Bad, stack))
         | Frac \<Rightarrow>
             (if is_digit c then (Frac, stack) else if c = CHR ''e'' \<or> c = CHR ''E'' then (Exp, stack) else end_value c stack)
         | Exp \<Rightarrow>
             (if c = CHR ''+'' \<or> c = CHR ''-'' then (ExpSign, stack) else if is_digit c then (ExpDigits, stack) else (Bad, stack))
         | ExpSign \<Rightarrow> (if is_digit c then (ExpDigits, stack) else (Bad, stack))
         | ExpDigits \<Rightarrow> (if is_digit c then (ExpDigits, stack) else end_value c stack)
         | Lit l \<Rightarrow>
             (case l of
                [] \<Rightarrow> (Bad, stack) | x # xs \<Rightarrow> if c = x then (if xs = [] then (EndValue, stack) else (Lit xs, stack)) else (Bad, stack))
         | Bad \<Rightarrow> (Bad, stack))"

definition json_run :: "string \<Rightarrow> json_conf \<Rightarrow> json_conf" where
  "json_run s = fold json_step s"

text \<open>At the end of the text the scanner reads one more space.\<close>

definition json_valid :: "string \<Rightarrow> bool" where
  "json_valid s = (fst (json_step (CHR '' '') (json_run s (BeginValue, []))) = EndTop)"

section \<open>Searching\<close>

fun index_str :: "string \<Rightarrow> string \<Rightarrow> nat option" where
  "index_str [] p = (if p = [] then Some 0 else None)"
| "index_str (c # cs) p = (if has_prefix (c # cs) p then Some 0 else map_option Suc (index_str cs p))"

text \<open>
  The two flags of every loop over JSON text, and whether the byte is outside strings and not a quote.
\<close>

definition quote_step :: "char \<Rightarrow> bool \<Rightarrow> bool \<Rightarrow> (bool \<times> bool) \<times> bool" where
  "quote_step c inString escaped =
     (if escaped then ((inString, False), False)
      else if c = CHR 0x5C \<and> inString then ((inString, True), False)
      else if c = CHR 0x22 then ((\<not> inString, False), False)
      else ((inString, False), \<not> inString))"

definition brace_depth :: "char \<Rightarrow> bool \<Rightarrow> int \<Rightarrow> int" where
  "brace_depth c structural depth =
     (if structural \<and> c = CHR ''{'' then depth + 1 else if structural \<and> c = CHR ''}'' then depth - 1 else depth)"

primrec match_object :: "int \<Rightarrow> bool \<Rightarrow> bool \<Rightarrow> string \<Rightarrow> nat option" where
  "match_object depth inString escaped [] = None"
| "match_object depth inString escaped (c # cs) =
     (let q = quote_step c inString escaped; depth' = brace_depth c (snd q) depth
      in if snd q \<and> c = CHR ''}'' \<and> depth' = 0 then Some 1
         else map_option Suc (match_object depth' (fst (fst q)) (snd (fst q)) cs))"

definition fence :: string where "fence = ''```''"

definition json_fence :: string where "json_fence = ''```json''"

definition fenced_json :: "string \<Rightarrow> string option" where
  "fenced_json text =
     (case index_str text json_fence of
        None \<Rightarrow> None
      | Some idx \<Rightarrow>
          (let rest = drop (idx + 7) text
           in case index_str rest fence of None \<Rightarrow> None | Some e \<Rightarrow> Some (trim_space (take e rest))))"

definition fenced_object :: "string \<Rightarrow> string" where
  "fenced_object text =
     (case index_str text fence of
        None \<Rightarrow> []
      | Some idx \<Rightarrow>
          (let rest0 = drop (idx + 3) text;
               rest = (case index_byte rest0 (CHR 0x0A) of None \<Rightarrow> rest0 | Some k \<Rightarrow> drop (k + 1) rest0)
           in case index_str rest fence of
                None \<Rightarrow> []
              | Some e \<Rightarrow> (let candidate = trim_space (take e rest)
                          in if candidate \<noteq> [] \<and> hd candidate = CHR ''{'' then candidate else [])))"

definition raw_object :: "string \<Rightarrow> string" where
  "raw_object text =
     (case index_byte text (CHR ''{'') of
        None \<Rightarrow> []
      | Some start \<Rightarrow>
          (let rest = drop start text
           in case match_object 0 False False rest of None \<Rightarrow> [] | Some n \<Rightarrow> take n rest))"

section \<open>Sanitizing\<close>

definition hex_nibble :: "nat \<Rightarrow> char" where
  "hex_nibble n = (if n < 10 then char_of (48 + n) else char_of (87 + n))"

text \<open>A control character as a JSON escape.\<close>

definition escape_control :: "char \<Rightarrow> string" where
  "escape_control c =
     (if c = CHR 0x0A then [CHR 0x5C, CHR ''n''] else if c = CHR 0x0D then [CHR 0x5C, CHR ''r'']
      else if c = CHR 0x09 then [CHR 0x5C, CHR ''t'']
      else CHR 0x5C # ''u00'' @ [hex_nibble (of_char c div 16), hex_nibble (of_char c mod 16)])"

fun sanitize_chars :: "bool \<Rightarrow> string \<Rightarrow> string" where
  "sanitize_chars inString [] = []"
| "sanitize_chars False (ch # cs) = ch # sanitize_chars (ch = CHR 0x22) cs"
| "sanitize_chars True (ch # cs) =
     (if ch = CHR 0x22 then ch # sanitize_chars False cs
      else case (ch = CHR 0x5C, cs) of
             (True, nxt # rest) \<Rightarrow>
               if nxt \<in> set json_escapes then ch # nxt # sanitize_chars True rest
               else CHR 0x5C # CHR 0x5C # sanitize_chars True cs
           | _ \<Rightarrow> (if (of_char ch :: nat) < 32 then escape_control ch else [ch]) @ sanitize_chars True cs)"

definition re_space :: "char \<Rightarrow> bool" where
  "re_space c = (c \<in> {CHR '' '', CHR 0x09, CHR 0x0A, CHR 0x0C, CHR 0x0D})"

function drop_trailing_commas :: "string \<Rightarrow> string" where
  "drop_trailing_commas [] = []"
| "drop_trailing_commas (c # cs) =
     (if c = CHR '',''
      then (case dropWhile re_space cs of
              d # ds \<Rightarrow> if d = CHR ''}'' \<or> d = CHR '']'' then d # drop_trailing_commas ds else c # drop_trailing_commas cs
            | [] \<Rightarrow> c # drop_trailing_commas cs)
      else c # drop_trailing_commas cs)"
  by pat_completeness auto
termination
proof (relation "measure length")
  fix c cs d ds
  assume "dropWhile re_space cs = d # ds"
  then have "length ds < length cs"
    by (metis length_dropWhile_le length_Cons Suc_le_lessD)
  then show "(ds, c # cs) \<in> measure length" by simp
qed auto

definition sanitizeJSON :: "string \<Rightarrow> string" where
  "sanitizeJSON s = (if json_valid s then s else drop_trailing_commas (sanitize_chars False s))"

definition extractJSON :: "string \<Rightarrow> string" where
  "extractJSON text =
     (let raw1 = (case fenced_json text of None \<Rightarrow> [] | Some r \<Rightarrow> r);
          raw2 = (if raw1 = [] then fenced_object text else raw1);
          raw = (if raw2 = [] then raw_object text else raw2)
      in if raw = [] then [] else sanitizeJSON raw)"

primrec match_array :: "int \<Rightarrow> string \<Rightarrow> nat option" where
  "match_array depth [] = None"
| "match_array depth (c # cs) =
     (if c = CHR ''['' then map_option Suc (match_array (depth + 1) cs)
      else if c = CHR '']''
      then (if depth - 1 = 0 then Some 1 else map_option Suc (match_array (depth - 1) cs))
      else map_option Suc (match_array depth cs))"

definition extractJSONArray :: "string \<Rightarrow> string" where
  "extractJSONArray text =
     (case fenced_json text of
        Some r \<Rightarrow> r
      | None \<Rightarrow>
          (case index_byte text (CHR ''['') of
             None \<Rightarrow> []
           | Some start \<Rightarrow>
               (let rest = drop start text in case match_array 0 rest of None \<Rightarrow> [] | Some n \<Rightarrow> take n rest)))"

definition fixDoubleEscapes :: "string \<Rightarrow> string" where
  "fixDoubleEscapes s =
     (let bs = CHR 0x5C;
          s1 = replace_all s [bs, bs, CHR ''n''] [bs, CHR ''n''];
          s2 = replace_all s1 [bs, bs, CHR ''t''] [bs, CHR ''t''];
          s3 = replace_all s2 [bs, bs, CHR ''r''] [bs, CHR ''r'']
      in replace_all s3 [bs, bs, CHR 0x22] [bs, CHR 0x22])"

fun fix_chars :: "bool \<Rightarrow> string \<Rightarrow> string" where
  "fix_chars inString [] = []"
| "fix_chars inString [ch] =
     (if ch = CHR 0x5C \<and> \<not> inString then []
      else if ch = CHR 0x22 then [ch]
      else if inString \<and> (of_char ch :: nat) < 32 then escape_control ch else [ch])"
| "fix_chars inString (ch # nxt # rest) =
     (if ch = CHR 0x5C \<and> inString
      then (if nxt \<in> set json_escapes then ch # nxt # fix_chars inString rest
            else CHR 0x5C # CHR 0x5C # fix_chars inString (nxt # rest))
      else if ch = CHR 0x5C
      then (if nxt \<in> {CHR ''n'', CHR ''t'', CHR ''r''} then fix_chars inString rest else fix_chars inString (nxt # rest))
      else if ch = CHR 0x22 then ch # fix_chars (\<not> inString) (nxt # rest)
      else (if inString \<and> (of_char ch :: nat) < 32 then escape_control ch else [ch]) @ fix_chars inString (nxt # rest))"

definition fixJSONChars :: "string \<Rightarrow> string" where
  "fixJSONChars raw = fix_chars False raw"

text \<open>\<open>prev\<close> is the byte before the current one.\<close>

fun nuke_chars :: "char option \<Rightarrow> bool \<Rightarrow> string \<Rightarrow> string" where
  "nuke_chars prev inString [] = []"
| "nuke_chars prev inString [ch] =
     (if ch = CHR 0x22 \<and> prev \<noteq> Some (CHR 0x5C) then [ch]
      else if inString \<and> (of_char ch :: nat) < 32 then escape_control ch else [ch])"
| "nuke_chars prev inString (ch # nxt # rest) =
     (if ch = CHR 0x22 \<and> prev \<noteq> Some (CHR 0x5C) then ch # nuke_chars (Some ch) (\<not> inString) (nxt # rest)
      else if ch = CHR 0x5C
      then (if inString
            then (if nxt \<in> set json_escapes then [ch, nxt] else []) @ nuke_chars (Some nxt) inString rest
            else nuke_chars (Some ch) inString (nxt # rest))
      else (if inString \<and> (of_char ch :: nat) < 32 then escape_control ch else [ch]) @
           nuke_chars (Some ch) inString (nxt # rest))"

definition nukeInvalidBackslashes :: "string \<Rightarrow> string" where
  "nukeInvalidBackslashes raw = nuke_chars None False raw"

definition sanitizeLLMJSON :: "string \<Rightarrow> string" where
  "sanitizeLLMJSON input =
     (let raw = trim_space input
      in if raw = [] then raw
         else if json_valid raw then raw
         else if contains_str raw [CHR 0x5C, CHR 0x5C] \<and> json_valid (fixDoubleEscapes raw) then fixDoubleEscapes raw
         else if json_valid (fixJSONChars raw) then fixJSONChars raw
         else if json_valid (fixJSONChars (fixDoubleEscapes raw)) then fixJSONChars (fixDoubleEscapes raw)
         else if json_valid (nukeInvalidBackslashes raw) then nukeInvalidBackslashes raw
         else fixJSONChars raw)"


section \<open>Repairing truncated text\<close>

record open_counts =
  oc_braces :: int
  oc_brackets :: int
  oc_inString :: bool
  oc_escaped :: bool

definition count_step :: "char \<Rightarrow> open_counts \<Rightarrow> open_counts" where
  "count_step c st =
     (let q = quote_step c (oc_inString st) (oc_escaped st); st1 = st\<lparr>oc_inString := fst (fst q), oc_escaped := snd (fst q)\<rparr>
      in if \<not> snd q then st1
         else if c = CHR ''{'' then st1\<lparr>oc_braces := oc_braces st1 + 1\<rparr>
         else if c = CHR ''}'' then st1\<lparr>oc_braces := oc_braces st1 - 1\<rparr>
         else if c = CHR ''['' then st1\<lparr>oc_brackets := oc_brackets st1 + 1\<rparr>
         else if c = CHR '']'' then st1\<lparr>oc_brackets := oc_brackets st1 - 1\<rparr> else st1)"

definition open_count :: "string \<Rightarrow> open_counts" where
  "open_count s = fold count_step s \<lparr>oc_braces = 0, oc_brackets = 0, oc_inString = False, oc_escaped = False\<rparr>"

primrec last_comma :: "nat \<Rightarrow> int \<Rightarrow> bool \<Rightarrow> bool \<Rightarrow> int \<Rightarrow> string \<Rightarrow> int" where
  "last_comma i depth inString escaped lastComma [] = lastComma"
| "last_comma i depth inString escaped lastComma (c # cs) =
     (let q = quote_step c inString escaped;
          depth' = (if snd q \<and> (c = CHR ''['' \<or> c = CHR ''{'') then depth + 1
                    else if snd q \<and> (c = CHR '']'' \<or> c = CHR ''}'') then depth - 1 else depth)
      in last_comma (Suc i) depth' (fst (fst q)) (snd (fst q))
           (if snd q \<and> c = CHR '','' \<and> depth = 1 then int i else lastComma) cs)"

definition lastTopLevelComma :: "string \<Rightarrow> int" where
  "lastTopLevelComma s = last_comma 0 0 False False (- 1) s"

definition repairTruncatedJSONArray :: "string \<Rightarrow> string" where
  "repairTruncatedJSONArray s =
     (if json_valid s then s
      else let n = open_count s;
               closed = s @ (if oc_inString n then [CHR 0x22] else []);
               lastComma = lastTopLevelComma closed;
               truncated = take (nat lastComma) closed @ replicate (nat (oc_brackets n)) (CHR '']'');
               full = closed @ replicate (nat (oc_braces n)) (CHR ''}'') @ replicate (nat (oc_brackets n)) (CHR '']'')
           in if 0 < lastComma \<and> (0 < oc_braces n \<or> 0 < oc_brackets n) \<and> json_valid truncated then truncated
              else if json_valid full then full else s)"

text \<open>\<open>rest\<close> is the text from the start of the object, if one has been seen, and \<open>len\<close> how much of it has been read.\<close>

primrec first_object :: "string option \<Rightarrow> nat \<Rightarrow> int \<Rightarrow> bool \<Rightarrow> bool \<Rightarrow> string \<Rightarrow> string" where
  "first_object start len depth inString escaped [] = []"
| "first_object start len depth inString escaped (c # cs) =
     (let q = quote_step c inString escaped; inS = fst (fst q); esc = snd (fst q); depth' = brace_depth c (snd q) depth
      in if snd q \<and> c = CHR ''{'' \<and> start = None then first_object (Some (c # cs)) 1 depth' inS esc cs
         else if snd q \<and> c = CHR ''}'' \<and> depth' = 0 \<and> start \<noteq> None
         then (let candidate = take (Suc len) (the start)
               in if json_valid candidate then candidate else first_object None 0 depth' inS esc cs)
         else first_object start (Suc len) depth' inS esc cs)"

definition extractFirstCompleteJSONObject :: "string \<Rightarrow> string" where
  "extractFirstCompleteJSONObject s = first_object None 0 0 False False s"

section \<open>Parsing\<close>

datatype json_failure = NoJSON nat | Undecodable string

text \<open>One attempt: decode a text unless it is empty.\<close>

definition try_decode :: "(string \<Rightarrow> 'a option) \<Rightarrow> string \<Rightarrow> 'a option" where
  "try_decode decode s = (if s = [] then None else decode s)"

definition first_some :: "'a option list \<Rightarrow> 'a option" where
  "first_some xs = (case filter (\<lambda>x. x \<noteq> None) xs of [] \<Rightarrow> None | x # _ \<Rightarrow> x)"

definition truncated_attempt :: "(string \<Rightarrow> 'a option) \<Rightarrow> string \<Rightarrow> 'a option" where
  "truncated_attempt decode raw =
     (let jsonStr = extractJSON raw
      in if jsonStr = [] then None
         else let sanitized = sanitizeLLMJSON jsonStr; repaired = repairTruncatedJSONArray sanitized
              in first_some [if repaired \<noteq> sanitized then decode repaired else None,
                             try_decode decode (extractFirstCompleteJSONObject sanitized)])"

definition robustParseJSON :: "(string \<Rightarrow> 'a option) \<Rightarrow> string \<Rightarrow> (json_failure, 'a) result" where
  "robustParseJSON decode raw =
     (case first_some
        [if extractJSON raw = [] then None else decode (sanitizeLLMJSON (extractJSON raw)),
         try_decode decode (extractJSON (sanitizeLLMJSON raw)),
         try_decode decode (extractJSON (nukeInvalidBackslashes raw)),
         case fenced_json raw of None \<Rightarrow> None | Some fenced \<Rightarrow> decode (sanitizeLLMJSON fenced),
         truncated_attempt decode raw] of
        Some v \<Rightarrow> Inr v
      | None \<Rightarrow>
          (let jsonStr = extractJSON raw
           in if jsonStr = [] then Inl (NoJSON (length raw))
              else case decode (sanitizeLLMJSON jsonStr) of
                     Some v \<Rightarrow> Inr v | None \<Rightarrow> Inl (Undecodable (sanitizeLLMJSON jsonStr))))"

definition robustParseJSONArray :: "(string \<Rightarrow> 'a option) \<Rightarrow> string \<Rightarrow> (json_failure, 'a) result" where
  "robustParseJSONArray decode raw =
     (case first_some
        [if extractJSONArray raw = [] then None else decode (sanitizeLLMJSON (extractJSONArray raw)),
         try_decode decode (extractJSONArray (sanitizeLLMJSON raw)),
         try_decode decode (extractJSONArray (nukeInvalidBackslashes raw))] of
        Some v \<Rightarrow> Inr v
      | None \<Rightarrow>
          (let jsonStr = extractJSONArray raw
           in if jsonStr = [] then Inl (NoJSON (length raw))
              else case decode (sanitizeLLMJSON jsonStr) of
                     Some v \<Rightarrow> Inr v | None \<Rightarrow> Inl (Undecodable (sanitizeLLMJSON jsonStr))))"

text \<open>
  The plan of an agent: the decoders of the plan, of the response in an envelope and of the members of an
  object, in the order in which the map of members is traversed, and the encoder of an object.
\<close>

record plan_decoders =
  pd_plan :: "string \<Rightarrow> structured_plan option"
  pd_response :: "string \<Rightarrow> string option"
  pd_members :: "string \<Rightarrow> (string \<times> string) list option"
  pd_encode :: "(string \<rightharpoonup> string) \<Rightarrow> string option"

definition plan_keys :: "(string \<times> string) list" where
  "plan_keys =
     [(''filesToModify'', ''files_to_modify''), (''acceptanceCriteria'', ''acceptance_criteria''),
      (''estimatedComplexity'', ''estimated_complexity''), (''riskAssessment'', ''risk_assessment''),
      (''previousErrors'', ''previous_errors'')]"

definition normal_members :: "(string \<times> string) list \<Rightarrow> (string \<rightharpoonup> string)" where
  "normal_members ms =
     fold (\<lambda>(k, v) m. m((case map_of plan_keys k of Some mapped \<Rightarrow> mapped | None \<Rightarrow> k) \<mapsto> v)) ms Map.empty"

definition normalizeJSONKeys :: "plan_decoders \<Rightarrow> string \<Rightarrow> string option" where
  "normalizeJSONKeys d jsonStr =
     (case pd_members d jsonStr of None \<Rightarrow> None | Some ms \<Rightarrow> pd_encode d (normal_members ms))"

definition plan_filled :: "structured_plan \<Rightarrow> bool" where
  "plan_filled p \<longleftrightarrow> sp_Summary p \<noteq> [] \<or> sp_Steps p \<noteq> []"

definition inner_normalized :: "plan_decoders \<Rightarrow> string \<Rightarrow> structured_plan option" where
  "inner_normalized d response =
     (case normalizeJSONKeys d response of
        None \<Rightarrow> None
      | Some normalized \<Rightarrow>
          (case robustParseJSON (pd_plan d) normalized of
             Inr p \<Rightarrow> if plan_filled p then Some p else None | Inl _ \<Rightarrow> None))"

definition envelope_plan :: "plan_decoders \<Rightarrow> string \<Rightarrow> structured_plan option" where
  "envelope_plan d jsonStr =
     (case robustParseJSON (pd_response d) jsonStr of
        Inl _ \<Rightarrow> None
      | Inr response \<Rightarrow>
          if response = [] then None
          else case robustParseJSON (pd_plan d) response of
                 Inr p \<Rightarrow> if plan_filled p then Some p else inner_normalized d response
               | Inl _ \<Rightarrow> inner_normalized d response)"

definition flexUnmarshalPlan :: "plan_decoders \<Rightarrow> string \<Rightarrow> (json_failure, structured_plan) result" where
  "flexUnmarshalPlan d jsonStr =
     (case robustParseJSON (pd_plan d) jsonStr of
        Inl e \<Rightarrow> Inl e
      | Inr plan \<Rightarrow>
          if plan_filled plan \<or> sp_AcceptanceCriteria plan \<noteq> [] \<or> sp_FilesToModify plan \<noteq> [] then Inr plan
          else case envelope_plan d jsonStr of
                 Some p \<Rightarrow> Inr p
               | None \<Rightarrow>
                   (case normalizeJSONKeys d jsonStr of
                      None \<Rightarrow> Inr plan
                    | Some normalized \<Rightarrow>
                        (case robustParseJSON (pd_plan d) normalized of Inr p \<Rightarrow> Inr p | Inl _ \<Rightarrow> Inr plan)))"


section \<open>Objects are found whole\<close>

fun in_string :: "json_state \<Rightarrow> bool" where
  "in_string InString = True"
| "in_string InEsc = True"
| "in_string (InHex n) = True"
| "in_string _ = False"

definition objects :: "json_parse list \<Rightarrow> int" where
  "objects stack = int (length (filter (\<lambda>p. p \<noteq> ArrayValue) stack))"

lemma objects_simps [simp]:
  "objects [] = 0" "objects (ArrayValue # ps) = objects ps" "objects (ObjectKey # ps) = objects ps + 1"
  "objects (ObjectValue # ps) = objects ps + 1"
  by (simp_all add: objects_def)

definition plain :: "char \<Rightarrow> bool" where
  "plain c \<longleftrightarrow> c \<notin> {CHR 0x22, CHR 0x5C, CHR ''{'', CHR ''}''}"

definition lit_ok :: "json_state \<Rightarrow> bool" where
  "lit_ok st \<longleftrightarrow> (case st of Lit l \<Rightarrow> list_all plain l | _ \<Rightarrow> True)"

text \<open>The stack of a scanner inside an object: the outermost value is that object.\<close>

definition inside_object :: "json_conf \<Rightarrow> bool" where
  "inside_object conf \<longleftrightarrow> (case conf of (st, stack) \<Rightarrow>
     st \<noteq> Bad \<and> st \<noteq> EndTop \<and> stack \<noteq> [] \<and> last stack \<noteq> ArrayValue \<and> (st = BeginStringOrEmpty \<longrightarrow> hd stack = ObjectKey) \<and> lit_ok st)"

lemma objects_nonneg: "0 \<le> objects stack"
  by (simp add: objects_def)

lemma objects_pos: "stack \<noteq> [] \<Longrightarrow> last stack \<noteq> ArrayValue \<Longrightarrow> 0 < objects stack"
  by (auto simp: objects_def filter_empty_conv intro: last_in_set)

lemma hex_plain: "is_hex c \<Longrightarrow> c \<noteq> CHR 0x22 \<and> c \<noteq> CHR 0x5C"
  by (auto simp: is_hex_def)

lemma digit_plain: "is_digit c \<Longrightarrow> c \<noteq> CHR 0x22 \<and> c \<noteq> CHR 0x5C \<and> c \<noteq> CHR ''{'' \<and> c \<noteq> CHR ''}''"
  by (auto simp: is_digit_def)

lemma space_plain: "json_space c \<Longrightarrow> c \<noteq> CHR 0x22 \<and> c \<noteq> CHR 0x5C \<and> c \<noteq> CHR ''{'' \<and> c \<noteq> CHR ''}''"
  by (auto simp: json_space_def)

text \<open>
  What a step outside strings does to the stack, as the counting of braces sees it: \<open>tracks c stack conf\<close>.
\<close>

definition tracks :: "char \<Rightarrow> json_parse list \<Rightarrow> json_conf \<Rightarrow> bool" where
  "tracks c stack conf \<longleftrightarrow> (case conf of (st, stack') \<Rightarrow>
     st = Bad \<or>
     (c \<noteq> CHR 0x5C \<and> st \<noteq> InEsc \<and> in_string st = (c = CHR 0x22) \<and> brace_depth c True (objects stack) = objects stack' \<and>
      (stack' = [] \<longleftrightarrow> st = EndTop) \<and> (st = BeginStringOrEmpty \<longrightarrow> hd stack' = ObjectKey) \<and>
      (stack' \<noteq> [] \<longrightarrow> last stack' \<noteq> ArrayValue) \<and> lit_ok st))"

lemma end_value_tracks:
  assumes "stack \<noteq> []" "last stack \<noteq> ArrayValue"
  shows "tracks c stack (end_value c stack)"
proof -
  obtain p ps where s: "stack = p # ps" using assms(1) by (cases stack) auto
  show ?thesis
    using assms(2) space_plain [of c]
    by (cases p) (auto simp: s tracks_def lit_ok_def end_value_def pop_state_def brace_depth_def split: if_splits)
qed


lemma begin_string_tracks:
  "stack \<noteq> [] \<Longrightarrow> last stack \<noteq> ArrayValue \<Longrightarrow> tracks c stack (begin_string c stack)"
  using space_plain [of c] by (auto simp: tracks_def lit_ok_def begin_string_def brace_depth_def)

lemma begin_value_tracks:
  "stack \<noteq> [] \<Longrightarrow> last stack \<noteq> ArrayValue \<Longrightarrow> tracks c stack (begin_value c stack)"
  using space_plain [of c] digit_plain [of c]
  by (auto simp: tracks_def lit_ok_def plain_def begin_value_def push_state_def brace_depth_def)

lemma after_zero_tracks:
  "stack \<noteq> [] \<Longrightarrow> last stack \<noteq> ArrayValue \<Longrightarrow> tracks c stack (after_zero c stack)"
  using end_value_tracks [of stack c] by (auto simp: after_zero_def tracks_def lit_ok_def brace_depth_def)

lemma tracks_stay:
  "stack \<noteq> [] \<Longrightarrow> last stack \<noteq> ArrayValue \<Longrightarrow> c \<notin> {CHR 0x22, CHR 0x5C, CHR ''{'', CHR ''}''} \<Longrightarrow> \<not> in_string st \<Longrightarrow>
     st \<noteq> EndTop \<Longrightarrow> (st = BeginStringOrEmpty \<longrightarrow> hd stack = ObjectKey) \<Longrightarrow> lit_ok st \<Longrightarrow> tracks c stack (st, stack)"
  by (auto simp: tracks_def brace_depth_def)

lemma tracks_bad [simp]: "tracks c stack (Bad, stack')"
  by (simp add: tracks_def)

lemma empty_object_tracks:
  assumes "stack \<noteq> []" "last stack \<noteq> ArrayValue" "hd stack = ObjectKey"
  shows "tracks (CHR ''}'') stack (end_value (CHR ''}'') (ObjectValue # tl stack))"
proof -
  have "tracks (CHR ''}'') (ObjectValue # tl stack) (end_value (CHR ''}'') (ObjectValue # tl stack))"
    using assms by (intro end_value_tracks) (cases stack; auto)+
  moreover have "objects (ObjectValue # tl stack) = objects stack" using assms by (cases stack) auto
  ultimately show ?thesis by (simp only: tracks_def)
qed

lemma json_step_tracks:
  assumes "inside_object (st, stack)" and "\<not> in_string st"
  shows "tracks c stack (json_step c (st, stack))"
proof -
  have s: "stack \<noteq> []" "last stack \<noteq> ArrayValue" "st = BeginStringOrEmpty \<longrightarrow> hd stack = ObjectKey"
    using assms(1) by (auto simp: inside_object_def)
  note d = digit_plain [of c] and p = space_plain [of c] and t = tracks_stay [OF s(1,2), of c]
  note r = begin_string_tracks [OF s(1,2), of c] begin_value_tracks [OF s(1,2), of c] after_zero_tracks [OF s(1,2), of c]
    end_value_tracks [OF s(1,2), of c]
  show ?thesis
  proof (cases st)
    case BeginStringOrEmpty
    then show ?thesis using s p t r empty_object_tracks [OF s(1,2)] by (auto simp: json_step_def lit_ok_def)
  next
    case (Lit l)
    then have "list_all plain l" using assms(1) by (simp add: inside_object_def lit_ok_def)
    then show ?thesis using Lit s
      by (cases l) (auto simp: json_step_def tracks_def lit_ok_def plain_def brace_depth_def)
  qed (use assms s d p t r in \<open>auto simp: json_step_def end_top_def inside_object_def lit_ok_def\<close>)
qed


lemma quote_step_outside: "quote_step c False False = ((c = CHR 0x22, False), c \<noteq> CHR 0x22)"
  by (simp add: quote_step_def)

lemma brace_depth_quote: "brace_depth c (c \<noteq> CHR 0x22) n = brace_depth c True n"
  by (auto simp: brace_depth_def)

text \<open>The flags and the depth of the byte loops follow the scanner.\<close>

lemma json_step_sim:
  assumes "inside_object (st, stack)" and "json_step c (st, stack) = (st', stack')" and "st' \<noteq> Bad"
  shows "fst (quote_step c (in_string st) (st = InEsc)) = (in_string st', st' = InEsc) \<and>
    brace_depth c (snd (quote_step c (in_string st) (st = InEsc))) (objects stack) = objects stack' \<and>
    (stack' = [] \<longrightarrow> st' = EndTop) \<and> (stack' \<noteq> [] \<longrightarrow> inside_object (st', stack'))"
proof (cases "in_string st")
  case False
  have "tracks c stack (st', stack')"
    using json_step_tracks [OF assms(1) False, of c] assms(2) by simp
  then have t: "st' \<noteq> InEsc" "in_string st' = (c = CHR 0x22)" "brace_depth c True (objects stack) = objects stack'"
    "stack' = [] \<longrightarrow> st' = EndTop" "stack' \<noteq> [] \<longrightarrow> inside_object (st', stack')"
    using assms(3) by (simp_all add: tracks_def inside_object_def)
  have "st \<noteq> InEsc" using False by auto
  then have q: "quote_step c (in_string st) (st = InEsc) = ((c = CHR 0x22, False), c \<noteq> CHR 0x22)"
    using False by (simp add: quote_step_outside)
  show ?thesis unfolding q using t by (simp add: brace_depth_quote)
next
  case True
  have "stack' = stack \<and> fst (quote_step c True (st = InEsc)) = (in_string st', st' = InEsc) \<and>
      \<not> snd (quote_step c True (st = InEsc)) \<and> lit_ok st' \<and> st' \<noteq> BeginStringOrEmpty \<and> st' \<noteq> EndTop"
    using True
  proof (cases st)
    case InString
    then show ?thesis using assms(2,3) by (auto simp: json_step_def quote_step_def lit_ok_def split: if_splits)
  next
    case InEsc
    then show ?thesis using assms(2,3) by (auto simp: json_step_def quote_step_def lit_ok_def split: if_splits)
  next
    case (InHex n)
    then show ?thesis
      using assms(2,3) hex_plain [of c] by (auto simp: json_step_def quote_step_def lit_ok_def split: if_splits)
  qed auto
  then show ?thesis using True assms(1,3) by (auto simp: inside_object_def brace_depth_def)
qed

lemma json_run_Bad: "json_run s (Bad, stack) = (Bad, stack)"
  by (induction s) (simp_all add: json_run_def json_step_def)

lemma json_run_Cons: "json_run (c # cs) conf = json_run cs (json_step c conf)"
  by (simp add: json_run_def)

lemma json_run_end: "json_run cs (EndTop, []) = (EndTop, []) \<Longrightarrow> list_all json_space cs"
proof (induction cs)
  case (Cons c cs)
  then have "json_run cs (end_top c []) = (EndTop, [])" by (simp add: json_run_Cons json_step_def)
  then have "json_space c \<and> json_run cs (EndTop, []) = (EndTop, [])"
    by (auto simp: end_top_def json_run_Bad split: if_splits)
  then show ?case using Cons.IH by simp
qed simp

lemma match_object_run:
  assumes "inside_object (st, stack)" and "json_run s (st, stack) = (EndTop, [])" and "s \<noteq> []" and "last s = CHR ''}''"
  shows "match_object (objects stack) (in_string st) (st = InEsc) (s @ post) = Some (length s)"
  using assms
proof (induction s arbitrary: st stack)
  case (Cons c cs)
  obtain st' stack' where n: "json_step c (st, stack) = (st', stack')" by fastforce
  then have r: "json_run cs (st', stack') = (EndTop, [])" using Cons.prems(2) by (simp add: json_run_Cons)
  then have b: "st' \<noteq> Bad" using json_run_Bad by fastforce
  let ?q = "quote_step c (in_string st) (st = InEsc)"
  note sim = json_step_sim [OF Cons.prems(1) n b]
  show ?case
  proof (cases "stack' = []")
    case True
    have "0 < objects stack" using Cons.prems(1) by (auto simp: inside_object_def intro: objects_pos)
    then have e: "snd ?q" "c = CHR ''}''" "brace_depth c (snd ?q) (objects stack) = 0"
      using sim True by (auto simp: brace_depth_def split: if_splits)
    have "cs = []"
    proof (rule ccontr)
      assume "cs \<noteq> []"
      moreover have "list_all json_space cs" using r sim True json_run_end by simp
      ultimately have "json_space (last cs)" by (simp add: list_all_iff)
      then show False using Cons.prems(4) \<open>cs \<noteq> []\<close> space_plain by auto
    qed
    then show ?thesis using e by (simp add: Let_def)
  next
    case False
    then have i: "inside_object (st', stack')" using sim by blast
    then have "0 < objects stack'" by (auto simp: inside_object_def intro: objects_pos)
    moreover have "cs \<noteq> []" using r False by (auto simp: json_run_def)
    ultimately show ?thesis
      using sim Cons.IH [OF i r] Cons.prems(4) by (simp add: Let_def)
  qed
qed simp


lemma json_run_inside:
  "fst conf = Bad \<or> conf = (EndTop, []) \<or> inside_object conf \<Longrightarrow>
   fst (json_run s conf) = Bad \<or> json_run s conf = (EndTop, []) \<or> inside_object (json_run s conf)"
proof (induction s arbitrary: conf)
  case Nil
  then show ?case by (simp add: json_run_def)
next
  case (Cons c cs)
  obtain st stack where c: "conf = (st, stack)" by (cases conf)
  obtain st' stack' where n: "json_step c (st, stack) = (st', stack')" by fastforce
  consider "st = Bad" | "(st, stack) = (EndTop, [])" | "inside_object (st, stack)" using Cons.prems by (auto simp: c)
  then have "st' = Bad \<or> (st', stack') = (EndTop, []) \<or> inside_object (st', stack')"
  proof cases
    case 1
    then show ?thesis using n by (simp add: json_step_def)
  next
    case 2
    then show ?thesis using n by (simp add: json_step_def end_top_def split: if_splits)
  next
    case 3
    then show ?thesis using json_step_sim [OF 3 n] by blast
  qed
  then show ?case using Cons.IH [of "(st', stack')"] by (simp add: json_run_Cons c n)
qed

lemma inside_not_done: "inside_object conf \<Longrightarrow> fst (json_step (CHR '' '') conf) \<noteq> EndTop"
proof -
  assume i: "inside_object conf"
  obtain st stack where c: "conf = (st, stack)" by (cases conf)
  obtain st' stack' where n: "json_step (CHR '' '') (st, stack) = (st', stack')" by fastforce
  have "0 < objects stack" using i by (auto simp: c inside_object_def intro: objects_pos)
  then show ?thesis
    using json_step_sim [OF i [unfolded c] n] n by (auto simp: c brace_depth_def inside_object_def)
qed

lemma valid_object_run:
  assumes "json_valid (CHR ''{'' # cs)"
  shows "json_run cs (BeginStringOrEmpty, [ObjectKey]) = (EndTop, [])"
proof -
  let ?c = "(BeginStringOrEmpty, [ObjectKey])"
  have "json_step (CHR ''{'') (BeginValue, []) = ?c"
    by (simp add: json_step_def begin_value_def json_space_def push_state_def)
  then have v: "fst (json_step (CHR '' '') (json_run cs ?c)) = EndTop" using assms by (simp add: json_valid_def json_run_Cons)
  have "inside_object ?c" by (simp add: inside_object_def lit_ok_def)
  then consider "fst (json_run cs ?c) = Bad" | "json_run cs ?c = (EndTop, [])" | "inside_object (json_run cs ?c)"
    using json_run_inside by blast
  then show ?thesis
  proof cases
    case 1
    then show ?thesis using v by (cases "json_run cs ?c") (simp add: json_step_def)
  next
    case 3
    then show ?thesis using v inside_not_done by blast
  qed simp
qed

text \<open>The byte loop ends exactly at the end of a valid object, whatever follows it.\<close>

lemma match_valid_object:
  assumes "json_valid obj" and "obj \<noteq> []" and "hd obj = CHR ''{''" and "last obj = CHR ''}''"
  shows "match_object 0 False False (obj @ post) = Some (length obj)"
proof -
  obtain cs where o: "obj = CHR ''{'' # cs" using assms(2,3) by (cases obj) auto
  have "inside_object (BeginStringOrEmpty, [ObjectKey])" by (simp add: inside_object_def lit_ok_def)
  moreover have "cs \<noteq> []" "last cs = CHR ''}''" using assms(4) by (auto simp: o split: if_splits)
  ultimately have "match_object 1 False False (cs @ post) = Some (length cs)"
    using match_object_run [of BeginStringOrEmpty "[ObjectKey]" cs post] valid_object_run assms(1) by (simp add: o)
  then show ?thesis by (simp add: o quote_step_def brace_depth_def Let_def)
qed

lemma index_str_None: "index_str s p = None \<longleftrightarrow> \<not> contains_str s p"
  by (induction s) auto

lemma contains_prefix: "contains_str s (p @ q) \<Longrightarrow> contains_str s p"
  by (auto simp: contains_str_iff)

lemma raw_object_embedded:
  assumes "json_valid obj" and "obj \<noteq> []" and "hd obj = CHR ''{''" and "last obj = CHR ''}''" and "CHR ''{'' \<notin> set pre"
  shows "raw_object (pre @ obj @ post) = obj"
proof -
  have "index_byte (pre @ obj @ post) (CHR ''{'') = Some (length pre)"
    using assms(2,3,5) by (induction pre) (auto simp: neq_Nil_conv)
  then show ?thesis using match_valid_object [OF assms(1-4)] by (simp add: raw_object_def)
qed

lemma extract_embedded:
  assumes "json_valid obj" and "obj \<noteq> []" and "hd obj = CHR ''{''" and "last obj = CHR ''}''" and "CHR ''{'' \<notin> set pre"
    and "\<not> contains_str (pre @ obj @ post) fence"
  shows "extractJSON (pre @ obj @ post) = obj"
proof -
  have "\<not> contains_str (pre @ obj @ post) json_fence"
    using assms(6) contains_prefix [of _ fence "''json''"] by (auto simp: fence_def json_fence_def)
  then have "fenced_json (pre @ obj @ post) = None" "fenced_object (pre @ obj @ post) = []"
    using assms(6) by (simp_all add: fenced_json_def fenced_object_def flip: index_str_None)
  then show ?thesis
    using raw_object_embedded [OF assms(1-5)] assms(1,2) by (simp add: extractJSON_def sanitizeJSON_def Let_def)
qed

lemma object_trimmed: "obj \<noteq> [] \<Longrightarrow> hd obj = CHR ''{'' \<Longrightarrow> last obj = CHR ''}'' \<Longrightarrow> trim_space obj = obj"
  by (simp add: trim_space_eq_iff is_space_def)

lemma sanitize_valid: "json_valid s \<Longrightarrow> trim_space s = s \<Longrightarrow> sanitizeLLMJSON s = s"
  by (simp add: sanitizeLLMJSON_def Let_def)


text \<open>The first fence is the one that was written, when no backtick stands before it.\<close>

lemma no_early_fence:
  assumes "\<not> contains_str (c # cs) fence" and "last (c # cs) \<noteq> CHR ''`''"
  shows "\<not> has_prefix (c # cs @ ys) fence"
proof (cases cs)
  case Nil
  then show ?thesis using assms(2) by (simp add: has_prefix_def fence_def)
next
  case (Cons d ds)
  show ?thesis
  proof (cases ds)
    case Nil
    then show ?thesis using assms(2) Cons by (simp add: has_prefix_def fence_def)
  next
    case (Cons e es)
    then show ?thesis using assms(1) \<open>cs = d # ds\<close> by (auto simp: has_prefix_def fence_def)
  qed
qed

lemma index_fence:
  assumes "\<not> contains_str xs fence" and "xs = [] \<or> last xs \<noteq> CHR ''`''" and "has_prefix p fence"
  shows "index_str (xs @ p @ ys) p = Some (length xs)"
  using assms(1,2)
proof (induction xs)
  case Nil
  have "has_prefix (p @ ys) p" "p \<noteq> []" using assms(3) by (auto simp: has_prefix_def fence_def)
  then show ?case by (cases "p @ ys") auto
next
  case (Cons c cs)
  have "\<not> has_prefix (c # cs @ p @ ys) fence" using Cons.prems by (intro no_early_fence) auto
  then have "\<not> has_prefix (c # cs @ p @ ys) p" using assms(3) unfolding has_prefix_iff by fastforce
  moreover have "index_str (cs @ p @ ys) p = Some (length cs)"
    using Cons.prems by (intro Cons.IH) (auto split: if_splits)
  ultimately show ?case by simp
qed

lemma trim_padded:
  assumes "list_all is_space w1" and "list_all is_space w2" and "trim_space s = s"
  shows "trim_space (w1 @ s @ w2) = s"
proof (cases "s = []")
  case True
  then have d: "dropWhile is_space (w1 @ s @ w2) = []" using assms(1,2) by (auto simp: list_all_iff dropWhile_eq_Nil_conv simp del: dropWhile_append1 dropWhile_append2)
  show ?thesis unfolding trim_space_def d by (simp add: True)
next
  case False
  then have h: "\<not> is_space (hd s)" "\<not> is_space (last s)" using assms(3) trim_space_eq_iff by blast+
  have "dropWhile is_space (w1 @ s @ w2) = s @ w2"
    using assms(1) False h(1) by (cases s) (auto simp: list_all_iff dropWhile_append)
  moreover have "dropWhile is_space (rev w2 @ rev s) = rev s"
    using assms(2) False h(2) by (cases s rule: rev_cases) (auto simp: list_all_iff dropWhile_append)
  ultimately show ?thesis by (simp add: trim_space_def)
qed

lemma fenced_embedded:
  assumes "\<not> contains_str pre fence" and "pre = [] \<or> last pre \<noteq> CHR ''`''" and "\<not> contains_str (w1 @ obj @ w2) fence"
    and "last (w1 @ obj @ w2) \<noteq> CHR ''`''" and "list_all is_space w1" and "list_all is_space w2" and "trim_space obj = obj"
  shows "fenced_json (pre @ json_fence @ w1 @ obj @ w2 @ fence @ post) = Some obj"
proof -
  have f: "has_prefix json_fence fence" "has_prefix fence fence" by code_simp+
  have "index_str (pre @ json_fence @ w1 @ obj @ w2 @ fence @ post) json_fence = Some (length pre)"
    using index_fence [OF assms(1,2) f(1)] by simp
  moreover have "index_str ((w1 @ obj @ w2) @ fence @ post) fence = Some (length (w1 @ obj @ w2))"
    using assms(3,4) f(2) by (intro index_fence) auto
  ultimately show ?thesis
    using trim_padded [OF assms(5-7)] by (simp add: fenced_json_def json_fence_def)
qed

section \<open>Properties\<close>

text \<open>
  C37. JSON in an answer is recovered unchanged: a valid object is extracted exactly and decoded, wherever it
  stands in prose that has no brace before it and no code fence, and also from the first block fenced as JSON
  if the object holds no fence; braces and quotes inside its strings do not matter.
\<close>

theorem json_recovered:
  assumes "json_valid obj" and "obj \<noteq> []" and "hd obj = CHR ''{''" and "last obj = CHR ''}''" and "decode obj = Some v"
  shows "(\<forall>pre post. CHR ''{'' \<notin> set pre \<and> \<not> contains_str (pre @ obj @ post) fence \<longrightarrow>
       extractJSON (pre @ obj @ post) = obj \<and> robustParseJSON decode (pre @ obj @ post) = Inr v) \<and>
    (\<forall>pre w1 w2 post. \<not> contains_str pre fence \<and> (pre = [] \<or> last pre \<noteq> CHR ''`'') \<and>
         \<not> contains_str (w1 @ obj @ w2) fence \<and> list_all is_space w1 \<and> list_all is_space w2 \<longrightarrow>
       robustParseJSON decode (pre @ json_fence @ w1 @ obj @ w2 @ fence @ post) = Inr v)"
proof -
  have t: "trim_space obj = obj" using assms(2-4) by (rule object_trimmed)
  have s: "sanitizeLLMJSON obj = obj" using assms(1) t by (rule sanitize_valid)
  have p: "robustParseJSON decode ans = Inr v" if "extractJSON ans = obj" for ans
    using that assms(2,5) s by (simp add: robustParseJSON_def first_some_def)
  have "extractJSON (pre @ json_fence @ w1 @ obj @ w2 @ fence @ post) = obj"
    if "\<not> contains_str pre fence" "pre = [] \<or> last pre \<noteq> CHR ''`''" "\<not> contains_str (w1 @ obj @ w2) fence"
      "list_all is_space w1" "list_all is_space w2" for pre w1 w2 post
  proof -
    have "last (w1 @ obj @ w2) \<noteq> CHR ''`''"
    proof (cases "w2 = []")
      case False
      then have "is_space (last w2)" using that(5) by (simp add: list_all_iff)
      moreover have "\<not> is_space (CHR ''`'')" by code_simp
      ultimately show ?thesis using False by auto
    qed (use assms(2,4) in simp)
    from fenced_embedded [OF that(1-3) this that(4,5) t] show ?thesis
      using assms(1,2) by (simp add: extractJSON_def sanitizeJSON_def Let_def)
  qed
  then show ?thesis using extract_embedded [OF assms(1-4)] p by blast
qed


definition sample_object :: string where
  "sample_object = ''{'' @ [CHR 0x22] @ ''a}'' @ [CHR 0x22] @ '': [1, {}]}''"

lemma sample_object_ok:
  "json_valid sample_object" "sample_object \<noteq> []" "hd sample_object = CHR ''{''" "last sample_object = CHR ''}''"
  by code_simp+

theorem json_recovered_witness:
  "robustParseJSON Some (''Sure: '' @ sample_object @ '' {done}'') = Inr sample_object \<and>
   robustParseJSON Some (''Here:'' @ nl @ json_fence @ nl @ sample_object @ nl @ fence @ ''{'') = Inr sample_object"
proof -
  note r = json_recovered [OF sample_object_ok, of Some, OF refl]
  have "CHR ''{'' \<notin> set ''Sure: ''" "\<not> contains_str (''Sure: '' @ sample_object @ '' {done}'') fence" by code_simp+
  moreover have "\<not> contains_str (''Here:'' @ nl) fence" "\<not> contains_str (nl @ sample_object @ nl) fence" "list_all is_space nl"
    "last (''Here:'' @ nl) \<noteq> CHR ''`''" by code_simp+
  ultimately show ?thesis
    using r [THEN conjunct1, rule_format, of "''Sure: ''" "'' {done}''"]
      r [THEN conjunct2, rule_format, of "''Here:'' @ nl" nl nl "''{''"] by simp
qed

text \<open>
  What is not recovered: an object that was cut off outside a fence is not even looked at, although closing
  it would make it valid; braces are closed before brackets, whatever was opened last; a bracket inside a string ends an array; a comma before a bracket is dropped inside
  strings too; and after an escaped backslash the end of a string is missed.
\<close>

definition truncated_object :: string where
  "truncated_object = ''{'' @ [CHR 0x22] @ ''a'' @ [CHR 0x22] @ '':1''"

lemma truncated_texts:
  "extractJSON truncated_object = []" "sanitizeLLMJSON truncated_object = truncated_object"
  "nukeInvalidBackslashes truncated_object = truncated_object" "fenced_json truncated_object = None"
  by code_simp+

lemma truncated_object_lost:
  "json_valid (repairTruncatedJSONArray truncated_object)" "robustParseJSON dec truncated_object = Inl (NoJSON 6)"
proof -
  show "json_valid (repairTruncatedJSONArray truncated_object)" by code_simp
  show "robustParseJSON dec truncated_object = Inl (NoJSON 6)"
    by (simp add: robustParseJSON_def truncated_texts try_decode_def truncated_attempt_def first_some_def)
      (simp add: truncated_object_def)
qed

lemma mixed_nesting_not_repaired:
  "let s = ''{'' @ [CHR 0x22] @ ''a'' @ [CHR 0x22] @ '':[1'' in json_valid (s @ '']}'') \<and> repairTruncatedJSONArray s = s"
  by code_simp

lemma array_bracket_in_string:
  "let s = ''['' @ [CHR 0x22] @ ''a]b'' @ [CHR 0x22] @ '']'' in json_valid s \<and> extractJSONArray s \<noteq> s \<and> \<not> json_valid (extractJSONArray s)"
  by code_simp

lemma comma_in_string:
  "let q = [CHR 0x22] in sanitizeJSON (''{'' @ q @ ''a'' @ q @ '':'' @ q @ ''x,]'' @ q @ '',}'') = ''{'' @ q @ ''a'' @ q @ '':'' @ q @ ''x]'' @ q @ ''}''"
  by code_simp

lemma escaped_backslash_end:
  "let q = [CHR 0x22]; bs = [CHR 0x5C]; s = ''['' @ q @ bs @ bs @ q @ '',0'' @ bs @ '']''
   in nukeInvalidBackslashes s = ''['' @ q @ bs @ bs @ q @ '',0''"
  by code_simp

end
