(* ===== verification/Crab_Workflow.thy ===== *)
theory Crab_Workflow
  imports Crab_Plan Task_Dag Llm_Json
begin

text \<open>
  The decomposition of a plan into whales and morsels: the activities of \<open>internal/temporal/crab_activities.go\<close> and
  \<open>CrabDecompositionWorkflow\<close> of \<open>workflow_crab.go\<close>.

  \<^item> What a language model answers is part of the environment, as the text it returns; the text goes through the
    extraction and repair of \<open>Llm_Json\<close> and a decoder that is a parameter, as the decoding into Go structs is
    the standard library's. Prompts are not modelled.
  \<^item> The emission works on the task graph of \<open>Task_Dag\<close>: a run takes the random draws of \<open>CreateTask\<close> per call, and
    is undefined (\<open>None\<close>) where the cycle check of \<open>AddEdge\<close> would not return; that this never
    happens is proved.
  \<^item> The lines of \<open>Details\<close> are values of a type of their own; durations and log lines are left out.
\<close>

section \<open>Types\<close>

record clarification_entry =
  cn_Question :: string
  cn_Answer :: string
  cn_Source :: string

record clarification =
  cq_Resolved :: "clarification_entry list"
  cq_NeedsHumanInput :: bool
  cq_HumanQuestions :: "string list"
  cq_HumanAnswers :: string
  cq_Tokens :: token_usage

record candidate_morsel =
  cm_Index :: int
  cm_Title :: string
  cm_Description :: string
  cm_AcceptanceCriteria :: string
  cm_DesignHints :: string
  cm_FileHints :: "string list"
  cm_DependsOnIndices :: "int list"

record candidate_whale =
  cw_Index :: int
  cw_Title :: string
  cw_Description :: string
  cw_AcceptanceCriteria :: string
  cw_Morsels :: "candidate_morsel list"
  cw_ParentScopeItem :: int

record sized_morsel =
  sz_Title :: string
  sz_Description :: string
  sz_AcceptanceCriteria :: string
  sz_Design :: string
  sz_EstimateMinutes :: int
  sz_Priority :: int
  sz_Labels :: "string list"
  sz_FileHints :: "string list"
  sz_DependsOnIndices :: "int list"
  sz_WhaleIndex :: int
  sz_RiskLevel :: string
  sz_SizingRationale :: string

record crab_request =
  kr_PlanID :: string
  kr_Project :: string
  kr_WorkDir :: string
  kr_PlanMarkdown :: string
  kr_Tier :: string
  kr_ParentWhaleID :: string
  kr_RequireHumanReview :: bool
  kr_DisableTurtleEscalation :: bool

datatype emit_detail =
    WhaleFailed string
  | WhaleCreated string string
  | MorselSkipped string int
  | MorselFailed string
  | MorselCreated string string string
  | EdgeSkipped nat int
  | EdgeFailed string string
  | EdgeCreated string string

record emit_result =
  em_WhaleIDs :: "string list"
  em_MorselIDs :: "string list"
  em_FailedCount :: nat
  em_Details :: "emit_detail list"

record crab_result =
  kd_Status :: string
  kd_PlanID :: string
  kd_WhalesEmitted :: "string list"
  kd_MorselsEmitted :: "string list"
  kd_Steps :: "(string \<times> string) list"
  kd_TotalTokens :: token_usage

section \<open>Clarification\<close>

text \<open>The first tier: each open scope item for which the lessons have an answer is resolved by it.\<close>

definition item_question :: "string \<Rightarrow> string" where
  "item_question desc = ''Context for scope item: '' @ desc"

definition human_question :: "string \<Rightarrow> string" where
  "human_question desc = ''Please clarify scope item: '' @ desc"

definition lesson_entry :: "string \<Rightarrow> (string \<times> string) list \<Rightarrow> clarification_entry" where
  "lesson_entry desc lessons =
     \<lparr>cn_Question = item_question desc,
      cn_Answer = join_with ''; '' (map (\<lambda>(category, summary). ''['' @ category @ ''] '' @ summary) lessons),
      cn_Source = ''lessons_db''\<rparr>"

fun self_answer ::
  "(string \<Rightarrow> (string \<times> string) list option) option \<Rightarrow> scope_item list \<Rightarrow> clarification_entry list \<times> scope_item list" where
  "self_answer store [] = ([], [])"
| "self_answer store (item # items) =
     (case self_answer store items of (resolved, unresolved) \<Rightarrow>
        if si_Completed item then (resolved, unresolved)
        else case (case store of None \<Rightarrow> None | Some search \<Rightarrow> search (si_Description item)) of
               Some (l # ls) \<Rightarrow> (lesson_entry (si_Description item) (l # ls) # resolved, unresolved)
             | _ \<Rightarrow> (resolved, item # unresolved))"

text \<open>The second tier: the answers of the chief, those that do not ask for a human.\<close>

definition chief_entries :: "(string \<times> string) list \<Rightarrow> clarification_entry list" where
  "chief_entries answers =
     map (\<lambda>(item, answer). \<lparr>cn_Question = item_question item, cn_Answer = answer, cn_Source = ''chief_llm''\<rparr>)
       (filter (\<lambda>(item, answer). \<not> has_prefix answer ''NEEDS_HUMAN:'') answers)"

definition ask_chief ::
  "(string \<Rightarrow> (string \<times> string) list option) \<Rightarrow> string \<Rightarrow> scope_item list \<Rightarrow> clarification_entry list \<times> scope_item list" where
  "ask_chief decode output unresolved =
     (let jsonStr = extractJSONArray output
      in if jsonStr = [] then ([], unresolved)
         else case robustParseJSONArray decode jsonStr of
                Inl _ \<Rightarrow> ([], unresolved)
              | Inr answers \<Rightarrow>
                  (let answered = map fst (filter (\<lambda>(item, answer). \<not> has_prefix answer ''NEEDS_HUMAN:'') answers)
                   in (chief_entries answers, filter (\<lambda>it. si_Description it \<notin> set answered) unresolved)))"

definition ClarifyGapsActivity ::
  "(string \<Rightarrow> (string \<times> string) list option) option \<Rightarrow> (string \<times> token_usage) option
     \<Rightarrow> (string \<Rightarrow> (string \<times> string) list option) \<Rightarrow> parsed_plan \<Rightarrow> clarification" where
  "ClarifyGapsActivity store chief decode plan =
     (case self_answer store (pp_ScopeItems plan) of (resolved, unresolved) \<Rightarrow>
        if unresolved = [] then
          \<lparr>cq_Resolved = resolved, cq_NeedsHumanInput = False, cq_HumanQuestions = [], cq_HumanAnswers = [], cq_Tokens = no_tokens\<rparr>
        else
          (case (case chief of None \<Rightarrow> ([], unresolved) | Some (output, _) \<Rightarrow> ask_chief decode output unresolved) of
             (answers, rest) \<Rightarrow>
               \<lparr>cq_Resolved = resolved @ answers, cq_NeedsHumanInput = (rest \<noteq> []),
                cq_HumanQuestions = map (\<lambda>it. human_question (si_Description it)) rest,
                cq_HumanAnswers = [], cq_Tokens = (case chief of None \<Rightarrow> no_tokens | Some (_, tokens) \<Rightarrow> tokens)\<rparr>))"

section \<open>Decomposition, scoping, sizing\<close>

datatype crab_error = AgentFailed string | NoJSONFound | Unparseable | ZeroWhales | ZeroMorsels | DagMissing | PlanRejected plan_error

text \<open>Extraction and decoding of the agent's answer, common to the three activities.\<close>

definition parse_answer :: "(string \<Rightarrow> 'a option) \<Rightarrow> string \<Rightarrow> (crab_error, 'a) result" where
  "parse_answer decode jsonStr =
     (if jsonStr = [] then Inl NoJSONFound
      else case robustParseJSONArray decode jsonStr of Inl _ \<Rightarrow> Inl Unparseable | Inr v \<Rightarrow> Inr v)"

definition total_morsels :: "candidate_whale list \<Rightarrow> nat" where
  "total_morsels whales = sum_list (map (length \<circ> cw_Morsels) whales)"

fun cap_morsels :: "nat \<Rightarrow> candidate_whale list \<Rightarrow> candidate_whale list" where
  "cap_morsels remaining [] = []"
| "cap_morsels remaining (w # ws) =
     (if remaining = 0 then w\<lparr>cw_Morsels := []\<rparr> # cap_morsels remaining ws
      else let ms = (if length (cw_Morsels w) > remaining then take remaining (cw_Morsels w) else cw_Morsels w)
           in w\<lparr>cw_Morsels := ms\<rparr> # cap_morsels (remaining - length ms) ws)"

definition DecomposeActivity ::
  "string + string \<Rightarrow> (string \<Rightarrow> candidate_whale list option) \<Rightarrow> (crab_error, candidate_whale list) result" where
  "DecomposeActivity agent decode =
     (case agent of Inl e \<Rightarrow> Inl (AgentFailed e)
      | Inr output \<Rightarrow>
          (if extractJSONArray output = [] then Inl NoJSONFound
           else case robustParseJSONArray decode (sanitizeLLMJSON (extractJSONArray output)) of
             Inl _ \<Rightarrow> Inl Unparseable
           | Inr whales \<Rightarrow>
               if whales = [] then Inl ZeroWhales
               else Inr (if total_morsels whales > 50 then cap_morsels 50 whales else whales)))"

definition ScopeMorselsActivity ::
  "string + string \<Rightarrow> (string \<Rightarrow> candidate_whale list option) \<Rightarrow> (crab_error, candidate_whale list) result" where
  "ScopeMorselsActivity agent decode =
     (case agent of Inl e \<Rightarrow> Inl (AgentFailed e) | Inr output \<Rightarrow> parse_answer decode (extractJSONArray output))"

definition SizeMorselsActivity ::
  "string + string \<Rightarrow> (string \<Rightarrow> sized_morsel list option) \<Rightarrow> (crab_error, sized_morsel list) result" where
  "SizeMorselsActivity agent decode =
     (case agent of Inl e \<Rightarrow> Inl (AgentFailed e)
      | Inr output \<Rightarrow>
          (case parse_answer decode (extractJSONArray output) of
             Inl e \<Rightarrow> Inl e
           | Inr ms \<Rightarrow> if ms = [] then Inl ZeroMorsels else Inr (if length ms > 50 then take 50 ms else ms)))"

section \<open>Emission\<close>

definition blank_task :: task where
  "blank_task = \<lparr>task_ID = [], task_Title = [], task_Description = [], task_Status = [], task_Priority = 0, task_Type = [],
     task_Assignee = [], task_Labels = [], task_EstimateMinutes = 0, task_ParentID = [], task_Acceptance = [], task_Design = [],
     task_Notes = [], task_DependsOn = [], task_Project = [], task_ErrorLog = [], task_Complexity = 0, task_CreatedAt = 0,
     task_UpdatedAt = 0\<rparr>"

definition whale_task :: "crab_request \<Rightarrow> candidate_whale \<Rightarrow> task" where
  "whale_task req w = blank_task\<lparr>task_Title := cw_Title w, task_Description := cw_Description w, task_Type := ''whale'',
     task_Priority := 1, task_ParentID := kr_ParentWhaleID req, task_Acceptance := cw_AcceptanceCriteria w,
     task_Labels := [''source:crab'', ''plan:'' @ kr_PlanID req], task_Project := kr_Project req\<rparr>"

definition morsel_task :: "crab_request \<Rightarrow> sized_morsel \<Rightarrow> string \<Rightarrow> task" where
  "morsel_task req m whaleID = blank_task\<lparr>task_Title := sz_Title m, task_Description := sz_Description m, task_Type := ''morsel'',
     task_Priority := sz_Priority m, task_ParentID := whaleID, task_Acceptance := sz_AcceptanceCriteria m,
     task_Design := sz_Design m, task_EstimateMinutes := sz_EstimateMinutes m,
     task_Labels := sz_Labels m @ [''source:crab'', ''plan:'' @ kr_PlanID req] @ (if sz_RiskLevel m = ''high'' then [''risk:high''] else []),
     task_Project := kr_Project req\<rparr>"

text \<open>The variables of the activity: the two maps, the result and the database; \<open>ex_calls\<close> numbers the calls of \<open>CreateTask\<close>.\<close>

record emit_state =
  ex_whales :: "int \<rightharpoonup> string"
  ex_morsels :: "nat \<rightharpoonup> string"
  ex_result :: emit_result
  ex_dag :: dag_db
  ex_calls :: nat

definition emit_detail_line :: "emit_detail \<Rightarrow> emit_state \<Rightarrow> emit_state" where
  "emit_detail_line d s = s\<lparr>ex_result := (ex_result s)\<lparr>em_Details := em_Details (ex_result s) @ [d]\<rparr>\<rparr>"

definition emit_failure :: "emit_detail \<Rightarrow> emit_state \<Rightarrow> emit_state" where
  "emit_failure d s = emit_detail_line d (s\<lparr>ex_result := (ex_result s)\<lparr>em_FailedCount := Suc (em_FailedCount (ex_result s))\<rparr>\<rparr>)"

definition emit_whale :: "crab_request \<Rightarrow> int \<Rightarrow> (nat \<Rightarrow> nat \<Rightarrow> nat option) \<Rightarrow> candidate_whale \<Rightarrow> emit_state \<Rightarrow> emit_state" where
  "emit_whale req now draws w s =
     (let s0 = s\<lparr>ex_calls := Suc (ex_calls s)\<rparr>
      in case CreateTask (Some (ex_dag s)) (whale_task req w) now (draws (ex_calls s)) of
           Inl _ \<Rightarrow> emit_failure (WhaleFailed (cw_Title w)) s0
         | Inr (whaleID, db') \<Rightarrow>
             emit_detail_line (WhaleCreated (cw_Title w) whaleID)
               (s0\<lparr>ex_dag := db', ex_whales := (ex_whales s)(cw_Index w \<mapsto> whaleID),
                   ex_result := (ex_result s)\<lparr>em_WhaleIDs := em_WhaleIDs (ex_result s) @ [whaleID]\<rparr>\<rparr>))"

definition emit_morsel ::
  "crab_request \<Rightarrow> int \<Rightarrow> (nat \<Rightarrow> nat \<Rightarrow> nat option) \<Rightarrow> nat \<times> sized_morsel \<Rightarrow> emit_state \<Rightarrow> emit_state" where
  "emit_morsel req now draws im s =
     (case im of (i, m) \<Rightarrow>
        (case ex_whales s (sz_WhaleIndex m) of
           None \<Rightarrow> emit_failure (MorselSkipped (sz_Title m) (sz_WhaleIndex m)) s
         | Some whaleID \<Rightarrow>
             (let s0 = s\<lparr>ex_calls := Suc (ex_calls s)\<rparr>
              in case CreateTask (Some (ex_dag s)) (morsel_task req m whaleID) now (draws (ex_calls s)) of
                   Inl _ \<Rightarrow> emit_failure (MorselFailed (sz_Title m)) s0
                 | Inr (morselID, db') \<Rightarrow>
                     emit_detail_line (MorselCreated (sz_Title m) morselID whaleID)
                       (s0\<lparr>ex_dag := db', ex_morsels := (ex_morsels s)(i \<mapsto> morselID),
                           ex_result := (ex_result s)\<lparr>em_MorselIDs := em_MorselIDs (ex_result s) @ [morselID]\<rparr>\<rparr>))))"

text \<open>\<open>morselIDMap[depIdx]\<close>: a negative index is never in the map.\<close>

definition emit_edge :: "nat \<Rightarrow> string \<Rightarrow> int \<Rightarrow> emit_state option \<Rightarrow> emit_state option" where
  "emit_edge i fromID depIdx os =
     (case os of None \<Rightarrow> None
      | Some s \<Rightarrow>
          (case (if depIdx < 0 then None else ex_morsels s (nat depIdx)) of
             None \<Rightarrow> Some (emit_detail_line (EdgeSkipped i depIdx) s)
           | Some toID \<Rightarrow>
               (case AddEdge (Some (ex_dag s)) fromID toID of
                  None \<Rightarrow> None
                | Some (Inl _) \<Rightarrow> Some (emit_failure (EdgeFailed fromID toID) s)
                | Some (Inr db') \<Rightarrow> Some (emit_detail_line (EdgeCreated fromID toID) (s\<lparr>ex_dag := db'\<rparr>)))))"

definition emit_edges :: "nat \<times> sized_morsel \<Rightarrow> emit_state option \<Rightarrow> emit_state option" where
  "emit_edges im os =
     (case os of None \<Rightarrow> None
      | Some s \<Rightarrow>
          (case im of (i, m) \<Rightarrow>
             (case ex_morsels s i of None \<Rightarrow> Some s
              | Some fromID \<Rightarrow> fold (emit_edge i fromID) (sz_DependsOnIndices m) (Some s))))"

definition emit_start :: "dag_db \<Rightarrow> emit_state" where
  "emit_start db = \<lparr>ex_whales = Map.empty, ex_morsels = Map.empty,
     ex_result = \<lparr>em_WhaleIDs = [], em_MorselIDs = [], em_FailedCount = 0, em_Details = []\<rparr>, ex_dag = db, ex_calls = 0\<rparr>"

definition emit_tasks ::
  "crab_request \<Rightarrow> int \<Rightarrow> (nat \<Rightarrow> nat \<Rightarrow> nat option) \<Rightarrow> candidate_whale list \<Rightarrow> sized_morsel list \<Rightarrow> dag_db \<Rightarrow> emit_state" where
  "emit_tasks req now draws whales morsels db =
     fold (emit_morsel req now draws) (enumerate 0 morsels) (fold (emit_whale req now draws) whales (emit_start db))"

definition EmitMorselsActivity ::
  "crab_request \<Rightarrow> int \<Rightarrow> (nat \<Rightarrow> nat \<Rightarrow> nat option) \<Rightarrow> candidate_whale list \<Rightarrow> sized_morsel list \<Rightarrow> dag_db option
     \<Rightarrow> (crab_error, emit_result \<times> dag_db) result option" where
  "EmitMorselsActivity req now draws whales morsels d =
     (case d of None \<Rightarrow> Some (Inl DagMissing)
      | Some db \<Rightarrow>
          map_option (\<lambda>s. Inr (ex_result s, ex_dag s))
            (fold emit_edges (enumerate 0 morsels) (Some (emit_tasks req now draws whales morsels db))))"

section \<open>The workflow\<close>

text \<open>What the outside world answers in one run.\<close>

record crab_env =
  ke_lessons :: "(string \<Rightarrow> (string \<times> string) list option) option"
  ke_clarify_ok :: bool
  ke_chief :: "(string \<times> token_usage) option"
  ke_decode_answers :: "string \<Rightarrow> (string \<times> string) list option"
  ke_human :: "string option"
  ke_blast_ok :: bool
  ke_decompose :: "string + string"
  ke_scope :: "string + string"
  ke_decode_whales :: "string \<Rightarrow> candidate_whale list option"
  ke_size :: "string + string"
  ke_decode_sized :: "string \<Rightarrow> sized_morsel list option"
  ke_review :: "string option"
  ke_draws :: "nat \<Rightarrow> nat \<Rightarrow> nat option"
  ke_now :: int
  ke_ceremony_ok :: bool

datatype crab_event = CrabNotify string | CrabHealth string | OrganismLog string nat | CeremonyChild string

datatype crab_failure = PlanningEscalationFailed

definition escalateToPlanningCeremony ::
  "crab_env \<Rightarrow> crab_request \<Rightarrow> string \<Rightarrow> crab_event list \<Rightarrow> (crab_failure, crab_result) result \<times> crab_event list" where
  "escalateToPlanningCeremony env req reason ev =
     (let ev' = ev @ [CrabNotify ''crab_escalate'', CeremonyChild reason]
      in if ke_ceremony_ok env then
           (Inr \<lparr>kd_Status = ''escalated'', kd_PlanID = kr_PlanID req, kd_WhalesEmitted = [], kd_MorselsEmitted = [], kd_Steps = [],
                 kd_TotalTokens = no_tokens\<rparr>, ev')
         else (Inl PlanningEscalationFailed, ev'))"

definition failOrEscalateToPlanning ::
  "crab_env \<Rightarrow> crab_request \<Rightarrow> string \<Rightarrow> (string \<times> string) list \<Rightarrow> token_usage \<Rightarrow> crab_event list
     \<Rightarrow> (crab_failure, crab_result) result \<times> crab_event list" where
  "failOrEscalateToPlanning env req reason steps tokens ev =
     (if kr_DisableTurtleEscalation req then
        (Inr \<lparr>kd_Status = ''failed'', kd_PlanID = kr_PlanID req, kd_WhalesEmitted = [], kd_MorselsEmitted = [], kd_Steps = steps,
              kd_TotalTokens = tokens\<rparr>, ev)
      else escalateToPlanningCeremony env req reason ev)"

definition clarify_phase :: "crab_env \<Rightarrow> parsed_plan \<Rightarrow> clarification" where
  "clarify_phase env plan =
     (let c = (if ke_clarify_ok env then ClarifyGapsActivity (ke_lessons env) (ke_chief env) (ke_decode_answers env) plan
               else \<lparr>cq_Resolved = [], cq_NeedsHumanInput = False, cq_HumanQuestions = [], cq_HumanAnswers = [], cq_Tokens = no_tokens\<rparr>)
      in if cq_NeedsHumanInput c then
           c\<lparr>cq_HumanAnswers := (case ke_human env of
                None \<Rightarrow> ''Human ignored clarification request. Proceeding with best judgement.'' | Some a \<Rightarrow> a),
             cq_NeedsHumanInput := False\<rparr>
         else c)"

definition review_decision :: "crab_env \<Rightarrow> crab_request \<Rightarrow> string" where
  "review_decision env req =
     (if kr_RequireHumanReview req then (case ke_review env of None \<Rightarrow> ''APPROVED'' | Some d \<Rightarrow> d) else ''APPROVED'')"

definition step_status :: "bool \<Rightarrow> string" where
  "step_status ok = (if ok then ''ok'' else ''failed'')"

text \<open>From the sized morsels to the end: the review gate and the emission.\<close>

definition review_and_emit ::
  "crab_env \<Rightarrow> crab_request \<Rightarrow> candidate_whale list \<Rightarrow> sized_morsel list \<Rightarrow> (string \<times> string) list \<Rightarrow> token_usage \<Rightarrow> crab_event list
     \<Rightarrow> dag_db option \<Rightarrow> ((crab_failure, crab_result) result \<times> crab_event list \<times> dag_db option) option" where
  "review_and_emit env req whales sized steps tokens ev d =
     (if review_decision env req \<noteq> ''APPROVED'' then
        Some (Inr \<lparr>kd_Status = ''rejected'', kd_PlanID = kr_PlanID req, kd_WhalesEmitted = [], kd_MorselsEmitted = [],
                   kd_Steps = steps @ [(''review'', ''rejected'')], kd_TotalTokens = tokens\<rparr>,
              ev @ [CrabHealth ''crab_rejected'', OrganismLog ''rejected'' 6], d)
      else
        (let steps6 = steps @ [(''review'', ''ok'')]
         in case EmitMorselsActivity req (ke_now env) (ke_draws env) whales sized d of
              None \<Rightarrow> None
            | Some (Inl _) \<Rightarrow>
                (case failOrEscalateToPlanning env req ''emit failed'' (steps6 @ [(''emit'', ''failed'')]) tokens
                        (ev @ [CrabHealth ''crab_emit_failed'']) of
                   (res, ev') \<Rightarrow> Some (res, ev', d))
            | Some (Inr (em, db')) \<Rightarrow>
                Some (Inr \<lparr>kd_Status = ''completed'', kd_PlanID = kr_PlanID req, kd_WhalesEmitted = em_WhaleIDs em,
                           kd_MorselsEmitted = em_MorselIDs em, kd_Steps = steps6 @ [(''emit'', ''ok'')], kd_TotalTokens = tokens\<rparr>,
                      ev @ [CrabNotify ''crab_done'', CrabHealth ''crab_completed'', OrganismLog ''completed'' 7], Some db')))"

definition CrabDecompositionWorkflow ::
  "crab_env \<Rightarrow> crab_request \<Rightarrow> dag_db option
     \<Rightarrow> ((crab_failure, crab_result) result \<times> crab_event list \<times> dag_db option) option" where
  "CrabDecompositionWorkflow env req0 d =
     (let req = (if kr_Tier req0 = [] then req0\<lparr>kr_Tier := ''fast''\<rparr> else req0);
          ev = [CrabNotify ''crab_start''];
          stop = (\<lambda>reason steps tokens. case failOrEscalateToPlanning env req reason steps tokens ev of (res, ev') \<Rightarrow> Some (res, ev', d))
      in case ParseMarkdownPlan (kr_PlanMarkdown req) of
           Inl _ \<Rightarrow> stop ''parse plan failed'' [(''parse'', ''failed'')] no_tokens
         | Inr plan \<Rightarrow>
             (let c = clarify_phase env plan;
                  tokens = add_tokens no_tokens (cq_Tokens c);
                  steps2 = [(''parse'', ''ok''), (''clarify'', step_status (ke_clarify_ok env)), (''blast_scan'', step_status (ke_blast_ok env))]
              in case DecomposeActivity (ke_decompose env) (ke_decode_whales env) of
                   Inl _ \<Rightarrow> stop ''decomposition failed'' (steps2 @ [(''decompose'', ''failed'')]) tokens
                 | Inr whales \<Rightarrow>
                     (let scope = ScopeMorselsActivity (ke_scope env) (ke_decode_whales env);
                          scoped = (case scope of Inl _ \<Rightarrow> whales | Inr ws \<Rightarrow> ws);
                          steps4 = steps2 @ [(''decompose'', ''ok''), (''scope'', step_status (is_ok scope))]
                      in case SizeMorselsActivity (ke_size env) (ke_decode_sized env) of
                           Inl _ \<Rightarrow> stop ''sizing failed'' (steps4 @ [(''size'', ''failed'')]) tokens
                         | Inr sized \<Rightarrow> review_and_emit env req scoped sized (steps4 @ [(''size'', ''ok'')]) tokens ev d)))"


section \<open>Lemmas on the emission\<close>

definition grown :: "dag_db \<Rightarrow> string list \<Rightarrow> dag_db \<Rightarrow> bool" where
  "grown db0 ids db \<longleftrightarrow> dag_inv db \<and> row_ids db = row_ids db0 \<union> set ids \<and> set ids \<inter> row_ids db0 = {} \<and> distinct ids \<and>
     (\<forall>j \<in> row_ids db0. lookup_row db j = lookup_row db0 j)"

lemma create_lookup:
  assumes "CreateTask (Some db) t now draws = Inr (i, db')"
  shows "i \<notin> row_ids db" "row_ids db' = insert i (row_ids db)" "db_edges db' = db_edges db"
    "j \<noteq> i \<Longrightarrow> lookup_row db' j = lookup_row db j"
    "\<exists>u. lookup_row db' i = Some u \<and> task_ParentID u = task_ParentID t \<and> task_Type u = normalizeTaskType (task_Type t)"
proof -
  note c = CreateTask_ok [OF assms]
  show "i \<notin> row_ids db" "row_ids db' = insert i (row_ids db)" "db_edges db' = db_edges db" using c by (auto simp: row_ids_def)
  have n: "lookup_row db i = None" using c by (simp add: lookup_row_None)
  show "j \<noteq> i \<Longrightarrow> lookup_row db' j = lookup_row db j"
    using c by (auto simp: lookup_row_def find_append split: option.splits)
  show "\<exists>u. lookup_row db' i = Some u \<and> task_ParentID u = task_ParentID t \<and> task_Type u = normalizeTaskType (task_Type t)"
    using c n by (auto simp: lookup_row_def find_append)
qed

definition emit_inv :: "dag_db \<Rightarrow> emit_state \<Rightarrow> bool" where
  "emit_inv db0 s \<longleftrightarrow>
     (let ws = em_WhaleIDs (ex_result s); ms = em_MorselIDs (ex_result s)
      in grown db0 (ws @ ms) (ex_dag s) \<and> ran (ex_whales s) \<subseteq> set ws \<and> ran (ex_morsels s) \<subseteq> set ms \<and>
         (\<forall>j \<in> set ms. \<exists>t. lookup_row (ex_dag s) j = Some t \<and> task_ParentID t \<in> set ws \<and> task_Type t = ''morsel'') \<and>
         set (db_edges db0) \<subseteq> set (db_edges (ex_dag s)) \<and>
         set (db_edges (ex_dag s)) \<subseteq> set (db_edges db0) \<union> set ms \<times> set ms)"

lemma emit_detail_inv [simp]: "emit_inv db0 (emit_detail_line d s) = emit_inv db0 s"
  by (simp add: emit_inv_def emit_detail_line_def Let_def)

lemma emit_failure_inv [simp]: "emit_inv db0 (emit_failure d s) = emit_inv db0 s"
  by (simp add: emit_failure_def) (simp add: emit_inv_def)

lemma emit_calls_inv [simp]: "emit_inv db0 (s\<lparr>ex_calls := n\<rparr>) = emit_inv db0 s"
  by (simp add: emit_inv_def)

lemma emit_start_inv: "dag_inv db \<Longrightarrow> emit_inv db (emit_start db)"
  by (simp add: emit_inv_def emit_start_def grown_def)

lemma morsel_type: "normalizeTaskType ''morsel'' = ''morsel''"
  by code_simp

lemma grown_create:
  assumes "grown db0 ids db" and "CreateTask (Some db) t now draws = Inr (i, db')" and "mset ids' = mset (i # ids)"
  shows "grown db0 ids' db'" "i \<notin> set ids"
proof -
  note c = create_lookup [OF assms(2)]
  have i: "i \<notin> set ids" "i \<notin> row_ids db0" using assms(1) c(1) by (auto simp: grown_def)
  have "dag_inv db'" using dag_inv_CreateTask [OF _ assms(2)] assms(1) by (simp add: grown_def)
  moreover have "set ids' = insert i (set ids)" "distinct ids'"
    using assms(1,3) i(1) by (metis list.set(2) set_mset_mset, metis distinct.simps(2) grown_def mset_eq_imp_distinct_iff)
  moreover have "lookup_row db' j = lookup_row db0 j" if "j \<in> row_ids db0" for j
  proof -
    have "j \<noteq> i" using that i(2) by auto
    then show ?thesis using c(4) assms(1) that by (simp add: grown_def)
  qed
  ultimately show "grown db0 ids' db'" using assms(1) c(2) i unfolding grown_def by auto
  show "i \<notin> set ids" by (fact i(1))
qed

lemma emit_whale_inv:
  assumes "emit_inv db0 s"
  shows "emit_inv db0 (emit_whale req now draws w s)"
proof (cases "CreateTask (Some (ex_dag s)) (whale_task req w) now (draws (ex_calls s))")
  case (Inl e)
  then show ?thesis using assms by (simp add: emit_whale_def)
next
  case (Inr r)
  then obtain i db' where r: "CreateTask (Some (ex_dag s)) (whale_task req w) now (draws (ex_calls s)) = Inr (i, db')" by (cases r) auto
  let ?ws = "em_WhaleIDs (ex_result s)" and ?ms = "em_MorselIDs (ex_result s)"
  have g: "grown db0 (?ws @ ?ms) (ex_dag s)" using assms by (simp add: emit_inv_def Let_def)
  note c = create_lookup [OF r]
  have g': "grown db0 (?ws @ i # ?ms) db'" "i \<notin> set (?ws @ ?ms)" using grown_create [OF g r, of "?ws @ i # ?ms"] by simp_all
  have "ran ((ex_whales s)(cw_Index w \<mapsto> i)) \<subseteq> insert i (set ?ws)"
    using assms by (auto simp: emit_inv_def Let_def ran_def split: if_splits)
  moreover have "\<forall>j \<in> set ?ms. \<exists>t. lookup_row db' j = Some t \<and> task_ParentID t \<in> insert i (set ?ws) \<and> task_Type t = ''morsel''"
    using assms g'(2) c(4) by (auto simp: emit_inv_def Let_def) (metis UnCI)
  ultimately show ?thesis using assms g'(1) c(3) r
    by (simp add: emit_whale_def emit_inv_def emit_detail_line_def Let_def)
qed

lemma emit_morsel_inv:
  assumes "emit_inv db0 s"
  shows "emit_inv db0 (emit_morsel req now draws im s)"
proof (cases im)
  case (Pair k m)
  show ?thesis
  proof (cases "ex_whales s (sz_WhaleIndex m)")
    case None
    then show ?thesis using assms Pair by (simp add: emit_morsel_def)
  next
    case (Some whaleID)
    show ?thesis
    proof (cases "CreateTask (Some (ex_dag s)) (morsel_task req m whaleID) now (draws (ex_calls s))")
      case (Inl e)
      then show ?thesis using assms Pair Some by (simp add: emit_morsel_def)
    next
      case (Inr r)
      then obtain i db' where r: "CreateTask (Some (ex_dag s)) (morsel_task req m whaleID) now (draws (ex_calls s)) = Inr (i, db')"
        by (cases r) auto
      let ?ws = "em_WhaleIDs (ex_result s)" and ?ms = "em_MorselIDs (ex_result s)"
      have g: "grown db0 (?ws @ ?ms) (ex_dag s)" using assms by (simp add: emit_inv_def Let_def)
      note c = create_lookup [OF r]
      have g': "grown db0 (?ws @ ?ms @ [i]) db'" "i \<notin> set (?ws @ ?ms)" using grown_create [OF g r, of "?ws @ ?ms @ [i]"] by simp_all
      have w: "whaleID \<in> set ?ws" using assms Some by (auto simp: emit_inv_def Let_def ran_def)
      have "\<exists>t. lookup_row db' i = Some t \<and> task_ParentID t \<in> set ?ws \<and> task_Type t = ''morsel''"
        using c(5) w by (auto simp: morsel_task_def morsel_type)
      moreover have "\<forall>j \<in> set ?ms. \<exists>t. lookup_row db' j = Some t \<and> task_ParentID t \<in> set ?ws \<and> task_Type t = ''morsel''"
        using assms g'(2) c(4) by (auto simp: emit_inv_def Let_def) (metis UnCI)
      moreover have "ran ((ex_morsels s)(k \<mapsto> i)) \<subseteq> insert i (set ?ms)"
        using assms by (auto simp: emit_inv_def Let_def ran_def split: if_splits)
      ultimately show ?thesis using assms g'(1) c(3) r Some Pair
        by (auto simp: emit_morsel_def emit_inv_def emit_detail_line_def Let_def)
    qed
  qed
qed


lemma grown_edge:
  assumes "grown db0 ids db" and "a \<in> row_ids db" and "b \<in> row_ids db" and "AddEdge (Some db) a b = Some (Inr db')"
  shows "grown db0 ids db'" "set (db_edges db') = insert (a, b) (set (db_edges db))" "lookup_row db' = lookup_row db"
proof -
  have inv: "dag_inv db" using assms(1) by (simp add: grown_def)
  have t: "trim_space i = i" if "i \<in> row_ids db" for i
  proof -
    obtain u where "lookup_row db i = Some u" using \<open>i \<in> row_ids db\<close> lookup_row_None [of db i] by auto
    then show ?thesis by (rule row_id(1) [OF inv])
  qed
  have db': "db' = insert_edge a b db" using AddEdge_ok [OF inv assms(4)] t assms(2,3) by simp
  have "dag_inv db'" by (rule dag_inv_AddEdge [OF inv assms(4)])
  then show "grown db0 ids db'" using assms(1) by (auto simp: grown_def db' insert_edge_def row_ids_def lookup_row_def)
  show "set (db_edges db') = insert (a, b) (set (db_edges db))" by (auto simp: db' insert_edge_def)
  show "lookup_row db' = lookup_row db" by (auto simp: db' insert_edge_def lookup_row_def)
qed

text \<open>The edge loops return and keep the invariant and what was created; \<open>kept\<close> are the parts they leave alone.\<close>

definition kept :: "emit_state \<Rightarrow> emit_state \<Rightarrow> bool" where
  "kept s s' \<longleftrightarrow> ex_morsels s' = ex_morsels s \<and> em_MorselIDs (ex_result s') = em_MorselIDs (ex_result s) \<and>
     em_WhaleIDs (ex_result s') = em_WhaleIDs (ex_result s)"

lemma kept_trans: "kept s s' \<Longrightarrow> kept s' s'' \<Longrightarrow> kept s s''"
  by (simp add: kept_def)

lemma kept_lines: "kept s s" "kept s (emit_detail_line d s)" "kept s (emit_failure d s)"
  "kept s (emit_detail_line d (s\<lparr>ex_dag := db\<rparr>))"
  by (simp_all add: kept_def emit_detail_line_def emit_failure_def)

lemma emit_edge_inv:
  assumes "emit_inv db0 s" and "fromID \<in> set (em_MorselIDs (ex_result s))"
  shows "\<exists>s'. emit_edge i fromID d (Some s) = Some s' \<and> emit_inv db0 s' \<and> kept s s'"
proof (cases "if d < 0 then None else ex_morsels s (nat d)")
  case None
  then show ?thesis using assms(1) by (simp add: emit_edge_def kept_lines)
next
  case (Some toID)
  let ?ws = "em_WhaleIDs (ex_result s)" and ?ms = "em_MorselIDs (ex_result s)"
  have g: "grown db0 (?ws @ ?ms) (ex_dag s)" using assms(1) by (simp add: emit_inv_def Let_def)
  have to: "toID \<in> set ?ms" using assms(1) Some by (auto simp: emit_inv_def Let_def ran_def split: if_splits)
  then have rows: "fromID \<in> row_ids (ex_dag s)" "toID \<in> row_ids (ex_dag s)" using g assms(2) by (auto simp: grown_def)
  have "dag_inv (ex_dag s)" using g by (simp add: grown_def)
  from AddEdge_returns [OF this] obtain r where r: "AddEdge (Some (ex_dag s)) fromID toID = Some r" by blast
  show ?thesis
  proof (cases r)
    case (Inl e)
    then show ?thesis using Some r assms(1) by (simp add: emit_edge_def kept_lines)
  next
    case (Inr db')
    note e = grown_edge [OF g rows r [unfolded Inr]]
    have "emit_inv db0 (s\<lparr>ex_dag := db'\<rparr>)"
      using assms e to by (auto simp: emit_inv_def Let_def)
    then show ?thesis using Some r Inr by (simp add: emit_edge_def kept_lines)
  qed
qed

lemma fold_emit_edge:
  "emit_inv db0 s \<Longrightarrow> fromID \<in> set (em_MorselIDs (ex_result s)) \<Longrightarrow>
     \<exists>s'. fold (emit_edge i fromID) ds (Some s) = Some s' \<and> emit_inv db0 s' \<and> kept s s'"
proof (induction ds arbitrary: s)
  case Nil
  then show ?case by (simp add: kept_lines)
next
  case (Cons d ds)
  obtain s1 where s1: "emit_edge i fromID d (Some s) = Some s1" "emit_inv db0 s1" "kept s s1"
    using emit_edge_inv [OF Cons.prems] by blast
  then have "fromID \<in> set (em_MorselIDs (ex_result s1))" using Cons.prems(2) by (simp add: kept_def)
  from Cons.IH [OF s1(2) this] show ?case using s1 kept_trans by (metis fold_simps(2))
qed

lemma fold_emit_edges:
  "emit_inv db0 s \<Longrightarrow> \<exists>s'. fold emit_edges ims (Some s) = Some s' \<and> emit_inv db0 s' \<and> kept s s'"
proof (induction ims arbitrary: s)
  case Nil
  then show ?case by (simp add: kept_lines)
next
  case (Cons im ims)
  obtain i m where im: "im = (i, m)" by force
  have "\<exists>s1. emit_edges im (Some s) = Some s1 \<and> emit_inv db0 s1 \<and> kept s s1"
  proof (cases "ex_morsels s i")
    case None
    then show ?thesis using Cons.prems im by (simp add: emit_edges_def kept_lines)
  next
    case (Some fromID)
    then have "fromID \<in> set (em_MorselIDs (ex_result s))" using Cons.prems by (auto simp: emit_inv_def Let_def ran_def)
    from fold_emit_edge [OF Cons.prems this] show ?thesis using Some im by (simp add: emit_edges_def)
  qed
  then obtain s1 where s1: "emit_edges im (Some s) = Some s1" "emit_inv db0 s1" "kept s s1" by blast
  from Cons.IH [OF s1(2)] show ?case using s1 kept_trans by (metis fold_simps(2))
qed

lemma emit_tasks_inv: "dag_inv db \<Longrightarrow> emit_inv db (emit_tasks req now draws whales morsels db)"
proof -
  assume "dag_inv db"
  then have "emit_inv db (fold (emit_whale req now draws) whales s)" if "emit_inv db s" for s
    using that by (induction whales arbitrary: s) (simp_all add: emit_whale_inv)
  moreover have "emit_inv db (fold (emit_morsel req now draws) ims s)" if "emit_inv db s" for ims s
    using that by (induction ims arbitrary: s) (simp_all add: emit_morsel_inv)
  ultimately show ?thesis unfolding emit_tasks_def using emit_start_inv [OF \<open>dag_inv db\<close>] by blast
qed

lemma emit_line_ids [simp]:
  "em_MorselIDs (ex_result (emit_detail_line d s)) = em_MorselIDs (ex_result s)"
  "em_MorselIDs (ex_result (emit_failure d s)) = em_MorselIDs (ex_result s)"
  by (simp_all add: emit_detail_line_def emit_failure_def)

lemma emit_tasks_bound: "length (em_MorselIDs (ex_result (emit_tasks req now draws whales morsels db))) \<le> length morsels"
proof -
  have w: "em_MorselIDs (ex_result (fold (emit_whale req now draws) whales s)) = em_MorselIDs (ex_result s)" for s
    by (induction whales arbitrary: s) (simp_all add: emit_whale_def Let_def split: sum.split prod.split)
  have "length (em_MorselIDs (ex_result (fold (emit_morsel req now draws) ims s))) \<le> length (em_MorselIDs (ex_result s)) + length ims" for ims s
  proof (induction ims arbitrary: s)
    case (Cons im ims)
    have "length (em_MorselIDs (ex_result (emit_morsel req now draws im s))) \<le> Suc (length (em_MorselIDs (ex_result s)))"
      by (simp add: emit_morsel_def Let_def split: sum.split prod.split option.split)
    then show ?case using Cons.IH [of "emit_morsel req now draws im s"] by simp
  qed simp
  from this [of "enumerate 0 morsels" "fold (emit_whale req now draws) whales (emit_start db)"] show ?thesis
    by (simp add: emit_tasks_def w) (simp add: emit_start_def)
qed

lemma EmitMorsels_returns:
  assumes "dag_inv db"
  shows "\<exists>s. EmitMorselsActivity req now draws whales morsels (Some db) = Some (Inr (ex_result s, ex_dag s)) \<and> emit_inv db s \<and>
    length (em_MorselIDs (ex_result s)) \<le> length morsels"
proof -
  obtain s where "fold emit_edges (enumerate 0 morsels) (Some (emit_tasks req now draws whales morsels db)) = Some s"
    "emit_inv db s" "kept (emit_tasks req now draws whales morsels db) s"
    using fold_emit_edges [OF emit_tasks_inv [OF assms]] by blast
  then show ?thesis using emit_tasks_bound [of req now draws whales morsels db]
    by (intro exI [of _ s]) (simp add: EmitMorselsActivity_def kept_def)
qed

lemma sized_bound: "SizeMorselsActivity agent decode = Inr ms \<Longrightarrow> length ms \<le> 50"
  by (auto simp: SizeMorselsActivity_def split: sum.splits if_splits)

lemma cap_morsels_total: "total_morsels (cap_morsels n whales) \<le> n"
  by (induction n whales rule: cap_morsels.induct) (auto simp: total_morsels_def Let_def)


lemma fail_not_completed:
  "failOrEscalateToPlanning env req reason steps tokens ev = (res, ev') \<Longrightarrow> \<forall>r. res = Inr r \<longrightarrow> kd_Status r \<noteq> ''completed''"
  by (auto simp: failOrEscalateToPlanning_def escalateToPlanningCeremony_def Let_def split: if_splits)

text \<open>What a decomposition that reports \<open>completed\<close> has written, relative to the graph before.\<close>

definition emitted :: "dag_db \<Rightarrow> string list \<Rightarrow> string list \<Rightarrow> dag_db \<Rightarrow> bool" where
  "emitted db ws ms db' \<longleftrightarrow>
     dag_inv db' \<and> row_ids db' = row_ids db \<union> set ws \<union> set ms \<and> set (ws @ ms) \<inter> row_ids db = {} \<and> distinct (ws @ ms) \<and>
     (\<forall>j \<in> row_ids db. lookup_row db' j = lookup_row db j) \<and>
     (\<forall>j \<in> set ms. \<exists>t. lookup_row db' j = Some t \<and> task_ParentID t \<in> set ws \<and> task_Type t = ''morsel'') \<and>
     set (db_edges db) \<subseteq> set (db_edges db') \<and> set (db_edges db') \<subseteq> set (db_edges db) \<union> set ms \<times> set ms"

lemma emit_inv_emitted: "emit_inv db s \<Longrightarrow> emitted db (em_WhaleIDs (ex_result s)) (em_MorselIDs (ex_result s)) (ex_dag s)"
  by (simp add: emit_inv_def emitted_def grown_def Let_def Un_assoc)

definition crab_safe :: "crab_env \<Rightarrow> crab_request \<Rightarrow> dag_db \<Rightarrow> (crab_failure, crab_result) result \<Rightarrow> dag_db option \<Rightarrow> bool" where
  "crab_safe env req db res d' \<longleftrightarrow>
     (if \<exists>r. res = Inr r \<and> kd_Status r = ''completed'' then
        review_decision env req = ''APPROVED'' \<and>
        (\<exists>r db'. res = Inr r \<and> d' = Some db' \<and> length (kd_MorselsEmitted r) \<le> 50 \<and>
           emitted db (kd_WhalesEmitted r) (kd_MorselsEmitted r) db')
      else d' = Some db)"

lemma review_and_emit_safe:
  assumes "dag_inv db" and "length sized \<le> 50"
  shows "\<exists>res ev' d'. review_and_emit env req whales sized steps tokens ev (Some db) = Some (res, ev', d') \<and> crab_safe env req db res d'"
proof (cases "review_decision env req = ''APPROVED''")
  case False
  then show ?thesis by (simp add: review_and_emit_def crab_safe_def)
next
  case True
  obtain s where s: "EmitMorselsActivity req (ke_now env) (ke_draws env) whales sized (Some db) = Some (Inr (ex_result s, ex_dag s))"
    "emit_inv db s" "length (em_MorselIDs (ex_result s)) \<le> length sized"
    using EmitMorsels_returns [OF assms(1)] by blast
  then show ?thesis using True assms(2) emit_inv_emitted [OF s(2)]
    by (simp add: review_and_emit_def crab_safe_def Let_def)
qed

lemma stop_safe:
  "crab_safe env req db (fst (failOrEscalateToPlanning env req' reason steps tokens ev)) (Some db)"
  using fail_not_completed [of env req' reason steps tokens ev] by (cases "failOrEscalateToPlanning env req' reason steps tokens ev")
    (auto simp: crab_safe_def)

section \<open>Properties\<close>



definition sample_morsel :: "string \<Rightarrow> int list \<Rightarrow> sized_morsel" where
  "sample_morsel title deps = \<lparr>sz_Title = title, sz_Description = [], sz_AcceptanceCriteria = [], sz_Design = [], sz_EstimateMinutes = 30,
     sz_Priority = 2, sz_Labels = [], sz_FileHints = [], sz_DependsOnIndices = deps, sz_WhaleIndex = 0, sz_RiskLevel = ''low'',
     sz_SizingRationale = []\<rparr>"

definition sample_crab_env :: crab_env where
  "sample_crab_env = \<lparr>ke_lessons = None, ke_clarify_ok = True, ke_chief = None, ke_decode_answers = (\<lambda>_. None), ke_human = None,
     ke_blast_ok = True, ke_decompose = Inr ''[]'', ke_scope = Inl ''down'',
     ke_decode_whales = (\<lambda>_. Some [\<lparr>cw_Index = 0, cw_Title = ''w'', cw_Description = [], cw_AcceptanceCriteria = [], cw_Morsels = [],
                                    cw_ParentScopeItem = 0\<rparr>]),
     ke_size = Inr ''[]'', ke_decode_sized = (\<lambda>_. Some [sample_morsel ''a'' [], sample_morsel ''b'' [0]]), ke_review = None,
     ke_draws = (\<lambda>n k. Some n), ke_now = 5, ke_ceremony_ok = True\<rparr>"

definition sample_crab_request :: crab_request where
  "sample_crab_request = \<lparr>kr_PlanID = ''p1'', kr_Project = ''p'', kr_WorkDir = ''/w'',
     kr_PlanMarkdown = ''# T'' @ newline @ ''## Scope'' @ newline @ ''- [ ] a'', kr_Tier = [], kr_ParentWhaleID = [],
     kr_RequireHumanReview = True, kr_DisableTurtleEscalation = False\<rparr>"


text \<open>
  Clarification loses no scope item: every open item is answered by the lessons or by the chief, or it is among the
  questions for a human, who is asked exactly when there are such questions.
\<close>

lemma self_answer_covers:
  "self_answer store items = (res, un) \<Longrightarrow> it \<in> set items \<Longrightarrow> \<not> si_Completed it \<Longrightarrow>
     it \<in> set un \<or> (\<exists>e \<in> set res. cn_Question e = item_question (si_Description it))"
proof (induction items arbitrary: res un)
  case (Cons x items)
  obtain res' un' where r: "self_answer store items = (res', un')" by force
  show ?case
  proof (cases "it \<in> set items")
    case True
    then show ?thesis using Cons.IH [OF r True] Cons.prems(1,3) r
      by (auto split: if_splits option.splits list.splits)
  next
    case False
    then show ?thesis using Cons.prems r by (auto simp: lesson_entry_def split: if_splits option.splits list.splits)
  qed
qed simp

lemma ask_chief_covers:
  assumes "ask_chief decode output un = (ans, rest)" and "it \<in> set un"
  shows "it \<in> set rest \<or> (\<exists>e \<in> set ans. cn_Question e = item_question (si_Description it))"
  using assms by (fastforce simp: ask_chief_def chief_entries_def Let_def split: if_splits sum.splits)

lemma clarification_covers:
  assumes "it \<in> set (pp_ScopeItems plan)" and "\<not> si_Completed it" and "c = ClarifyGapsActivity store chief decode plan"
  shows "((\<exists>e \<in> set (cq_Resolved c). cn_Question e = item_question (si_Description it)) \<or>
      human_question (si_Description it) \<in> set (cq_HumanQuestions c)) \<and>
    (cq_NeedsHumanInput c \<longleftrightarrow> cq_HumanQuestions c \<noteq> [])"
proof -
  obtain res un where s: "self_answer store (pp_ScopeItems plan) = (res, un)" by force
  obtain ans rest where a: "(case chief of None \<Rightarrow> ([], un) | Some (output, _) \<Rightarrow> ask_chief decode output un) = (ans, rest)" by force
  have "it \<in> set un \<Longrightarrow> it \<in> set rest \<or> (\<exists>e \<in> set ans. cn_Question e = item_question (si_Description it))"
    using a ask_chief_covers by (cases chief) (auto split: prod.splits)
  then show ?thesis using self_answer_covers [OF s assms(1,2)] a
    by (auto simp: assms(3) ClarifyGapsActivity_def s)
qed

text \<open>The morsels of a decomposition are cut to fifty in order.\<close>

lemma decompose_bound: "DecomposeActivity agent decode = Inr whales \<Longrightarrow> total_morsels whales \<le> 50"
  using cap_morsels_total [of 50] by (auto simp: DecomposeActivity_def split: sum.splits if_splits)


section \<open>The blast radius\<close>

text \<open>
  \<open>scanGoBlastRadius\<close> and the second half of \<open>scanJSBlastRadius\<close> over the decoded output of the tools: the imports of each package.
\<close>

record hot_file =
  hf_Path :: string
  hf_ImportedBy :: nat

record blast_report =
  br_Language :: string
  br_HotFiles :: "hot_file list"
  br_CircularDeps :: "string list"
  br_TotalPkgs :: nat
  br_TotalFiles :: nat
  br_ScanErrors :: "string list"

definition fan_in :: "string list list \<Rightarrow> string \<Rightarrow> nat" where
  "fan_in imports path = length (filter (\<lambda>imp. imp = path) (concat imports))"

definition fan_less :: "string \<times> nat \<Rightarrow> string \<times> nat \<Rightarrow> bool" where
  "fan_less a b = (if snd a \<noteq> snd b then snd a > snd b else fst a < fst b)"

definition hot_files :: "string list list \<Rightarrow> hot_file list" where
  "hot_files imports =
     (let entries = filter (\<lambda>e. 3 \<le> snd e) (map (\<lambda>p. (p, fan_in imports p)) (remdups (concat imports)))
      in map (\<lambda>(p, n). \<lparr>hf_Path = p, hf_ImportedBy = n\<rparr>) (take 20 (sort_slice fan_less entries)))"

definition scanGoBlastRadius :: "string + string list list \<Rightarrow> blast_report \<Rightarrow> blast_report" where
  "scanGoBlastRadius result report =
     (case result of
        Inl err \<Rightarrow> report\<lparr>br_ScanErrors := br_ScanErrors report @ [''go list failed: '' @ truncate_str err 200]\<rparr>
      | Inr imports \<Rightarrow> report\<lparr>br_TotalPkgs := length imports, br_HotFiles := br_HotFiles report @ hot_files imports\<rparr>)"

definition scanJSBlastRadius ::
  "string list list option option \<Rightarrow> string list list option option \<Rightarrow> blast_report \<Rightarrow> blast_report" where
  "scanJSBlastRadius circular graph report0 =
     (let report1 = (case circular of
            None \<Rightarrow> report0\<lparr>br_ScanErrors := br_ScanErrors report0 @ [''madge circular check unavailable'']\<rparr>
          | Some None \<Rightarrow> report0
          | Some (Some cycles) \<Rightarrow>
              report0\<lparr>br_CircularDeps := br_CircularDeps report0 @ map (join_with '' -> '') (filter (\<lambda>c. c \<noteq> []) cycles)\<rparr>)
      in case graph of
           None \<Rightarrow> report1\<lparr>br_ScanErrors := br_ScanErrors report1 @ [''madge graph unavailable'']\<rparr>
         | Some None \<Rightarrow> report1
         | Some (Some imports) \<Rightarrow>
             report1\<lparr>br_TotalPkgs := length imports, br_HotFiles := br_HotFiles report1 @ hot_files imports\<rparr>)"

definition FormatBlastRadiusSection :: "blast_report option \<Rightarrow> string" where
  "FormatBlastRadiusSection r =
     (case r of None \<Rightarrow> []
      | Some report \<Rightarrow>
          if br_HotFiles report = [] \<and> br_CircularDeps report = [] then []
          else ''Language: '' @ br_Language report @ '' | '' @ show_int (int (br_TotalPkgs report)) @ '' packages | '' @
               show_int (int (br_TotalFiles report)) @ '' source files'' @ nl @ nl @
               (if br_HotFiles report = [] then []
                else ''High-coupling files (split carefully '' @ [CHR 0xE2, CHR 0x80, CHR 0x94] @ '' changes here ripple widely):'' @ nl @
                     concat (map (\<lambda>hf. ''- '' @ hf_Path hf @ '' (imported by '' @ show_int (int (hf_ImportedBy hf)) @ '' packages)'' @ nl)
                       (br_HotFiles report)) @ nl) @
               (if br_CircularDeps report = [] then []
                else ''Circular dependencies (break these if touched):'' @ nl @
                     concat (map (\<lambda>cd. ''- '' @ cd @ nl) (br_CircularDeps report))))"

interpretation fan_order: slice_order fan_less
  by unfold_locales (auto simp: fan_less_def split: if_splits)

text \<open>The hot files are at most twenty, with true counts of three and more, and none that is left out is imported more often.\<close>

lemma hot_files_top:
  assumes "e \<in> set (hot_files imports)"
  shows "hf_ImportedBy e = fan_in imports (hf_Path e)" "3 \<le> hf_ImportedBy e" "length (hot_files imports) \<le> 20"
    "\<forall>p. fan_in imports p > hf_ImportedBy e \<longrightarrow> p \<in> hf_Path ` set (hot_files imports)"
proof -
  define entries where "entries = filter (\<lambda>e. 3 \<le> snd e) (map (\<lambda>p. (p, fan_in imports p)) (remdups (concat imports)))"
  let ?s = "sort_slice fan_less entries"
  have h: "hot_files imports = map (\<lambda>(p, n). \<lparr>hf_Path = p, hf_ImportedBy = n\<rparr>) (take 20 ?s)"
    by (simp add: hot_files_def entries_def Let_def)
  obtain q where q: "(q, hf_ImportedBy e) \<in> set (take 20 ?s)" "hf_Path e = q" using assms by (auto simp: h)
  then have "(q, hf_ImportedBy e) \<in> set entries" using in_set_takeD by fastforce
  then show i: "hf_ImportedBy e = fan_in imports (hf_Path e)" and three: "3 \<le> hf_ImportedBy e" using q(2) by (auto simp: entries_def)
  show "length (hot_files imports) \<le> 20" by (simp add: h)
  show "\<forall>p. fan_in imports p > hf_ImportedBy e \<longrightarrow> p \<in> hf_Path ` set (hot_files imports)"
  proof (intro allI impI)
    fix p assume p: "fan_in imports p > hf_ImportedBy e"
    then have "filter (\<lambda>imp. imp = p) (concat imports) \<noteq> []" by (auto simp: fan_in_def)
    then have "p \<in> set (concat imports)" by (auto simp: filter_empty_conv)
    then have "(p, fan_in imports p) \<in> set ?s" using p three by (auto simp: entries_def)
    moreover have "(p, fan_in imports p) \<notin> set (drop 20 ?s)"
    proof
      assume "(p, fan_in imports p) \<in> set (drop 20 ?s)"
      moreover have "sorted_wrt (\<lambda>a b. \<not> fan_less b a) (take 20 ?s @ drop 20 ?s)" using fan_order.sorted_sort_slice by simp
      ultimately have "\<not> fan_less (p, fan_in imports p) (q, hf_ImportedBy e)" using q(1) unfolding sorted_wrt_append by blast
      then show False using p by (simp add: fan_less_def)
    qed
    ultimately have "(p, fan_in imports p) \<in> set (take 20 ?s)" by (metis Un_iff append_take_drop_id set_append)
    then show "p \<in> hf_Path ` set (hot_files imports)" by (force simp: h)
  qed
qed


end
