(* ===== verification/Spec2Isabelle.thy ===== *)
theory Spec2Isabelle
  imports Cross_Graph Planner Genomes Task_Effects Crab_Workflow
begin

text \<open>
  A verification library for \<^emph>\<open>chum\<close>, a Go program that keeps a graph of software tasks and has command-line
  coding agents work on them under the supervision of Temporal workflows.

  \<^bold>\<open>The program.\<close> Tasks live in a SQLite database (\<open>internal/graph\<close>). A dispatcher workflow wakes up
  regularly (\<open>internal/temporal/workflow_dispatcher.go\<close>), scans the projects for tasks that can start, and
  starts one child per candidate: the coding workflow, a planning ceremony, or the planner, which chooses
  between the two by a bandit. The coding workflow (\<open>workflow.go\<close>) plans, executes, reviews and verifies a
  task in a git worktree and merges it. Agents are processes with fallbacks and a circuit breaker
  (\<open>agent_cli.go\<close>); their answers are text from which JSON has to be recovered. The store
  (\<open>internal/store\<close>) keeps usage counts, leases, blocks, search statistics and the genomes, a memory
  of what worked per kind of task that also decides which kinds are put to sleep.

  \<^bold>\<open>The theories.\<close> Each definition has the name of the Go function it translates, or a name of its own
  for a part of one; structures are records whose fields carry the Go names behind a short prefix.

  \<^item> \<open>Chum_Prelude\<close>: strings, sorting, result types, and the locales \<open>slice_order\<close> (what \<open>sort.Slice\<close>
    guarantees) and \<open>machine\<close> (a step relation with an invariant).
  \<^item> \<open>Dep_Graph\<close>, \<open>Cross_Graph\<close>: the graph in memory and the dependencies across projects
    (\<open>internal/graph/graph.go\<close>, \<open>cross.go\<close>). The locale \<open>task_selection\<close> is the contract of both
    filters of unblocked tasks.
  \<^item> \<open>Task_Dag\<close>: the persistent graph (\<open>internal/graph/dag.go\<close>): all operations, an invariant of the two
    tables over every reachable database, the cycle check and the promotion of unblocked tasks.
  \<^item> \<open>Retry_Policy\<close>, \<open>Rate_Limiter\<close>: \<open>internal/dispatch/retry.go\<close>, \<open>backoff.go\<close>, \<open>ratelimit.go\<close> and
    the usage table of \<open>internal/store/dispatches.go\<close>.
  \<^item> \<open>Failure_Classifier\<close>: classification of failures, species and complexity.
  \<^item> \<open>Agent_Workflow\<close>: \<open>ChumAgentWorkflow\<close> as a function from the results of its activities to the list of
    its actions.
  \<^item> \<open>Agent_Cli\<close>: environments, command lines, tiers, circuit breaker and failover.
  \<^item> \<open>Dispatcher\<close>, \<open>Dispatch_Tick\<close>: the scan and the tick, with the paginated listings and the search for
    failed workflows.
  \<^item> \<open>Store_Tables\<close>: tables with a key, as the locale \<open>keyed_table\<close>, and the leases, the plan gate, the
    safety blocks and the stages built on it. \<open>Mcts\<close>: the search statistics. \<open>Genomes\<close>: the genomes.
  \<^item> \<open>Dispatch_Store\<close>: the records of dispatches, their queries and the overflow queue
    (\<open>internal/store/dispatches.go\<close>). \<open>Task_Effects\<close>: the activities by which a run of the coding workflow changes the
    graph, the store and the morsel files (\<open>task_activities.go\<close>), and the effect of a whole run.
  \<^item> \<open>Crab_Plan\<close>, \<open>Crab_Workflow\<close>: the parser of plans and their decomposition into tasks (\<open>crab_parse.go\<close>,
    \<open>crab_activities.go\<close>, \<open>workflow_crab.go\<close>).
  \<^item> \<open>Planner\<close>: \<open>internal/planner/primitives.go\<close> and \<open>workflow_planner_v2.go\<close>.
  \<^item> \<open>Llm_Json\<close>: extraction and repair of JSON (\<open>activities.go\<close>, \<open>planning_activities.go\<close>,
    \<open>json_repair.go\<close>), over a model of the scanner of Go's JSON package.

  \<^bold>\<open>What is shown.\<close> State: the invariants of the task database, the usage table, the dispatches, the
  statistics and the genomes over all reachable states; the lease table refines a map. Selection: the filters and the scan
  return exactly ready tasks, respect every limit and skip running and sleeping ones; the choices of the
  sorting and of the bandit do not depend on the order of maps. Workflows: a run settles its task once,
  merges only verified work, and is bounded; a tick starts one child per candidate; a planner run starts one
  child in one of two lanes and its outcome is counted; the events of a coding run settle the task graph as its result says;
  a decomposition writes only approved, bounded and acyclic work. Errors: a scheduler dispatch is recorded completely or not at all; failover, retries, error logs and JSON
  recovery behave as specified on every branch. Where the code does not do what it says, a lemma states
  what it does.

  \<^bold>\<open>Loops and bounds.\<close> Loops over data are structural or have a measure. Loops that may not end are partial
  functions into \<open>option\<close>: the recursive query of the cycle check, which returns on every acyclic graph, and
  the page loops, which return when the server's pages end. No fuel is used. Integers are unbounded where
  the code counts; the delays of the retry policy are cut off where Go's conversion would overflow; floating-point
  numbers are rationals or reals, so rounding is not covered.

  \<^bold>\<open>Parameters.\<close> What is not in the sources is an argument: the answers of the Temporal server and of the
  activities, the clock, random bytes, decoding into Go structures, the order of map traversals, faults of the
  database, and what the SQL driver makes of a stored time.

  \<^bold>\<open>Not modelled.\<close> The planning ceremony, grooming, turtle, explosion and learning workflows, whose logic is mostly
  in prompts; the HTTP API, the command line, the chief and the ceremonies, which decode requests and print
  reports; process, container and git handling; loading and validation of the configuration; reporting queries
  and schema migrations of the store.
\<close>

end
